(* ===== verification/Juggler_Prelude.thy ===== *)
theory Juggler_Prelude
  imports Main "HOL-Library.AList"
begin

text \<open>
  What every component of the development shares: the Go integers and strings the sources
  use (\<^verbatim>\<open>int64\<close> arithmetic and \<^verbatim>\<open>time.Duration\<close>, \<^verbatim>\<open>strconv\<close>,
  \<^verbatim>\<open>strings\<close>, the UTF-8 treatment of \<^verbatim>\<open>encoding/json\<close>), Go errors and
  panics as values, \<^verbatim>\<open>expvar\<close> counters, and the lemma collections the
  component theories extend. All of it is language and standard library; nothing here
  models a line of the repository.
\<close>

section \<open>Lemma collections\<close>

named_theorems codec_simps \<open>equations that evaluate the JSON codec of the messages\<close>
named_theorems conn_simps \<open>frame equations of the connection operations\<close>

section \<open>Go integers\<close>

text \<open>
  \<^verbatim>\<open>int\<close>, \<^verbatim>\<open>int64\<close> and \<^verbatim>\<open>time.Duration\<close> are 64-bit two's
  complement: arithmetic is on \<open>int\<close> with the wrap-around written out by \<open>i64\<close>;
  division truncates towards zero.
\<close>

type_synonym duration = int

definition in_i64 :: "int \<Rightarrow> bool" where
  "in_i64 x \<longleftrightarrow> - (2 ^ 63) \<le> x \<and> x < 2 ^ 63"

definition i64 :: "int \<Rightarrow> int" where
  "i64 x = (x + 2 ^ 63) mod 2 ^ 64 - 2 ^ 63"

definition go_div :: "int \<Rightarrow> int \<Rightarrow> int" where
  "go_div a b = sgn a * sgn b * (\<bar>a\<bar> div \<bar>b\<bar>)"

text \<open>The \<^verbatim>\<open>time\<close> units, in nanoseconds.\<close>

definition Millisecond :: duration where "Millisecond = 1000000"
definition Second :: duration where "Second = 1000 * Millisecond"
definition Minute :: duration where "Minute = 60 * Second"

lemma i64_id [simp]: "in_i64 x \<Longrightarrow> i64 x = x"
  by (simp add: i64_def in_i64_def)

lemma in_i64_i64 [simp, intro]: "in_i64 (i64 x)"
  using pos_mod_bound [of "2 ^ 64" "x + 2 ^ 63"] pos_mod_sign [of "2 ^ 64" "x + 2 ^ 63"]
  by (simp add: i64_def in_i64_def)

lemma i64_add [simp]: "i64 (i64 x + y) = i64 (x + y)"
  by (simp add: i64_def mod_simps algebra_simps)

lemma i64_add' [simp]: "i64 (y + i64 x) = i64 (y + x)"
  using i64_add [of x y] by (simp add: add.commute)

lemma i64_diff [simp]: "i64 (i64 x - y) = i64 (x - y)"
  using i64_add [of x "- y"] by simp

lemma go_div_nonneg: "0 \<le> a \<Longrightarrow> 0 < b \<Longrightarrow> go_div a b = a div b"
  by (cases "a = 0") (simp_all add: go_div_def)

lemma go_div_neg: "a < 0 \<Longrightarrow> 0 < b \<Longrightarrow> go_div a b = - ((- a) div b)"
  by (simp add: go_div_def)

lemma go_div_eq_0_iff: "0 < b \<Longrightarrow> go_div a b = 0 \<longleftrightarrow> \<bar>a\<bar> < b"
  by (auto simp: go_div_def sgn_if div_eq_0_iff zdiv_eq_0_iff split: if_splits)

lemma go_div_pos_iff: "0 < b \<Longrightarrow> 0 < go_div a b \<longleftrightarrow> b \<le> a"
  by (cases "0 \<le> a")
    (auto simp: go_div_nonneg go_div_neg pos_imp_zdiv_pos_iff not_less pos_imp_zdiv_nonneg_iff)

section \<open>Errors and panics\<close>

text \<open>
  Go errors are values: the sentinels the code compares with \<^verbatim>\<open>==\<close> are constructors
  of their own, any other error is known by its text. \<open>ErrJSON\<close> is an error of
  \<^verbatim>\<open>encoding/json\<close>, whose detail is not modelled, and \<open>ErrWrap p e\<close> the
  error of \<^verbatim>\<open>fmt.Errorf("p: %v", e)\<close>.
\<close>

datatype err =
    ErrWriteLockTimeout
  | ErrWriteLimitExceeded
  | ErrCallExpired
  | ErrText string
  | ErrJSON
  | ErrWrap string err

fun err_Error :: "err \<Rightarrow> string" where
  "err_Error ErrWriteLockTimeout = ''juggler: timed out waiting for write lock''"
| "err_Error ErrWriteLimitExceeded = ''write limit exceeded''"
| "err_Error ErrCallExpired = ''juggler/callee: call expired''"
| "err_Error (ErrText s) = s"
| "err_Error ErrJSON = ''json''"
| "err_Error (ErrWrap p e) = p @ '': '' @ err_Error e"

type_synonym 'a result = "err + 'a"

text \<open>A panic carries the value given to \<^verbatim>\<open>panic\<close>: an error value, as the run-time
  errors are, or any other value, by its text.\<close>

datatype panic = PanicError err | PanicValue string

definition nil_dereference :: panic where
  "nil_dereference =
     PanicError (ErrText ''runtime error: invalid memory address or nil pointer dereference'')"

definition index_out_of_range :: panic where
  "index_out_of_range = PanicError (ErrText ''runtime error: index out of range'')"

section \<open>Decimal numbers: strconv\<close>

definition digit_char :: "nat \<Rightarrow> char" where
  "digit_char d = char_of (48 + d)"

definition digit_val :: "char \<Rightarrow> nat option" where
  "digit_val c = (let n = of_char c :: nat in if 48 \<le> n \<and> n \<le> 57 then Some (n - 48) else None)"

fun show_nat :: "nat \<Rightarrow> string" where
  "show_nat n = (if n < 10 then [digit_char n] else show_nat (n div 10) @ [digit_char (n mod 10)])"

declare show_nat.simps [simp del]

definition Itoa :: "int \<Rightarrow> string" where
  "Itoa i = (if i < 0 then CHR ''-'' # show_nat (nat (- i)) else show_nat (nat i))"

fun read_digits :: "nat \<Rightarrow> string \<Rightarrow> nat option" where
  "read_digits acc [] = Some acc"
| "read_digits acc (c # cs) =
     (case digit_val c of None \<Rightarrow> None | Some d \<Rightarrow> read_digits (10 * acc + d) cs)"

definition read_nat :: "string \<Rightarrow> nat option" where
  "read_nat s = (if s = [] then None else read_digits 0 s)"

text \<open>\<^verbatim>\<open>strconv.ParseInt(s, 10, 64)\<close>, which is also \<^verbatim>\<open>strconv.Atoi\<close> on a
  64-bit platform: an optional sign, at least one digit, a value in range.\<close>

definition ParseInt :: "string \<Rightarrow> int option" where
  "ParseInt s =
     (let v = (case s of
                 [] \<Rightarrow> None
               | c # cs \<Rightarrow>
                   if c = CHR ''-'' then map_option (\<lambda>n. - int n) (read_nat cs)
                   else if c = CHR ''+'' then map_option int (read_nat cs)
                   else map_option int (read_nat s))
      in case v of None \<Rightarrow> None | Some i \<Rightarrow> if in_i64 i then Some i else None)"

text \<open>The text of an error of \<^verbatim>\<open>strconv.Atoi\<close>: of the syntax, or of a number out of range;
  \<open>quote\<close> is \<^verbatim>\<open>strconv.Quote\<close>.\<close>

definition atoi_error :: "(string \<Rightarrow> string) \<Rightarrow> string \<Rightarrow> string" where
  "atoi_error quote s =
     (let digits = (case s of [] \<Rightarrow> [] | c # cs \<Rightarrow> if c = CHR ''-'' \<or> c = CHR ''+'' then cs else s) in
      ''strconv.Atoi: parsing '' @ quote s @
      (if read_nat digits = None then '': invalid syntax'' else '': value out of range''))"

lemma digit_val_digit_char [simp]: "d < 10 \<Longrightarrow> digit_val (digit_char d) = Some d"
  by (simp add: digit_val_def digit_char_def)

lemma digit_char_not_sign [simp]:
  assumes "d < 10"
  shows "digit_char d \<noteq> CHR ''-''" and "digit_char d \<noteq> CHR ''+''"
proof -
  have "(of_char (digit_char d) :: nat) = 48 + d"
    using assms by (simp add: digit_char_def)
  then show "digit_char d \<noteq> CHR ''-''" and "digit_char d \<noteq> CHR ''+''"
    by auto
qed

lemma show_nat_nonempty [simp]: "show_nat n \<noteq> []"
  by (subst show_nat.simps) simp

lemma show_nat_digits: "\<forall>c \<in> set (show_nat n). \<exists>d < 10. c = digit_char d"
proof (induction n rule: show_nat.induct)
  case (1 n)
  then show ?case
    by (subst show_nat.simps) (auto intro: exI [of _ "n mod 10"])
qed

lemma read_digits_append:
  "read_digits acc (xs @ ys) =
     (case read_digits acc xs of None \<Rightarrow> None | Some a \<Rightarrow> read_digits a ys)"
  by (induction xs arbitrary: acc) (auto split: option.splits)

lemma read_digits_show_nat: "read_digits 0 (show_nat n) = Some n"
proof (induction n rule: show_nat.induct)
  case (1 n)
  then show ?case
    by (subst show_nat.simps) (auto simp: read_digits_append)
qed

lemma read_nat_show_nat [simp]: "read_nat (show_nat n) = Some n"
  by (simp add: read_nat_def read_digits_show_nat)

lemma show_nat_no_sign: "show_nat n = c # cs \<Longrightarrow> c \<noteq> CHR ''-'' \<and> c \<noteq> CHR ''+''"
proof -
  assume "show_nat n = c # cs"
  then have "c \<in> set (show_nat n)" by simp
  then obtain d where "d < 10" and "c = digit_char d" using show_nat_digits by blast
  then show ?thesis by simp
qed

lemma ParseInt_Itoa [simp]: "in_i64 i \<Longrightarrow> ParseInt (Itoa i) = Some i"
proof (cases "i < 0")
  case True
  assume "in_i64 i"
  with True show ?thesis by (simp add: ParseInt_def Itoa_def)
next
  case False
  assume i: "in_i64 i"
  obtain c cs where s: "show_nat (nat i) = c # cs"
    by (cases "show_nat (nat i)") auto
  with show_nat_no_sign have "c \<noteq> CHR ''-''" and "c \<noteq> CHR ''+''" by blast+
  then have "ParseInt (Itoa i) = (case map_option int (read_nat (show_nat (nat i))) of
      None \<Rightarrow> None | Some j \<Rightarrow> if in_i64 j then Some j else None)"
    using False s by (simp add: ParseInt_def Itoa_def)
  with i False show ?thesis by simp
qed

lemma ParseInt_in_i64: "ParseInt s = Some i \<Longrightarrow> in_i64 i"
  by (auto simp: ParseInt_def Let_def split: option.splits if_splits)

lemma show_nat_inj: "show_nat m = show_nat n \<Longrightarrow> m = n"
  by (metis option.inject read_nat_show_nat)

section \<open>UTF-8\<close>

text \<open>
  A Go string is a sequence of bytes, here a \<open>string\<close> whose characters are the bytes.
  \<^verbatim>\<open>encoding/json\<close> writes every byte that does not belong to a well-formed UTF-8
  sequence as U+FFFD: \<open>rune_len s\<close> is the length of the sequence at the front of \<open>s\<close>
  (0 when it is not well formed, as \<^verbatim>\<open>utf8.DecodeRune\<close> decides it), and
  \<open>to_valid_utf8\<close> the string a JSON round trip yields.
\<close>

abbreviation byte_in :: "nat \<Rightarrow> nat \<Rightarrow> char \<Rightarrow> bool" where
  "byte_in lo hi c \<equiv> lo \<le> (of_char c :: nat) \<and> (of_char c :: nat) \<le> hi"

fun rune_len :: "string \<Rightarrow> nat" where
  "rune_len [] = 0"
| "rune_len (a # s) =
     (if byte_in 0 127 a then 1
      else if byte_in 194 223 a then
        (case s of b # _ \<Rightarrow> if byte_in 128 191 b then 2 else 0 | _ \<Rightarrow> 0)
      else if byte_in 224 239 a then
        (case s of b # c # _ \<Rightarrow>
           if byte_in (if byte_in 224 224 a then 160 else 128)
                (if byte_in 237 237 a then 159 else 191) b \<and> byte_in 128 191 c then 3 else 0
         | _ \<Rightarrow> 0)
      else if byte_in 240 244 a then
        (case s of b # c # d # _ \<Rightarrow>
           if byte_in (if byte_in 240 240 a then 144 else 128)
                (if byte_in 244 244 a then 143 else 191) b
              \<and> byte_in 128 191 c \<and> byte_in 128 191 d then 4 else 0
         | _ \<Rightarrow> 0)
      else 0)"

definition replacement :: string where
  "replacement = [char_of (239 :: nat), char_of (191 :: nat), char_of (189 :: nat)]"

fun to_valid_utf8 :: "string \<Rightarrow> string" where
  "to_valid_utf8 [] = []"
| "to_valid_utf8 (a # s) =
     (case rune_len (a # s) of
        0 \<Rightarrow> replacement @ to_valid_utf8 s
      | Suc n \<Rightarrow> a # take n s @ to_valid_utf8 (drop n s))"

definition valid_utf8 :: "string \<Rightarrow> bool" where
  "valid_utf8 s \<longleftrightarrow> to_valid_utf8 s = s"

lemma rune_len_ascii [simp]: "(of_char a :: nat) < 128 \<Longrightarrow> rune_len (a # s) = 1"
  by simp

lemma to_valid_utf8_ascii:
  "\<forall>c \<in> set s. (of_char c :: nat) < 128 \<Longrightarrow> to_valid_utf8 s = s"
  by (induction s) (simp_all del: rune_len.simps)

section \<open>Case folding and white space: strings, and the key matching of encoding/json\<close>

definition lower_char :: "char \<Rightarrow> char" where
  "lower_char c = (let n = of_char c :: nat in if 65 \<le> n \<and> n \<le> 90 then char_of (n + 32) else c)"

text \<open>
  \<^verbatim>\<open>strings.ToLower\<close> on the ASCII letters. Of the letters beyond ASCII only the Kelvin
  sign has an ASCII letter (\<open>k\<close>) as its lower case, and no word the code looks for has a
  \<open>k\<close>, so the comparisons the code makes with the result are decided by the ASCII part.
\<close>

definition ToLower :: "string \<Rightarrow> string" where
  "ToLower s = map lower_char s"

text \<open>
  \<^verbatim>\<open>encoding/json\<close> matches the key of an object with a struct field up to case; the
  long s (C5 BF) counts as \<open>s\<close> and the Kelvin sign (E2 84 AA) as \<open>k\<close>.
\<close>

fun fold_key :: "string \<Rightarrow> string" where
  "fold_key [] = []"
| "fold_key (c # s) =
     (if of_char c = (197 :: nat) \<and> take 1 s = [char_of (191 :: nat)]
      then CHR ''s'' # fold_key (drop 1 s)
      else if of_char c = (226 :: nat) \<and> take 2 s = [char_of (132 :: nat), char_of (170 :: nat)]
      then CHR ''k'' # fold_key (drop 2 s)
      else lower_char c # fold_key s)"

text \<open>The Unicode white space runes, as UTF-8, that \<^verbatim>\<open>strings.TrimSpace\<close> removes.\<close>

definition space_runes :: "string list" where
  "space_runes =
     map (\<lambda>n. [char_of (n :: nat)]) [9, 10, 11, 12, 13, 32]
     @ map (\<lambda>n. [char_of (194 :: nat), char_of (n :: nat)]) [133, 160]
     @ [[char_of (225 :: nat), char_of (154 :: nat), char_of (128 :: nat)]]
     @ map (\<lambda>n. [char_of (226 :: nat), char_of (128 :: nat), char_of (n :: nat)])
         ([128..<139] @ [168, 169, 175])
     @ [[char_of (226 :: nat), char_of (129 :: nat), char_of (159 :: nat)],
        [char_of (227 :: nat), char_of (128 :: nat), char_of (128 :: nat)]]"

definition starts_with :: "string \<Rightarrow> string \<Rightarrow> bool" where
  "starts_with p s \<longleftrightarrow> take (length p) s = p"

text \<open>The length of the first of the given runes that \<open>s\<close> starts with, 0 for none.\<close>

definition prefix_len :: "string list \<Rightarrow> string \<Rightarrow> nat" where
  "prefix_len rs s = (case filter (\<lambda>r. starts_with r s) rs of [] \<Rightarrow> 0 | r # _ \<Rightarrow> length r)"

fun trim_left :: "string list \<Rightarrow> string \<Rightarrow> string" where
  "trim_left rs [] = []"
| "trim_left rs (c # s) =
     (case prefix_len rs (c # s) of 0 \<Rightarrow> c # s | Suc n \<Rightarrow> trim_left rs (drop n s))"

definition TrimSpace :: "string \<Rightarrow> string" where
  "TrimSpace s = rev (trim_left (map rev space_runes) (rev (trim_left space_runes s)))"

text \<open>\<^verbatim>\<open>strings.Split\<close> with a one-character separator.\<close>

fun Split :: "char \<Rightarrow> string \<Rightarrow> string list" where
  "Split sep [] = [[]]"
| "Split sep (c # s) =
     (if c = sep then [] # Split sep s
      else case Split sep s of [] \<Rightarrow> [[c]] | w # ws \<Rightarrow> (c # w) # ws)"

section \<open>expvar counters\<close>

text \<open>
  A \<^verbatim>\<open>*expvar.Map\<close> that may be nil; an integer per name, 0 where nothing was added.
  \<^verbatim>\<open>Add\<close> is \<^verbatim>\<open>int64\<close> addition.
\<close>

type_synonym vars = "(string \<Rightarrow> int) option"

definition vars_add :: "string \<Rightarrow> int \<Rightarrow> vars \<Rightarrow> vars" where
  "vars_add k d vs = map_option (\<lambda>m. m(k := i64 (m k + d))) vs"

lemma vars_add_None [simp]: "vars_add k d None = None"
  by (simp add: vars_add_def)

lemma vars_add_Some [simp]: "vars_add k d (Some m) = Some (m(k := i64 (m k + d)))"
  by (simp add: vars_add_def)

section \<open>Association lists as Go maps\<close>

text \<open>
  A Go map is an association list with distinct keys, so that ranging over it computes;
  \<open>AList.update\<close> and \<open>AList.delete\<close> are assignment and \<^verbatim>\<open>delete\<close>.
\<close>

lemma map_of_update [simp]: "map_of (AList.update k v al) = (map_of al)(k \<mapsto> v)"
  by (rule update_conv')

lemma map_of_delete [simp]: "map_of (AList.delete k al) = (map_of al)(k := None)"
  by (rule delete_conv')

lemma distinct_fst_update [simp]:
  "distinct (map fst al) \<Longrightarrow> distinct (map fst (AList.update k v al))"
  by (rule distinct_update)

lemma update_fresh: "map_of al k = None \<Longrightarrow> AList.update k v al = al @ [(k, v)]"
  by (induction al) (auto split: if_splits)

end
