(* ===== verification/Json_Codec.thy ===== *)
theory Json_Codec
  imports Juggler_Prelude
begin

text \<open>
  The part of \<^verbatim>\<open>encoding/json\<close> the messages rely on, on JSON values: how a struct
  is decoded from an object (fields found by exact name, then up to case; unknown keys
  ignored; a repeated key decoded again; \<^verbatim>\<open>null\<close> leaving a field as it is; a value
  of the wrong kind an error) and encoded to one (\<^verbatim>\<open>omitempty\<close>, raw messages,
  the repair of ill-formed UTF-8). The text syntax is abstracted: a \<open>wire\<close> is the JSON
  value that a text spells, or \<open>None\<close> for a text that does not parse; a number keeps its
  lexeme. \<^verbatim>\<open>github.com/pborman/uuid\<close> is third-party code and enters as the record
  \<open>codec\<close>, together with what the Go tool chain does with a nil raw message.
\<close>

section \<open>JSON values\<close>

datatype json =
    JNull
  | JBool bool
  | JNum string
  | JStr string
  | JArr "json list"
  | JObj "(string \<times> json) list"

type_synonym wire = "json option"

text \<open>\<^verbatim>\<open>json.RawMessage\<close>: nil, or the JSON value its text spells.\<close>

type_synonym raw = "json option"

text \<open>\<^verbatim>\<open>uuid.UUID\<close> is a byte slice, empty when it is nil.\<close>

type_synonym uuid = string

text \<open>
  Third-party and tool chain parameters: \<^verbatim>\<open>UUID.String\<close>, \<^verbatim>\<open>UUID.MarshalJSON\<close>,
  \<^verbatim>\<open>UUID.UnmarshalJSON\<close> (given the value being overwritten), and whether a nil
  \<^verbatim>\<open>json.RawMessage\<close> is encoded as \<^verbatim>\<open>null\<close> (tool chains since Go 1.8) or
  makes the encoding fail (the older ones).
\<close>

record codec =
  uuid_String :: "uuid \<Rightarrow> string"
  uuid_MarshalJSON :: "uuid \<Rightarrow> json"
  uuid_UnmarshalJSON :: "uuid \<Rightarrow> json \<Rightarrow> uuid option"
  raw_nil_is_null :: bool

definition wf_uuid :: "uuid \<Rightarrow> bool" where
  "wf_uuid u \<longleftrightarrow> u = [] \<or> length u = 16"

text \<open>What the messages rely on: decoding what \<^verbatim>\<open>MarshalJSON\<close> wrote into a nil UUID
  gives the UUID back.\<close>

definition uuid_roundtrips :: "codec \<Rightarrow> bool" where
  "uuid_roundtrips C \<longleftrightarrow>
     (\<forall>u. wf_uuid u \<longrightarrow> uuid_UnmarshalJSON C [] (uuid_MarshalJSON C u) = Some u)"

section \<open>Decoding\<close>

type_synonym 's field = "string \<times> (json \<Rightarrow> 's \<Rightarrow> 's option)"

definition find_field :: "'s field list \<Rightarrow> string \<Rightarrow> (json \<Rightarrow> 's \<Rightarrow> 's option) option" where
  "find_field fs k =
     (case filter (\<lambda>f. fst f = k) fs of
        f # _ \<Rightarrow> Some (snd f)
      | [] \<Rightarrow> (case filter (\<lambda>f. fold_key (fst f) = fold_key k) fs of
                 f # _ \<Rightarrow> Some (snd f) | [] \<Rightarrow> None))"

fun decode_fields :: "'s field list \<Rightarrow> (string \<times> json) list \<Rightarrow> 's \<Rightarrow> 's option" where
  "decode_fields fs [] s = Some s"
| "decode_fields fs ((k, v) # kvs) s =
     (case find_field fs k of
        None \<Rightarrow> decode_fields fs kvs s
      | Some setter \<Rightarrow> (case setter v s of None \<Rightarrow> None | Some s' \<Rightarrow> decode_fields fs kvs s'))"

fun decode_struct :: "'s field list \<Rightarrow> json \<Rightarrow> 's \<Rightarrow> 's option" where
  "decode_struct fs JNull s = Some s"
| "decode_struct fs (JObj kvs) s = decode_fields fs kvs s"
| "decode_struct fs _ s = None"

fun decode_string :: "string \<Rightarrow> json \<Rightarrow> string option" where
  "decode_string old JNull = Some old"
| "decode_string old (JStr s) = Some s"
| "decode_string old _ = None"

fun decode_bool :: "bool \<Rightarrow> json \<Rightarrow> bool option" where
  "decode_bool old JNull = Some old"
| "decode_bool old (JBool b) = Some b"
| "decode_bool old _ = None"

fun decode_int :: "int \<Rightarrow> json \<Rightarrow> int option" where
  "decode_int old JNull = Some old"
| "decode_int old (JNum lexeme) = ParseInt lexeme"
| "decode_int old _ = None"

definition decode_raw :: "raw \<Rightarrow> json \<Rightarrow> raw option" where
  "decode_raw old j = Some (Some j)"

text \<open>A field of a record, from its name, its selector, its update and the decoder of its
  type.\<close>

definition field :: "string \<Rightarrow> ('s \<Rightarrow> 'a) \<Rightarrow> (('a \<Rightarrow> 'a) \<Rightarrow> 's \<Rightarrow> 's) \<Rightarrow> ('a \<Rightarrow> json \<Rightarrow> 'a option)
    \<Rightarrow> 's field" where
  "field k get upd dec = (k, \<lambda>j s. map_option (\<lambda>v. upd (\<lambda>_. v) s) (dec (get s) j))"

section \<open>Encoding\<close>

definition encode_string :: "string \<Rightarrow> json" where
  "encode_string s = JStr (to_valid_utf8 s)"

definition encode_int :: "int \<Rightarrow> json" where
  "encode_int i = JNum (Itoa i)"

definition encode_raw :: "codec \<Rightarrow> raw \<Rightarrow> json option" where
  "encode_raw C r =
     (case r of Some j \<Rightarrow> Some j | None \<Rightarrow> if raw_nil_is_null C then Some JNull else None)"

text \<open>A member that is written unless it is empty.\<close>

definition omitempty :: "bool \<Rightarrow> string \<Rightarrow> json \<Rightarrow> (string \<times> json) list" where
  "omitempty is_zero k j = (if is_zero then [] else [(k, j)])"

definition omitempty_raw :: "string \<Rightarrow> raw \<Rightarrow> (string \<times> json) list" where
  "omitempty_raw k r = (case r of None \<Rightarrow> [] | Some j \<Rightarrow> [(k, j)])"

section \<open>Lemmas\<close>

lemma decode_fields_append:
  "decode_fields fs (xs @ ys) s =
     (case decode_fields fs xs s of None \<Rightarrow> None | Some s' \<Rightarrow> decode_fields fs ys s')"
  by (induction fs xs s rule: decode_fields.induct) (auto split: option.splits)

lemma find_field_here [codec_simps]: "fst f = k \<Longrightarrow> find_field (f # fs) k = Some (snd f)"
  by (simp add: find_field_def)

lemma find_field_there [codec_simps]:
  assumes "fst f \<noteq> k" and "k \<in> fst ` set fs"
  shows "find_field (f # fs) k = find_field fs k"
proof -
  from assms(2) have "filter (\<lambda>g. fst g = k) fs \<noteq> []"
    by (auto simp: filter_empty_conv)
  with assms(1) show ?thesis
    by (auto simp: find_field_def split: list.splits)
qed

lemma decode_int_encode_int [codec_simps]: "in_i64 i \<Longrightarrow> decode_int old (encode_int i) = Some i"
  by (simp add: encode_int_def)

lemma decode_string_encode_string [codec_simps]:
  "valid_utf8 s \<Longrightarrow> decode_string old (encode_string s) = Some s"
  by (simp add: encode_string_def valid_utf8_def)

lemma uuid_decode_encode [codec_simps]:
  "uuid_roundtrips C \<Longrightarrow> wf_uuid u \<Longrightarrow> uuid_UnmarshalJSON C [] (uuid_MarshalJSON C u) = Some u"
  by (simp add: uuid_roundtrips_def)

lemma fst_field [codec_simps]: "fst (field k get upd dec) = k"
  by (simp add: field_def)

lemma snd_field [codec_simps]:
  "snd (field k get upd dec) j s = map_option (\<lambda>v. upd (\<lambda>_. v) s) (dec (get s) j)"
  by (simp add: field_def)

lemma decode_raw_Some [codec_simps]: "decode_raw old j = Some (Some j)"
  by (simp add: decode_raw_def)

end
