(* ===== verification/Message.thy ===== *)
theory Message
  imports Json_Codec
begin

text \<open>
  The package \<^verbatim>\<open>message\<close> (\<^verbatim>\<open>message/message.go\<close>, \<^verbatim>\<open>message/payload.go\<close>):
  the message types and their registry, the eight message structs and their constructors,
  the payloads the brokers store, and the decoding of requests and responses. The nested
  \<^verbatim>\<open>Payload\<close> struct of a message is flattened into its record. \<^verbatim>\<open>uuid.NewRandom\<close>
  enters the constructors as the UUID it drew.
\<close>

section \<open>Message types\<close>

type_synonym msg_type = int

definition startRead :: msg_type where "startRead = 0"
definition CallMsg :: msg_type where "CallMsg = 1"
definition PubMsg :: msg_type where "PubMsg = 2"
definition SubMsg :: msg_type where "SubMsg = 3"
definition UnsbMsg :: msg_type where "UnsbMsg = 4"
definition endRead :: msg_type where "endRead = 5"
definition startWrite :: msg_type where "startWrite = 6"
definition NackMsg :: msg_type where "NackMsg = 7"
definition AckMsg :: msg_type where "AckMsg = 8"
definition ResMsg :: msg_type where "ResMsg = 9"
definition EvntMsg :: msg_type where "EvntMsg = 10"
definition endWrite :: msg_type where "endWrite = 11"
definition customMsg :: msg_type where "customMsg = 256"

lemmas msg_type_defs =
  startRead_def CallMsg_def PubMsg_def SubMsg_def UnsbMsg_def endRead_def
  startWrite_def NackMsg_def AckMsg_def ResMsg_def EvntMsg_def endWrite_def customMsg_def

text \<open>The package variables \<^verbatim>\<open>nextCustomMsg\<close> and \<^verbatim>\<open>lookupType\<close>.\<close>

record registry =
  nextCustomMsg :: msg_type
  lookupType :: "(msg_type \<times> string) list"

definition init_registry :: registry where
  "init_registry =
     \<lparr>nextCustomMsg = customMsg,
      lookupType =
        [(CallMsg, ''CALL''), (PubMsg, ''PUB''), (SubMsg, ''SUB''), (UnsbMsg, ''UNSB''),
         (NackMsg, ''NACK''), (AckMsg, ''ACK''), (ResMsg, ''RES''), (EvntMsg, ''EVNT'')]\<rparr>"

definition Register :: "string \<Rightarrow> registry \<Rightarrow> panic + (msg_type \<times> registry)" where
  "Register name reg =
     (if name \<in> snd ` set (lookupType reg)
      then Inl (PanicValue (''Register called twice for '' @ name))
      else let mt = nextCustomMsg reg in
        Inr (mt, reg\<lparr>nextCustomMsg := i64 (mt + 1),
                     lookupType := AList.update mt name (lookupType reg)\<rparr>))"

definition Type_String :: "registry \<Rightarrow> msg_type \<Rightarrow> string" where
  "Type_String reg mt =
     (let s = (case map_of (lookupType reg) mt of Some n \<Rightarrow> n | None \<Rightarrow> '''') in
      if s \<noteq> '''' then s else ''<unknown: '' @ Itoa mt @ ''>'')"

definition IsRead :: "msg_type \<Rightarrow> bool" where
  "IsRead mt \<longleftrightarrow> startRead < mt \<and> mt < endRead"

definition IsWrite :: "msg_type \<Rightarrow> bool" where
  "IsWrite mt \<longleftrightarrow> startWrite < mt \<and> mt < endWrite"

definition IsStd :: "msg_type \<Rightarrow> bool" where
  "IsStd mt \<longleftrightarrow> IsRead mt \<or> IsWrite mt"

section \<open>Messages\<close>

record meta =
  meta_T :: msg_type
  meta_U :: uuid

definition NewMeta :: "msg_type \<Rightarrow> uuid \<Rightarrow> meta" where
  "NewMeta t u = \<lparr>meta_T = t, meta_U = u\<rparr>"

record partialMsg =
  pm_Meta :: meta
  pm_Payload :: raw

record call =
  call_Meta :: meta
  call_URI :: string
  call_Timeout :: duration
  call_Args :: raw

record sub =
  sub_Meta :: meta
  sub_Channel :: string
  sub_Pattern :: bool

text \<open>\<^verbatim>\<open>type Unsb Sub\<close>.\<close>

type_synonym unsb = sub

record pub =
  pub_Meta :: meta
  pub_Channel :: string
  pub_Args :: raw

record nack =
  nack_Meta :: meta
  nack_For :: uuid
  nack_ForType :: msg_type
  nack_URI :: string
  nack_Channel :: string
  nack_Code :: int
  nack_Message :: string
  nack_Err :: "err option"

record ack =
  ack_Meta :: meta
  ack_For :: uuid
  ack_ForType :: msg_type
  ack_URI :: string
  ack_Channel :: string

record res =
  res_Meta :: meta
  res_For :: uuid
  res_URI :: string
  res_Args :: raw

record evnt =
  evnt_Meta :: meta
  evnt_For :: uuid
  evnt_Channel :: string
  evnt_Pattern :: string
  evnt_Args :: raw

text \<open>\<^verbatim>\<open>Msg\<close> is an interface: \<open>Other\<close> stands for any implementation besides the
  eight of the package.\<close>

datatype msg =
    Call call
  | Sub sub
  | Unsb unsb
  | Pub pub
  | Nack nack
  | Ack ack
  | Res res
  | Evnt evnt
  | Other meta

fun msg_Meta :: "msg \<Rightarrow> meta" where
  "msg_Meta (Call m) = call_Meta m"
| "msg_Meta (Sub m) = sub_Meta m"
| "msg_Meta (Unsb m) = sub_Meta m"
| "msg_Meta (Pub m) = pub_Meta m"
| "msg_Meta (Nack m) = nack_Meta m"
| "msg_Meta (Ack m) = ack_Meta m"
| "msg_Meta (Res m) = res_Meta m"
| "msg_Meta (Evnt m) = evnt_Meta m"
| "msg_Meta (Other m) = m"

definition msg_Type :: "msg \<Rightarrow> msg_type" where
  "msg_Type m = meta_T (msg_Meta m)"

definition msg_UUID :: "msg \<Rightarrow> uuid" where
  "msg_UUID m = meta_U (msg_Meta m)"

section \<open>Payloads stored by the broker\<close>

text \<open>\<^verbatim>\<open>CallPayload\<close>; the two fields that are not encoded come last.\<close>

record callPayload =
  cp_ConnUUID :: uuid
  cp_MsgUUID :: uuid
  cp_URI :: string
  cp_Args :: raw
  cp_TTLAfterRead :: duration
  cp_ReadTimestamp :: int

record resPayload =
  rp_ConnUUID :: uuid
  rp_MsgUUID :: uuid
  rp_URI :: string
  rp_Args :: raw

record pubPayload =
  pp_MsgUUID :: uuid
  pp_Args :: raw

record evntPayload =
  ep_MsgUUID :: uuid
  ep_Channel :: string
  ep_Pattern :: string
  ep_Args :: raw

section \<open>Constructors\<close>

text \<open>
  The arguments of a call or an event are any Go value; \<open>args\<close> is what
  \<^verbatim>\<open>json.Marshal\<close> makes of it, \<open>None\<close> when it fails.
\<close>

definition NewCall :: "uuid \<Rightarrow> string \<Rightarrow> json option \<Rightarrow> duration \<Rightarrow> call result" where
  "NewCall u uri args timeout =
     (case args of
        None \<Rightarrow> Inl ErrJSON
      | Some b \<Rightarrow> Inr \<lparr>call_Meta = NewMeta CallMsg u, call_URI = uri, call_Timeout = timeout,
                       call_Args = Some b\<rparr>)"

definition NewSub :: "uuid \<Rightarrow> string \<Rightarrow> bool \<Rightarrow> sub" where
  "NewSub u channel pattern =
     \<lparr>sub_Meta = NewMeta SubMsg u, sub_Channel = channel, sub_Pattern = pattern\<rparr>"

definition NewUnsb :: "uuid \<Rightarrow> string \<Rightarrow> bool \<Rightarrow> unsb" where
  "NewUnsb u channel pattern =
     \<lparr>sub_Meta = NewMeta UnsbMsg u, sub_Channel = channel, sub_Pattern = pattern\<rparr>"

definition NewPub :: "uuid \<Rightarrow> string \<Rightarrow> json option \<Rightarrow> pub result" where
  "NewPub u channel args =
     (case args of
        None \<Rightarrow> Inl ErrJSON
      | Some b \<Rightarrow> Inr \<lparr>pub_Meta = NewMeta PubMsg u, pub_Channel = channel, pub_Args = Some b\<rparr>)"

definition NewNack :: "uuid \<Rightarrow> msg \<Rightarrow> int \<Rightarrow> err \<Rightarrow> nack" where
  "NewNack u from code e =
     (let nack = \<lparr>nack_Meta = NewMeta NackMsg u, nack_For = msg_UUID from,
                  nack_ForType = msg_Type from, nack_URI = '''', nack_Channel = '''',
                  nack_Code = code, nack_Message = err_Error e, nack_Err = Some e\<rparr> in
      case from of
        Call m \<Rightarrow> nack\<lparr>nack_URI := call_URI m\<rparr>
      | Pub m \<Rightarrow> nack\<lparr>nack_Channel := pub_Channel m\<rparr>
      | Sub m \<Rightarrow> nack\<lparr>nack_Channel := sub_Channel m\<rparr>
      | Unsb m \<Rightarrow> nack\<lparr>nack_Channel := sub_Channel m\<rparr>
      | Ack m \<Rightarrow> nack\<lparr>nack_For := ack_For m, nack_ForType := ack_ForType m,
                       nack_URI := ack_URI m, nack_Channel := ack_Channel m\<rparr>
      | Nack m \<Rightarrow> nack\<lparr>nack_For := nack_For m, nack_ForType := nack_ForType m,
                        nack_URI := nack_URI m, nack_Channel := nack_Channel m\<rparr>
      | Evnt m \<Rightarrow> nack\<lparr>nack_For := evnt_For m, nack_ForType := PubMsg,
                        nack_Channel := evnt_Channel m\<rparr>
      | Res m \<Rightarrow> nack\<lparr>nack_For := res_For m, nack_ForType := CallMsg, nack_URI := res_URI m\<rparr>
      | Other _ \<Rightarrow> nack)"

definition NewAck :: "uuid \<Rightarrow> msg \<Rightarrow> ack" where
  "NewAck u from =
     (let ack = \<lparr>ack_Meta = NewMeta AckMsg u, ack_For = msg_UUID from,
                 ack_ForType = msg_Type from, ack_URI = '''', ack_Channel = ''''\<rparr> in
      case from of
        Call m \<Rightarrow> ack\<lparr>ack_URI := call_URI m\<rparr>
      | Pub m \<Rightarrow> ack\<lparr>ack_Channel := pub_Channel m\<rparr>
      | Sub m \<Rightarrow> ack\<lparr>ack_Channel := sub_Channel m\<rparr>
      | Unsb m \<Rightarrow> ack\<lparr>ack_Channel := sub_Channel m\<rparr>
      | _ \<Rightarrow> ack)"

text \<open>\<^verbatim>\<open>ErrResult\<close> as it is encoded.\<close>

definition ErrResult :: "string \<Rightarrow> json" where
  "ErrResult m = JObj [(''error'', JObj [(''message'', encode_string m)])]"

definition NewRes :: "uuid \<Rightarrow> resPayload \<Rightarrow> res" where
  "NewRes u pld =
     \<lparr>res_Meta = NewMeta ResMsg u, res_For = rp_MsgUUID pld, res_URI = rp_URI pld,
      res_Args = rp_Args pld\<rparr>"

definition NewEvnt :: "uuid \<Rightarrow> evntPayload \<Rightarrow> evnt" where
  "NewEvnt u pld =
     \<lparr>evnt_Meta = NewMeta EvntMsg u, evnt_For = ep_MsgUUID pld, evnt_Channel = ep_Channel pld,
      evnt_Pattern = ep_Pattern pld, evnt_Args = ep_Args pld\<rparr>"

section \<open>Encoding: the struct tags\<close>

definition encode_meta :: "codec \<Rightarrow> meta \<Rightarrow> json" where
  "encode_meta C m =
     JObj [(''type'', encode_int (meta_T m)), (''uuid'', uuid_MarshalJSON C (meta_U m))]"

definition encode_payload :: "codec \<Rightarrow> msg \<Rightarrow> json option" where
  "encode_payload C m =
     (case m of
        Call m \<Rightarrow> map_option (\<lambda>args. JObj
          [(''uri'', encode_string (call_URI m)), (''timeout'', encode_int (call_Timeout m)),
           (''args'', args)]) (encode_raw C (call_Args m))
      | Sub m \<Rightarrow> Some (JObj
          [(''channel'', encode_string (sub_Channel m)), (''pattern'', JBool (sub_Pattern m))])
      | Unsb m \<Rightarrow> Some (JObj
          [(''channel'', encode_string (sub_Channel m)), (''pattern'', JBool (sub_Pattern m))])
      | Pub m \<Rightarrow> map_option (\<lambda>args. JObj
          [(''channel'', encode_string (pub_Channel m)), (''args'', args)])
          (encode_raw C (pub_Args m))
      | Nack m \<Rightarrow> Some (JObj
          ([(''for'', uuid_MarshalJSON C (nack_For m)),
            (''for_type'', encode_int (nack_ForType m))]
           @ omitempty (nack_URI m = '''') ''uri'' (encode_string (nack_URI m))
           @ omitempty (nack_Channel m = '''') ''channel'' (encode_string (nack_Channel m))
           @ [(''code'', encode_int (nack_Code m)),
              (''message'', encode_string (nack_Message m))]))
      | Ack m \<Rightarrow> Some (JObj
          ([(''for'', uuid_MarshalJSON C (ack_For m)),
            (''for_type'', encode_int (ack_ForType m))]
           @ omitempty (ack_URI m = '''') ''uri'' (encode_string (ack_URI m))
           @ omitempty (ack_Channel m = '''') ''channel'' (encode_string (ack_Channel m))))
      | Res m \<Rightarrow> map_option (\<lambda>args. JObj
          ([(''for'', uuid_MarshalJSON C (res_For m))]
           @ omitempty (res_URI m = '''') ''uri'' (encode_string (res_URI m))
           @ [(''args'', args)])) (encode_raw C (res_Args m))
      | Evnt m \<Rightarrow> map_option (\<lambda>args. JObj
          ([(''for'', uuid_MarshalJSON C (evnt_For m))]
           @ omitempty (evnt_Channel m = '''') ''channel'' (encode_string (evnt_Channel m))
           @ omitempty (evnt_Pattern m = '''') ''pattern'' (encode_string (evnt_Pattern m))
           @ [(''args'', args)])) (encode_raw C (evnt_Args m))
      | Other _ \<Rightarrow> None)"

text \<open>\<^verbatim>\<open>json.Marshal\<close> of a message. (The fields of an implementation of
  \<^verbatim>\<open>Msg\<close> outside the package are not known: \<open>Other\<close> is not encoded here.)\<close>

definition encode_msg :: "codec \<Rightarrow> msg \<Rightarrow> json option" where
  "encode_msg C m =
     map_option (\<lambda>p. JObj [(''meta'', encode_meta C (msg_Meta m)), (''payload'', p)])
       (encode_payload C m)"

section \<open>Decoding: the struct tags\<close>

definition meta_fields :: "codec \<Rightarrow> meta field list" where
  "meta_fields C =
     [field ''type'' meta_T meta_T_update decode_int,
      field ''uuid'' meta_U meta_U_update (uuid_UnmarshalJSON C)]"

definition decode_meta :: "codec \<Rightarrow> meta \<Rightarrow> json \<Rightarrow> meta option" where
  "decode_meta C old j = decode_struct (meta_fields C) j old"

definition partial_fields :: "codec \<Rightarrow> partialMsg field list" where
  "partial_fields C =
     [field ''meta'' pm_Meta pm_Meta_update (decode_meta C),
      field ''payload'' pm_Payload pm_Payload_update decode_raw]"

definition call_fields :: "codec \<Rightarrow> call field list" where
  "call_fields C =
     [field ''meta'' call_Meta call_Meta_update (decode_meta C),
      (''payload'', decode_struct
         [field ''uri'' call_URI call_URI_update decode_string,
          field ''timeout'' call_Timeout call_Timeout_update decode_int,
          field ''args'' call_Args call_Args_update decode_raw])]"

definition sub_fields :: "codec \<Rightarrow> sub field list" where
  "sub_fields C =
     [field ''meta'' sub_Meta sub_Meta_update (decode_meta C),
      (''payload'', decode_struct
         [field ''channel'' sub_Channel sub_Channel_update decode_string,
          field ''pattern'' sub_Pattern sub_Pattern_update decode_bool])]"

definition pub_fields :: "codec \<Rightarrow> pub field list" where
  "pub_fields C =
     [field ''meta'' pub_Meta pub_Meta_update (decode_meta C),
      (''payload'', decode_struct
         [field ''channel'' pub_Channel pub_Channel_update decode_string,
          field ''args'' pub_Args pub_Args_update decode_raw])]"

definition nack_fields :: "codec \<Rightarrow> nack field list" where
  "nack_fields C =
     [field ''meta'' nack_Meta nack_Meta_update (decode_meta C),
      (''payload'', decode_struct
         [field ''for'' nack_For nack_For_update (uuid_UnmarshalJSON C),
          field ''for_type'' nack_ForType nack_ForType_update decode_int,
          field ''uri'' nack_URI nack_URI_update decode_string,
          field ''channel'' nack_Channel nack_Channel_update decode_string,
          field ''code'' nack_Code nack_Code_update decode_int,
          field ''message'' nack_Message nack_Message_update decode_string])]"

definition ack_fields :: "codec \<Rightarrow> ack field list" where
  "ack_fields C =
     [field ''meta'' ack_Meta ack_Meta_update (decode_meta C),
      (''payload'', decode_struct
         [field ''for'' ack_For ack_For_update (uuid_UnmarshalJSON C),
          field ''for_type'' ack_ForType ack_ForType_update decode_int,
          field ''uri'' ack_URI ack_URI_update decode_string,
          field ''channel'' ack_Channel ack_Channel_update decode_string])]"

definition res_fields :: "codec \<Rightarrow> res field list" where
  "res_fields C =
     [field ''meta'' res_Meta res_Meta_update (decode_meta C),
      (''payload'', decode_struct
         [field ''for'' res_For res_For_update (uuid_UnmarshalJSON C),
          field ''uri'' res_URI res_URI_update decode_string,
          field ''args'' res_Args res_Args_update decode_raw])]"

definition evnt_fields :: "codec \<Rightarrow> evnt field list" where
  "evnt_fields C =
     [field ''meta'' evnt_Meta evnt_Meta_update (decode_meta C),
      (''payload'', decode_struct
         [field ''for'' evnt_For evnt_For_update (uuid_UnmarshalJSON C),
          field ''channel'' evnt_Channel evnt_Channel_update decode_string,
          field ''pattern'' evnt_Pattern evnt_Pattern_update decode_string,
          field ''args'' evnt_Args evnt_Args_update decode_raw])]"

text \<open>The zero values of the structs.\<close>

definition zero_meta :: meta where
  "zero_meta = \<lparr>meta_T = 0, meta_U = []\<rparr>"

definition zero_partialMsg :: partialMsg where
  "zero_partialMsg = \<lparr>pm_Meta = zero_meta, pm_Payload = None\<rparr>"

definition zero_call :: call where
  "zero_call = \<lparr>call_Meta = zero_meta, call_URI = '''', call_Timeout = 0, call_Args = None\<rparr>"

definition zero_sub :: sub where
  "zero_sub = \<lparr>sub_Meta = zero_meta, sub_Channel = '''', sub_Pattern = False\<rparr>"

definition zero_pub :: pub where
  "zero_pub = \<lparr>pub_Meta = zero_meta, pub_Channel = '''', pub_Args = None\<rparr>"

definition zero_nack :: nack where
  "zero_nack =
     \<lparr>nack_Meta = zero_meta, nack_For = [], nack_ForType = 0, nack_URI = '''',
      nack_Channel = '''', nack_Code = 0, nack_Message = '''', nack_Err = None\<rparr>"

definition zero_ack :: ack where
  "zero_ack =
     \<lparr>ack_Meta = zero_meta, ack_For = [], ack_ForType = 0, ack_URI = '''', ack_Channel = ''''\<rparr>"

definition zero_res :: res where
  "zero_res = \<lparr>res_Meta = zero_meta, res_For = [], res_URI = '''', res_Args = None\<rparr>"

definition zero_evnt :: evnt where
  "zero_evnt =
     \<lparr>evnt_Meta = zero_meta, evnt_For = [], evnt_Channel = '''', evnt_Pattern = '''',
      evnt_Args = None\<rparr>"

section \<open>Unmarshalling\<close>

fun isIn :: "msg_type list \<Rightarrow> msg_type \<Rightarrow> bool" where
  "isIn [] v = False"
| "isIn (vv # list) v = (if v = vv then True else isIn list v)"

text \<open>
  The closure \<^verbatim>\<open>genericUnmarshal\<close>: it wraps the raw payload into an object with that
  one member, decodes it into the zero value and sets the metadata. A missing payload
  gives a text that does not parse.
\<close>

definition genericUnmarshal ::
  "registry \<Rightarrow> partialMsg \<Rightarrow> 's field list \<Rightarrow> ((meta \<Rightarrow> meta) \<Rightarrow> 's \<Rightarrow> 's) \<Rightarrow> 's \<Rightarrow> 's result" where
  "genericUnmarshal reg pm fs set_meta v0 =
     (case (case pm_Payload pm of None \<Rightarrow> None
                                | Some p \<Rightarrow> decode_struct fs (JObj [(''payload'', p)]) v0) of
        None \<Rightarrow> Inl (ErrWrap (''invalid '' @ Type_String reg (meta_T (pm_Meta pm)) @ '' message'') ErrJSON)
      | Some v \<Rightarrow> Inr (set_meta (\<lambda>_. pm_Meta pm) v))"

definition unmarshalIf :: "codec \<Rightarrow> registry \<Rightarrow> wire \<Rightarrow> msg_type list \<Rightarrow> msg result" where
  "unmarshalIf C reg r allowed =
     (case (case r of None \<Rightarrow> None
                    | Some j \<Rightarrow> decode_struct (partial_fields C) j zero_partialMsg) of
        None \<Rightarrow> Inl (ErrWrap ''invalid JSON message'' ErrJSON)
      | Some pm \<Rightarrow>
          let T = meta_T (pm_Meta pm) in
          if allowed \<noteq> [] \<and> \<not> isIn allowed T
          then Inl (ErrText (''invalid message '' @ Type_String reg T @ '' for this peer''))
          else if T = CallMsg then
            map_sum id Call (genericUnmarshal reg pm (call_fields C) call_Meta_update zero_call)
          else if T = SubMsg then
            map_sum id Sub (genericUnmarshal reg pm (sub_fields C) sub_Meta_update zero_sub)
          else if T = UnsbMsg then
            map_sum id Unsb (genericUnmarshal reg pm (sub_fields C) sub_Meta_update zero_sub)
          else if T = PubMsg then
            map_sum id Pub (genericUnmarshal reg pm (pub_fields C) pub_Meta_update zero_pub)
          else if T = NackMsg then
            map_sum id Nack (genericUnmarshal reg pm (nack_fields C) nack_Meta_update zero_nack)
          else if T = AckMsg then
            map_sum id Ack (genericUnmarshal reg pm (ack_fields C) ack_Meta_update zero_ack)
          else if T = ResMsg then
            map_sum id Res (genericUnmarshal reg pm (res_fields C) res_Meta_update zero_res)
          else if T = EvntMsg then
            map_sum id Evnt (genericUnmarshal reg pm (evnt_fields C) evnt_Meta_update zero_evnt)
          else Inl (ErrText (''unknown message '' @ Type_String reg T)))"

definition allReqMsgs :: "msg_type list" where
  "allReqMsgs = [CallMsg, SubMsg, UnsbMsg, PubMsg]"

definition UnmarshalRequest :: "codec \<Rightarrow> registry \<Rightarrow> wire \<Rightarrow> msg_type list \<Rightarrow> msg result" where
  "UnmarshalRequest C reg r allowedMsgs =
     (let cleaned = filter IsRead allowedMsgs;
          cleaned = (if cleaned = [] then allReqMsgs else cleaned)
      in unmarshalIf C reg r cleaned)"

definition UnmarshalResponse :: "codec \<Rightarrow> registry \<Rightarrow> wire \<Rightarrow> msg result" where
  "UnmarshalResponse C reg r = unmarshalIf C reg r [NackMsg, AckMsg, EvntMsg, ResMsg]"

definition Unmarshal :: "codec \<Rightarrow> registry \<Rightarrow> wire \<Rightarrow> msg result" where
  "Unmarshal C reg r = unmarshalIf C reg r []"

section \<open>Well-formed messages\<close>

text \<open>
  A message that a Go program can hold and whose strings are valid UTF-8: 64-bit integers,
  UUIDs of 16 bytes or nil, and the type of its struct.
\<close>

definition wf_meta :: "msg_type \<Rightarrow> meta \<Rightarrow> bool" where
  "wf_meta t m \<longleftrightarrow> meta_T m = t \<and> wf_uuid (meta_U m)"

fun wf_msg :: "msg \<Rightarrow> bool" where
  "wf_msg (Call m) \<longleftrightarrow> wf_meta CallMsg (call_Meta m) \<and> valid_utf8 (call_URI m) \<and> in_i64 (call_Timeout m)"
| "wf_msg (Sub m) \<longleftrightarrow> wf_meta SubMsg (sub_Meta m) \<and> valid_utf8 (sub_Channel m)"
| "wf_msg (Unsb m) \<longleftrightarrow> wf_meta UnsbMsg (sub_Meta m) \<and> valid_utf8 (sub_Channel m)"
| "wf_msg (Pub m) \<longleftrightarrow> wf_meta PubMsg (pub_Meta m) \<and> valid_utf8 (pub_Channel m)"
| "wf_msg (Nack m) \<longleftrightarrow> wf_meta NackMsg (nack_Meta m) \<and> wf_uuid (nack_For m) \<and> in_i64 (nack_ForType m)
     \<and> valid_utf8 (nack_URI m) \<and> valid_utf8 (nack_Channel m) \<and> in_i64 (nack_Code m)
     \<and> valid_utf8 (nack_Message m)"
| "wf_msg (Ack m) \<longleftrightarrow> wf_meta AckMsg (ack_Meta m) \<and> wf_uuid (ack_For m) \<and> in_i64 (ack_ForType m)
     \<and> valid_utf8 (ack_URI m) \<and> valid_utf8 (ack_Channel m)"
| "wf_msg (Res m) \<longleftrightarrow> wf_meta ResMsg (res_Meta m) \<and> wf_uuid (res_For m) \<and> valid_utf8 (res_URI m)"
| "wf_msg (Evnt m) \<longleftrightarrow> wf_meta EvntMsg (evnt_Meta m) \<and> wf_uuid (evnt_For m)
     \<and> valid_utf8 (evnt_Channel m) \<and> valid_utf8 (evnt_Pattern m)"
| "wf_msg (Other m) \<longleftrightarrow> False"

text \<open>What the peer gets of a message: the error of a NACK is not sent, and a nil raw
  message arrives as \<^verbatim>\<open>null\<close>.\<close>

definition sent_raw :: "raw \<Rightarrow> raw" where
  "sent_raw r = (case r of None \<Rightarrow> Some JNull | Some j \<Rightarrow> Some j)"

fun as_sent :: "msg \<Rightarrow> msg" where
  "as_sent (Call m) = Call (call_Args_update sent_raw m)"
| "as_sent (Pub m) = Pub (pub_Args_update sent_raw m)"
| "as_sent (Res m) = Res (res_Args_update sent_raw m)"
| "as_sent (Evnt m) = Evnt (evnt_Args_update sent_raw m)"
| "as_sent (Nack m) = Nack (m\<lparr>nack_Err := None\<rparr>)"
| "as_sent m = m"

section \<open>Lemmas: the codec\<close>

lemmas codec_defs =
  partial_fields_def meta_fields_def decode_meta_def call_fields_def sub_fields_def
  pub_fields_def nack_fields_def ack_fields_def res_fields_def evnt_fields_def
  zero_meta_def zero_partialMsg_def zero_call_def zero_sub_def zero_pub_def zero_nack_def
  zero_ack_def zero_res_def zero_evnt_def

lemma isIn_iff [simp]: "isIn list v \<longleftrightarrow> v \<in> set list"
  by (induction list) auto

lemma in_i64_msg_types [simp]:
  "in_i64 CallMsg" "in_i64 SubMsg" "in_i64 UnsbMsg" "in_i64 PubMsg"
  "in_i64 NackMsg" "in_i64 AckMsg" "in_i64 ResMsg" "in_i64 EvntMsg"
  by (simp_all add: in_i64_def msg_type_defs)

lemma decode_meta_encode_meta [codec_simps]:
  assumes "uuid_roundtrips C" and "wf_meta t m" and "in_i64 t"
  shows "decode_meta C zero_meta (encode_meta C m) = Some m"
  using assms by (simp add: codec_defs encode_meta_def codec_simps wf_meta_def)

lemma decode_partial [codec_simps]:
  assumes "uuid_roundtrips C" and "wf_meta t m" and "in_i64 t"
  shows "decode_struct (partial_fields C) (JObj [(''meta'', encode_meta C m), (''payload'', p)])
           zero_partialMsg = Some \<lparr>pm_Meta = m, pm_Payload = Some p\<rparr>"
  using decode_meta_encode_meta [OF assms]
  by (simp add: partial_fields_def zero_partialMsg_def codec_simps)

lemma genericUnmarshal_Inr:
  assumes "pm_Payload pm = Some p" and "decode_struct fs (JObj [(''payload'', p)]) v0 = Some v"
  shows "genericUnmarshal reg pm fs set_meta v0 = Inr (set_meta (\<lambda>_. pm_Meta pm) v)"
  using assms by (simp add: genericUnmarshal_def)

lemma encode_raw_eq: "encode_raw C r = Some j \<Longrightarrow> sent_raw r = Some j"
  by (auto simp: encode_raw_def sent_raw_def split: option.splits if_splits)

lemma wf_msg_meta:
  assumes "wf_msg m"
  shows "wf_meta (msg_Type m) (msg_Meta m)" and "in_i64 (msg_Type m)"
  using assms by (cases m; auto simp: wf_meta_def msg_Type_def)+

lemma encode_msg_eq:
  "encode_msg C m = Some j \<longleftrightarrow>
     (\<exists>p. encode_payload C m = Some p
        \<and> j = JObj [(''meta'', encode_meta C (msg_Meta m)), (''payload'', p)])"
  by (auto simp: encode_msg_def)

lemmas payload_simps =
  encode_payload_def genericUnmarshal_def codec_simps encode_raw_eq omitempty_def

lemma decode_call:
  assumes "uuid_roundtrips C" "wf_msg (Call m)" "encode_payload C (Call m) = Some p"
  shows "genericUnmarshal reg \<lparr>pm_Meta = call_Meta m, pm_Payload = Some p\<rparr> (call_fields C)
           call_Meta_update zero_call = Inr (call_Args_update sent_raw m)"
  using assms
  by (cases m) (auto simp: payload_simps call_fields_def zero_call_def dest!: encode_raw_eq)

lemma decode_sub:
  assumes "wf_msg (Sub m) \<or> wf_msg (Unsb m)"
    "encode_payload C (Sub m) = Some p \<or> encode_payload C (Unsb m) = Some p"
  shows "genericUnmarshal reg \<lparr>pm_Meta = sub_Meta m, pm_Payload = Some p\<rparr> (sub_fields C)
           sub_Meta_update zero_sub = Inr m"
  using assms
  by (cases m) (auto simp: payload_simps sub_fields_def zero_sub_def)

lemma decode_pub:
  assumes "wf_msg (Pub m)" "encode_payload C (Pub m) = Some p"
  shows "genericUnmarshal reg \<lparr>pm_Meta = pub_Meta m, pm_Payload = Some p\<rparr> (pub_fields C)
           pub_Meta_update zero_pub = Inr (pub_Args_update sent_raw m)"
  using assms
  by (cases m) (auto simp: payload_simps pub_fields_def zero_pub_def dest!: encode_raw_eq)

lemma decode_nack:
  assumes "uuid_roundtrips C" "wf_msg (Nack m)" "encode_payload C (Nack m) = Some p"
  shows "genericUnmarshal reg \<lparr>pm_Meta = nack_Meta m, pm_Payload = Some p\<rparr> (nack_fields C)
           nack_Meta_update zero_nack = Inr (m\<lparr>nack_Err := None\<rparr>)"
  using assms
  by (cases m) (auto simp: payload_simps nack_fields_def zero_nack_def)

lemma decode_ack:
  assumes "uuid_roundtrips C" "wf_msg (Ack m)" "encode_payload C (Ack m) = Some p"
  shows "genericUnmarshal reg \<lparr>pm_Meta = ack_Meta m, pm_Payload = Some p\<rparr> (ack_fields C)
           ack_Meta_update zero_ack = Inr m"
  using assms
  by (cases m) (auto simp: payload_simps ack_fields_def zero_ack_def)

lemma decode_res:
  assumes "uuid_roundtrips C" "wf_msg (Res m)" "encode_payload C (Res m) = Some p"
  shows "genericUnmarshal reg \<lparr>pm_Meta = res_Meta m, pm_Payload = Some p\<rparr> (res_fields C)
           res_Meta_update zero_res = Inr (res_Args_update sent_raw m)"
  using assms
  by (cases m) (auto simp: payload_simps res_fields_def zero_res_def dest!: encode_raw_eq)

lemma decode_evnt:
  assumes "uuid_roundtrips C" "wf_msg (Evnt m)" "encode_payload C (Evnt m) = Some p"
  shows "genericUnmarshal reg \<lparr>pm_Meta = evnt_Meta m, pm_Payload = Some p\<rparr> (evnt_fields C)
           evnt_Meta_update zero_evnt = Inr (evnt_Args_update sent_raw m)"
  using assms
  by (cases m) (auto simp: payload_simps evnt_fields_def zero_evnt_def dest!: encode_raw_eq)

lemmas decode_msg_simps =
  decode_call decode_sub decode_pub decode_nack decode_ack decode_res decode_evnt

lemma unmarshalIf_encode:
  assumes C: "uuid_roundtrips C" and m: "wf_msg m" and j: "encode_msg C m = Some j"
  shows "unmarshalIf C reg (Some j) allowed =
    (if allowed \<noteq> [] \<and> msg_Type m \<notin> set allowed
     then Inl (ErrText (''invalid message '' @ Type_String reg (msg_Type m) @ '' for this peer''))
     else Inr (as_sent m))"
proof -
  obtain p where p: "encode_payload C m = Some p"
    and eq: "j = JObj [(''meta'', encode_meta C (msg_Meta m)), (''payload'', p)]"
    using j by (auto simp: encode_msg_eq)
  have "decode_struct (partial_fields C) j zero_partialMsg
      = Some \<lparr>pm_Meta = msg_Meta m, pm_Payload = Some p\<rparr>"
    unfolding eq by (rule decode_partial [OF C wf_msg_meta [OF m]])
  moreover have "meta_T (msg_Meta m) = msg_Type m" by (simp add: msg_Type_def)
  ultimately show ?thesis using C m p
    by (cases m)
      (auto simp: unmarshalIf_def decode_msg_simps wf_meta_def msg_type_defs)
qed

text \<open>The type that goes with each struct of the package.\<close>

fun struct_Type :: "msg \<Rightarrow> msg_type option" where
  "struct_Type (Call _) = Some CallMsg"
| "struct_Type (Sub _) = Some SubMsg"
| "struct_Type (Unsb _) = Some UnsbMsg"
| "struct_Type (Pub _) = Some PubMsg"
| "struct_Type (Nack _) = Some NackMsg"
| "struct_Type (Ack _) = Some AckMsg"
| "struct_Type (Res _) = Some ResMsg"
| "struct_Type (Evnt _) = Some EvntMsg"
| "struct_Type (Other _) = None"

lemma genericUnmarshal_meta:
  assumes "genericUnmarshal reg pm fs set_meta v0 = Inr v"
  shows "\<exists>w. v = set_meta (\<lambda>_. pm_Meta pm) w"
  using assms by (auto simp: genericUnmarshal_def split: option.splits)

lemma unmarshalIf_Inr:
  assumes "unmarshalIf C reg r allowed = Inr m"
  shows "struct_Type m = Some (msg_Type m)" and "allowed \<noteq> [] \<Longrightarrow> msg_Type m \<in> set allowed"
  using assms
  by (auto simp: unmarshalIf_def Let_def msg_Type_def map_sum_def split: option.splits if_splits
      sum.splits dest!: genericUnmarshal_meta)

lemma UnmarshalRequest_Inr:
  assumes "UnmarshalRequest C reg r allowed = Inr m"
  shows "struct_Type m = Some (msg_Type m)"
    and "msg_Type m \<in> set (if filter IsRead allowed = [] then allReqMsgs else filter IsRead allowed)"
proof -
  let ?cleaned = "if filter IsRead allowed = [] then allReqMsgs else filter IsRead allowed"
  from assms have u: "unmarshalIf C reg r ?cleaned = Inr m"
    by (simp add: UnmarshalRequest_def Let_def)
  have "?cleaned \<noteq> []" by (simp add: allReqMsgs_def)
  with unmarshalIf_Inr [OF u] show "struct_Type m = Some (msg_Type m)" "msg_Type m \<in> set ?cleaned"
    by blast+
qed

section \<open>The registry\<close>

definition wf_registry :: "registry \<Rightarrow> bool" where
  "wf_registry reg \<longleftrightarrow>
     distinct (map fst (lookupType reg)) \<and> distinct (map snd (lookupType reg))
     \<and> (\<forall>t \<in> fst ` set (lookupType reg). IsStd t \<or> customMsg \<le> t \<and> t < nextCustomMsg reg)
     \<and> customMsg \<le> nextCustomMsg reg \<and> in_i64 (nextCustomMsg reg)"

lemma wf_init_registry: "wf_registry init_registry"
  by (simp add: wf_registry_def init_registry_def msg_type_defs IsStd_def IsRead_def IsWrite_def
      in_i64_def)

lemma next_is_free: "wf_registry reg \<Longrightarrow> map_of (lookupType reg) (nextCustomMsg reg) = None"
  by (auto simp: wf_registry_def map_of_eq_None_iff msg_type_defs IsStd_def IsRead_def IsWrite_def)

lemma in_i64_Suc: "in_i64 n \<Longrightarrow> n < 2 ^ 63 - 1 \<Longrightarrow> in_i64 (n + 1)"
  by (simp add: in_i64_def)

lemma wf_Register:
  assumes "wf_registry reg" and "nextCustomMsg reg < 2 ^ 63 - 1"
    and "Register name reg = Inr (t, reg')"
  shows "wf_registry reg'"
  using assms in_i64_Suc [of "nextCustomMsg reg"]
  by (force simp: Register_def Let_def wf_registry_def update_fresh [OF next_is_free [OF assms(1)]]
      msg_type_defs IsStd_def IsRead_def IsWrite_def split: if_splits)

section \<open>Properties\<close>

text \<open>
  C4. Round trip of the protocol: a message with well-formed fields that encodes is decoded
  by the peer to the same message (less the error of a NACK, a nil raw message arriving as
  null); as a request it is accepted exactly when its type is a read type, as a response
  exactly when it is a write type.
\<close>

theorem Unmarshal_roundtrip:
  assumes "uuid_roundtrips C" and "wf_msg m" and "encode_msg C m = Some j"
  shows "Unmarshal C reg (Some j) = Inr (as_sent m)
    \<and> UnmarshalRequest C reg (Some j) [] =
      (if IsRead (msg_Type m) then Inr (as_sent m)
       else Inl (ErrText (''invalid message '' @ Type_String reg (msg_Type m) @ '' for this peer'')))
    \<and> UnmarshalResponse C reg (Some j) =
      (if IsWrite (msg_Type m) then Inr (as_sent m)
       else Inl (ErrText (''invalid message '' @ Type_String reg (msg_Type m) @ '' for this peer'')))"
  using unmarshalIf_encode [OF assms, of reg]
  by (auto simp: Unmarshal_def UnmarshalRequest_def UnmarshalResponse_def allReqMsgs_def
      IsRead_def IsWrite_def msg_type_defs)

text \<open>A concrete codec, in which a UUID is written as a JSON string of its bytes; the
  witnesses use it.\<close>

definition example_codec :: codec where
  "example_codec =
     \<lparr>uuid_String = id, uuid_MarshalJSON = JStr,
      uuid_UnmarshalJSON = decode_string, raw_nil_is_null = True\<rparr>"

definition example_uuid :: uuid where
  "example_uuid = ''0123456789abcdef''"

definition example_call :: call where
  "example_call =
     \<lparr>call_Meta = NewMeta CallMsg example_uuid, call_URI = ''test.echo'', call_Timeout = Second,
      call_Args = Some (JStr ''hi'')\<rparr>"

lemma uuid_roundtrips_example [simp]: "uuid_roundtrips example_codec"
  by (simp add: uuid_roundtrips_def example_codec_def)

lemma wf_example_call [simp]: "wf_msg (Call example_call)"
  by (simp add: example_call_def wf_meta_def NewMeta_def wf_uuid_def example_uuid_def
      valid_utf8_def to_valid_utf8_ascii in_i64_def Second_def Millisecond_def)

theorem Unmarshal_roundtrip_witness:
  "\<exists>j. encode_msg example_codec (Call example_call) = Some j
     \<and> Unmarshal example_codec init_registry (Some j) = Inr (Call example_call)"
proof -
  obtain j where j: "encode_msg example_codec (Call example_call) = Some j"
    by (simp add: encode_msg_def encode_payload_def example_call_def encode_raw_def)
  have "as_sent (Call example_call) = Call example_call"
    by (simp add: example_call_def sent_raw_def)
  with j Unmarshal_roundtrip [OF uuid_roundtrips_example wf_example_call j, of init_registry]
  show ?thesis by simp
qed

text \<open>
  C5. What the server takes from a client: whatever the text, the allowed types and the
  codec, a message that \<^verbatim>\<open>UnmarshalRequest\<close> returns is a request, its struct is the
  one its type names, and its type is among the allowed read types when there are any.
\<close>

theorem UnmarshalRequest_sound:
  assumes "UnmarshalRequest C reg r allowed = Inr m"
  shows "struct_Type m = Some (msg_Type m) \<and> IsRead (msg_Type m)
    \<and> (filter IsRead allowed \<noteq> [] \<longrightarrow> msg_Type m \<in> set allowed)"
  using UnmarshalRequest_Inr [OF assms]
  by (auto simp: allReqMsgs_def IsRead_def msg_type_defs split: if_splits)

theorem UnmarshalRequest_sound_witness:
  "\<exists>r m. UnmarshalRequest example_codec init_registry r [CallMsg, AckMsg] = Inr m
     \<and> msg_Type m \<in> set [CallMsg, AckMsg]"
proof -
  obtain j where j: "encode_msg example_codec (Call example_call) = Some j"
    by (simp add: encode_msg_def encode_payload_def example_call_def encode_raw_def)
  have "msg_Type (Call example_call) = CallMsg"
    by (simp add: msg_Type_def example_call_def NewMeta_def)
  then have "UnmarshalRequest example_codec init_registry (Some j) [CallMsg, AckMsg]
      = Inr (as_sent (Call example_call))"
    using unmarshalIf_encode [OF uuid_roundtrips_example wf_example_call j, of init_registry]
    by (simp add: UnmarshalRequest_def IsRead_def msg_type_defs)
  from UnmarshalRequest_sound [OF this] this show ?thesis
    by (auto simp: IsRead_def msg_type_defs)
qed

text \<open>
  C8. \<^verbatim>\<open>Register\<close> keeps the registry well formed: it panics exactly on a name that
  is taken; otherwise it hands out a type that was free and is neither a read nor a write
  type, whose string is the name from then on, and the string of every other type stays.
\<close>

theorem Register_correct:
  assumes "wf_registry reg" and "nextCustomMsg reg < 2 ^ 63 - 1"
  shows "case Register name reg of
      Inl p \<Rightarrow> name \<in> snd ` set (lookupType reg)
    | Inr (t, reg') \<Rightarrow>
        name \<notin> snd ` set (lookupType reg) \<and> wf_registry reg'
        \<and> \<not> IsStd t \<and> map_of (lookupType reg) t = None
        \<and> (name \<noteq> '''' \<longrightarrow> Type_String reg' t = name)
        \<and> (\<forall>t'. t' \<noteq> t \<longrightarrow> Type_String reg' t' = Type_String reg t')"
proof (cases "Register name reg")
  case (Inl p)
  then show ?thesis by (auto simp: Register_def Let_def split: if_splits)
next
  case (Inr x)
  then obtain t reg' where x: "Register name reg = Inr (t, reg')" by (cases x) auto
  moreover from wf_Register [OF assms x] have "wf_registry reg'" .
  moreover have "\<not> IsStd (nextCustomMsg reg)"
    using assms(1) by (auto simp: wf_registry_def IsStd_def IsRead_def IsWrite_def msg_type_defs)
  ultimately show ?thesis
    using next_is_free [OF assms(1)]
    by (auto simp: Register_def Let_def Type_String_def split: if_splits)
qed

theorem Register_correct_witness:
  "\<exists>reg'. Register ''EXP'' init_registry = Inr (256, reg') \<and> Type_String reg' 256 = ''EXP''"
proof -
  have "nextCustomMsg init_registry < 2 ^ 63 - 1"
    by (simp add: init_registry_def msg_type_defs)
  from Register_correct [OF wf_init_registry this, of "''EXP''"] show ?thesis
    by (auto simp: Register_def init_registry_def msg_type_defs Let_def)
qed

text \<open>
  C9. A NACK names the request it answers: made from a request, or from the ACK or the NACK
  that was to answer that request, it is the same NACK; made from a result or an event it
  names the call or the publication behind it.
\<close>

theorem NewNack_origin:
  assumes "struct_Type m = Some (msg_Type m)" and "IsRead (msg_Type m)"
  shows "NewNack u (Ack (NewAck v m)) code e = NewNack u m code e
    \<and> NewNack u (Nack (NewNack v m code' e')) code e = NewNack u m code e
    \<and> nack_For (NewNack u m code e) = msg_UUID m
    \<and> nack_ForType (NewNack u m code e) = msg_Type m
    \<and> nack_For (NewNack u (Res (NewRes v rp)) code e) = rp_MsgUUID rp
    \<and> nack_ForType (NewNack u (Res (NewRes v rp)) code e) = CallMsg
    \<and> nack_For (NewNack u (Evnt (NewEvnt v ep)) code e) = ep_MsgUUID ep
    \<and> nack_ForType (NewNack u (Evnt (NewEvnt v ep)) code e) = PubMsg"
  using assms
  by (cases m) (auto simp: NewNack_def NewAck_def NewRes_def NewEvnt_def IsRead_def msg_type_defs)

theorem NewNack_origin_witness:
  "nack_URI (NewNack ''u'' (Ack (NewAck ''v'' (Call example_call))) 500 ErrCallExpired) = ''test.echo''"
proof -
  have h: "struct_Type (Call example_call) = Some (msg_Type (Call example_call))"
    and r: "IsRead (msg_Type (Call example_call))"
    by (simp_all add: msg_Type_def example_call_def NewMeta_def IsRead_def msg_type_defs)
  have "NewNack ''u'' (Ack (NewAck ''v'' (Call example_call))) 500 ErrCallExpired
      = NewNack ''u'' (Call example_call) 500 ErrCallExpired"
    using NewNack_origin [OF h r] by blast
  then show ?thesis by (simp add: NewNack_def example_call_def)
qed

end
