(* ===== verification/Payload.thy ===== *)
theory Payload
  imports Message
begin

text \<open>
  The JSON form of the payloads of \<^verbatim>\<open>message/payload.go\<close>: the struct tags of
  \<^verbatim>\<open>CallPayload\<close>, \<^verbatim>\<open>ResPayload\<close> and \<^verbatim>\<open>PubPayload\<close>, which the brokers
  store in redis and read back. \<open>TTLAfterRead\<close> and \<open>ReadTimestamp\<close> are not encoded. The
  arguments are omitted when nil, so that encoding a payload does not fail.
\<close>

section \<open>Encoding\<close>

definition encode_callPayload :: "codec \<Rightarrow> callPayload \<Rightarrow> json" where
  "encode_callPayload C cp =
     JObj ([(''conn_uuid'', uuid_MarshalJSON C (cp_ConnUUID cp)),
            (''msg_uuid'', uuid_MarshalJSON C (cp_MsgUUID cp)),
            (''uri'', encode_string (cp_URI cp))]
           @ omitempty_raw ''args'' (cp_Args cp))"

definition encode_resPayload :: "codec \<Rightarrow> resPayload \<Rightarrow> json" where
  "encode_resPayload C rp =
     JObj ([(''conn_uuid'', uuid_MarshalJSON C (rp_ConnUUID rp)),
            (''msg_uuid'', uuid_MarshalJSON C (rp_MsgUUID rp)),
            (''uri'', encode_string (rp_URI rp))]
           @ omitempty_raw ''args'' (rp_Args rp))"

definition encode_pubPayload :: "codec \<Rightarrow> pubPayload \<Rightarrow> json" where
  "encode_pubPayload C pp =
     JObj ([(''msg_uuid'', uuid_MarshalJSON C (pp_MsgUUID pp))]
           @ omitempty_raw ''args'' (pp_Args pp))"

section \<open>Decoding into the zero value\<close>

definition callPayload_fields :: "codec \<Rightarrow> callPayload field list" where
  "callPayload_fields C =
     [field ''conn_uuid'' cp_ConnUUID cp_ConnUUID_update (uuid_UnmarshalJSON C),
      field ''msg_uuid'' cp_MsgUUID cp_MsgUUID_update (uuid_UnmarshalJSON C),
      field ''uri'' cp_URI cp_URI_update decode_string,
      field ''args'' cp_Args cp_Args_update decode_raw]"

definition zero_callPayload :: callPayload where
  "zero_callPayload =
     \<lparr>cp_ConnUUID = [], cp_MsgUUID = [], cp_URI = '''', cp_Args = None,
      cp_TTLAfterRead = 0, cp_ReadTimestamp = 0\<rparr>"

definition decode_callPayload :: "codec \<Rightarrow> json \<Rightarrow> callPayload option" where
  "decode_callPayload C j = decode_struct (callPayload_fields C) j zero_callPayload"

definition resPayload_fields :: "codec \<Rightarrow> resPayload field list" where
  "resPayload_fields C =
     [field ''conn_uuid'' rp_ConnUUID rp_ConnUUID_update (uuid_UnmarshalJSON C),
      field ''msg_uuid'' rp_MsgUUID rp_MsgUUID_update (uuid_UnmarshalJSON C),
      field ''uri'' rp_URI rp_URI_update decode_string,
      field ''args'' rp_Args rp_Args_update decode_raw]"

definition zero_resPayload :: resPayload where
  "zero_resPayload = \<lparr>rp_ConnUUID = [], rp_MsgUUID = [], rp_URI = '''', rp_Args = None\<rparr>"

definition decode_resPayload :: "codec \<Rightarrow> json \<Rightarrow> resPayload option" where
  "decode_resPayload C j = decode_struct (resPayload_fields C) j zero_resPayload"

definition pubPayload_fields :: "codec \<Rightarrow> pubPayload field list" where
  "pubPayload_fields C =
     [field ''msg_uuid'' pp_MsgUUID pp_MsgUUID_update (uuid_UnmarshalJSON C),
      field ''args'' pp_Args pp_Args_update decode_raw]"

definition decode_pubPayload :: "codec \<Rightarrow> json \<Rightarrow> pubPayload option" where
  "decode_pubPayload C j = decode_struct (pubPayload_fields C) j \<lparr>pp_MsgUUID = [], pp_Args = None\<rparr>"

section \<open>Round trips\<close>

definition wf_callPayload :: "callPayload \<Rightarrow> bool" where
  "wf_callPayload cp \<longleftrightarrow>
     wf_uuid (cp_ConnUUID cp) \<and> wf_uuid (cp_MsgUUID cp) \<and> valid_utf8 (cp_URI cp)"

definition wf_resPayload :: "resPayload \<Rightarrow> bool" where
  "wf_resPayload rp \<longleftrightarrow>
     wf_uuid (rp_ConnUUID rp) \<and> wf_uuid (rp_MsgUUID rp) \<and> valid_utf8 (rp_URI rp)"

text \<open>What is left of a call payload in redis: all but the two fields set on reading.\<close>

definition stored_call :: "callPayload \<Rightarrow> callPayload" where
  "stored_call cp = cp\<lparr>cp_TTLAfterRead := 0, cp_ReadTimestamp := 0\<rparr>"

lemma decode_callPayload_encode:
  "uuid_roundtrips C \<Longrightarrow> wf_callPayload cp
   \<Longrightarrow> decode_callPayload C (encode_callPayload C cp) = Some (stored_call cp)"
  by (cases cp; cases "cp_Args cp")
    (simp_all add: codec_simps decode_callPayload_def encode_callPayload_def callPayload_fields_def
      zero_callPayload_def omitempty_raw_def wf_callPayload_def stored_call_def)

lemma decode_resPayload_encode:
  "uuid_roundtrips C \<Longrightarrow> wf_resPayload rp
   \<Longrightarrow> decode_resPayload C (encode_resPayload C rp) = Some rp"
  by (cases rp; cases "rp_Args rp")
    (simp_all add: codec_simps decode_resPayload_def encode_resPayload_def resPayload_fields_def
      zero_resPayload_def omitempty_raw_def wf_resPayload_def)

lemma decode_pubPayload_encode:
  "uuid_roundtrips C \<Longrightarrow> wf_uuid (pp_MsgUUID pp)
   \<Longrightarrow> decode_pubPayload C (encode_pubPayload C pp) = Some pp"
  by (cases pp; cases "pp_Args pp")
    (simp_all add: codec_simps decode_pubPayload_def encode_pubPayload_def pubPayload_fields_def
      omitempty_raw_def)

end
