(* ===== verification/Wswriter.thy ===== *)
theory Wswriter
  imports Json_Codec
begin

text \<open>
  The package \<^verbatim>\<open>internal/wswriter\<close>: the limited writer and the exclusive writer of
  a websocket connection. \<^verbatim>\<open>github.com/gorilla/websocket\<close> is third-party code: its
  operations are the record \<open>websocket\<close>, over a connection of an opaque type \<open>'c\<close>.
  The write lock is a channel of capacity one that holds a token while it is free.
\<close>

section \<open>Writers\<close>

text \<open>An \<^verbatim>\<open>io.Writer\<close> over a state: a panic, or the number of bytes written and
  the error.\<close>

type_synonym 's writer = "string \<Rightarrow> 's \<Rightarrow> panic + (int \<times> err option) \<times> 's"

text \<open>\<^verbatim>\<open>limitedWriter\<close>: the underlying writer's state and the bytes left.\<close>

record 's limitedWriter =
  lw_w :: 's
  lw_n :: int

definition Limit :: "'s \<Rightarrow> int \<Rightarrow> 's limitedWriter" where
  "Limit w limit = \<lparr>lw_w = w, lw_n = limit\<rparr>"

definition limitedWriter_Write :: "'s writer \<Rightarrow> 's limitedWriter writer" where
  "limitedWriter_Write write p w =
     (let w = w\<lparr>lw_n := i64 (lw_n w - int (length p))\<rparr> in
      if lw_n w < 0 then Inr ((0, Some ErrWriteLimitExceeded), w)
      else case write p (lw_w w) of
             Inl e \<Rightarrow> Inl e
           | Inr (r, s) \<Rightarrow> Inr (r, w\<lparr>lw_w := s\<rparr>))"

section \<open>The websocket connection\<close>

text \<open>
  The operations of \<^verbatim>\<open>*websocket.Conn\<close> the writers call: \<^verbatim>\<open>NextWriter\<close> for a
  text message, \<^verbatim>\<open>Write\<close> and \<^verbatim>\<open>Close\<close> on the writer it returned, and
  \<^verbatim>\<open>SetWriteDeadline\<close> (with the timeout it is set to, \<open>None\<close> for the zero time).
\<close>

record 'c websocket =
  ws_NextWriter :: "'c \<Rightarrow> unit result \<times> 'c"
  ws_Write :: "string \<Rightarrow> 'c \<Rightarrow> (int \<times> err option) \<times> 'c"
  ws_Close :: "'c \<Rightarrow> err option \<times> 'c"
  ws_SetWriteDeadline :: "duration option \<Rightarrow> 'c \<Rightarrow> 'c"

text \<open>The connection and its lock channel, which the writers share.\<close>

record 'c locked =
  lk_tokens :: nat
  lk_conn :: 'c

section \<open>The exclusive writer\<close>

record exclusiveWriter =
  ew_w :: bool
  ew_init :: bool
  ew_lockTimeout :: duration
  ew_writeTimeout :: duration

definition Exclusive :: "duration \<Rightarrow> duration \<Rightarrow> exclusiveWriter" where
  "Exclusive acquireTimeout writeTimeout =
     \<lparr>ew_w = False, ew_init = False, ew_lockTimeout = acquireTimeout,
      ew_writeTimeout = writeTimeout\<rparr>"

text \<open>
  The outcome of the \<^verbatim>\<open>select\<close> of \<^verbatim>\<open>Write\<close> is an argument: \<open>acq\<close> when it
  receives from the lock channel, which takes a token, and not \<open>acq\<close> when it receives from
  the timer, which there is only with a positive timeout. \<open>can_Write\<close> says when that
  outcome is possible; while neither is, \<^verbatim>\<open>Write\<close> blocks.
\<close>

definition can_Write :: "bool \<Rightarrow> exclusiveWriter \<Rightarrow> 'c locked \<Rightarrow> bool" where
  "can_Write acq w s \<longleftrightarrow>
     ew_init w \<or> (if acq then 0 < lk_tokens s else 0 < ew_lockTimeout w)"

text \<open>\<^verbatim>\<open>return w.w.Write(p)\<close>, with the dereference of a nil writer as a panic.\<close>

definition inner_Write :: "'c websocket \<Rightarrow> (exclusiveWriter \<times> 'c locked) writer" where
  "inner_Write W p ws =
     (case ws of (w, s) \<Rightarrow>
        if \<not> ew_w w then Inl nil_dereference
        else case ws_Write W p (lk_conn s) of (r, c) \<Rightarrow> Inr (r, w, s\<lparr>lk_conn := c\<rparr>))"

definition exclusiveWriter_Write ::
  "'c websocket \<Rightarrow> bool \<Rightarrow> (exclusiveWriter \<times> 'c locked) writer" where
  "exclusiveWriter_Write W acq p ws =
     (case ws of (w, s) \<Rightarrow>
        if ew_init w then inner_Write W p (w, s)
        else if \<not> acq then Inr ((0, Some ErrWriteLockTimeout), w, s)
        else
          let w = w\<lparr>ew_init := True\<rparr>; s = s\<lparr>lk_tokens := lk_tokens s - 1\<rparr> in
          case ws_NextWriter W (lk_conn s) of
            (Inl e, c) \<Rightarrow> Inr ((0, Some e), w, s\<lparr>lk_conn := c\<rparr>)
          | (Inr _, c) \<Rightarrow>
              let w = w\<lparr>ew_w := True\<rparr>;
                  c = (if 0 < ew_writeTimeout w
                       then ws_SetWriteDeadline W (Some (ew_writeTimeout w)) c else c)
              in inner_Write W p (w, s\<lparr>lk_conn := c\<rparr>))"

text \<open>\<^verbatim>\<open>Close\<close>; the send that releases the lock needs room in the channel
  (\<open>can_Close\<close>).\<close>

definition can_Close :: "exclusiveWriter \<Rightarrow> 'c locked \<Rightarrow> bool" where
  "can_Close w s \<longleftrightarrow> \<not> ew_init w \<or> lk_tokens s = 0"

definition exclusiveWriter_Close ::
  "'c websocket \<Rightarrow> exclusiveWriter \<Rightarrow> 'c locked \<Rightarrow> err option \<times> 'c locked" where
  "exclusiveWriter_Close W w s =
     (if \<not> ew_init w then (None, s)
      else
        let (e, c) = (if ew_w w
                      then case ws_Close W (lk_conn s) of (e, c) \<Rightarrow> (e, ws_SetWriteDeadline W None c)
                      else (None, lk_conn s))
        in (e, s\<lparr>lk_conn := c, lk_tokens := lk_tokens s + 1\<rparr>))"

section \<open>Writing one message\<close>

text \<open>
  \<^verbatim>\<open>writeMsg\<close>, the same function in the server (\<^verbatim>\<open>handler.go\<close>) and in the client
  (\<^verbatim>\<open>client.go\<close>): an exclusive writer, wrapped in a limited one when there is a
  limit, the encoder's single \<^verbatim>\<open>Write\<close> of the text (\<open>None\<close> when the message
  cannot be encoded, which the encoder finds before it writes), and the deferred
  \<^verbatim>\<open>Close\<close>. The encoder returns the writer's error.
\<close>

definition encoder_Write ::
  "'c websocket \<Rightarrow> bool \<Rightarrow> int \<Rightarrow> (exclusiveWriter \<times> 'c locked) writer" where
  "encoder_Write W acq limit p ws =
     (if 0 < limit
      then case limitedWriter_Write (exclusiveWriter_Write W acq) p (Limit ws limit) of
             Inl e \<Rightarrow> Inl e
           | Inr (r, lw) \<Rightarrow> Inr (r, lw_w lw)
      else exclusiveWriter_Write W acq p ws)"

definition writeText ::
  "'c websocket \<Rightarrow> bool \<Rightarrow> duration \<Rightarrow> duration \<Rightarrow> int \<Rightarrow> string option \<Rightarrow> 'c locked
     \<Rightarrow> panic + err option \<times> 'c locked" where
  "writeText W acq lockTimeout writeTimeout limit text s =
     (case (case text of
              None \<Rightarrow> Inr ((0, Some ErrJSON), Exclusive lockTimeout writeTimeout, s)
            | Some p \<Rightarrow> encoder_Write W acq limit p (Exclusive lockTimeout writeTimeout, s)) of
        Inl e \<Rightarrow> Inl e
      | Inr ((n, e), w, s') \<Rightarrow> (case exclusiveWriter_Close W w s' of (_, s'') \<Rightarrow> Inr (e, s'')))"

section \<open>Several writers on one connection\<close>

text \<open>
  The writers in use (created and not closed yet), the connection they share, and, as an
  auxiliary record of what the connection saw, the operations on it with the writer that
  made them: a writer's \<^verbatim>\<open>NextWriter\<close> that succeeded or failed, its writes and the
  \<^verbatim>\<open>Close\<close> of the message. A writer is used as \<^verbatim>\<open>Conn.Writer\<close> asks: any
  number of writes, then one \<^verbatim>\<open>Close\<close>.
\<close>

datatype wsop = OpNext | OpNextFail | OpWrite | OpClose

record 'c wsys =
  sys_lk :: "'c locked"
  sys_ew :: "nat \<Rightarrow> exclusiveWriter option"
  sys_log :: "(nat \<times> wsop) list"

definition write_ops :: "exclusiveWriter \<Rightarrow> exclusiveWriter \<Rightarrow> wsop list" where
  "write_ops w w' =
     (if ew_init w then [OpWrite]
      else if \<not> ew_init w' then []
      else if ew_w w' then [OpNext, OpWrite] else [OpNextFail])"

definition close_ops :: "exclusiveWriter \<Rightarrow> wsop list" where
  "close_ops w = (if ew_init w \<and> ew_w w then [OpClose] else [])"

inductive wstep :: "'c websocket \<Rightarrow> 'c wsys \<Rightarrow> 'c wsys \<Rightarrow> bool" for W where
  step_Exclusive:
    "sys_ew s i = None \<Longrightarrow>
     wstep W s (s\<lparr>sys_ew := (sys_ew s)(i \<mapsto> Exclusive acquireTimeout writeTimeout)\<rparr>)"
| step_Write:
    "sys_ew s i = Some w \<Longrightarrow> can_Write acq w (sys_lk s) \<Longrightarrow>
     exclusiveWriter_Write W acq p (w, sys_lk s) = Inr (r, w', lk') \<Longrightarrow>
     wstep W s (s\<lparr>sys_lk := lk', sys_ew := (sys_ew s)(i \<mapsto> w'),
                  sys_log := sys_log s @ map (Pair i) (write_ops w w')\<rparr>)"
| step_Close:
    "sys_ew s i = Some w \<Longrightarrow> can_Close w (sys_lk s) \<Longrightarrow>
     exclusiveWriter_Close W w (sys_lk s) = (e, lk') \<Longrightarrow>
     wstep W s (s\<lparr>sys_lk := lk', sys_ew := (sys_ew s)(i := None),
                  sys_log := sys_log s @ map (Pair i) (close_ops w)\<rparr>)"

inductive wreach :: "'c websocket \<Rightarrow> 'c \<Rightarrow> 'c wsys \<Rightarrow> bool" for W c where
  wreach_init: "wreach W c \<lparr>sys_lk = \<lparr>lk_tokens = 1, lk_conn = c\<rparr>, sys_ew = (\<lambda>_. None), sys_log = []\<rparr>"
| wreach_step: "wreach W c s \<Longrightarrow> wstep W s t \<Longrightarrow> wreach W c t"

text \<open>
  Whether a log is a sequence of messages that do not overlap: \<open>open_after\<close> is the writer
  whose message is open after the log, and \<open>None\<close> for a log in which two overlap or a
  write falls outside of a message.
\<close>

fun log_op :: "nat option \<Rightarrow> nat \<times> wsop \<Rightarrow> nat option option" where
  "log_op cur (i, OpNext) = (if cur = None then Some (Some i) else None)"
| "log_op cur (i, OpNextFail) = (if cur = None then Some None else None)"
| "log_op cur (i, OpWrite) = (if cur = Some i then Some cur else None)"
| "log_op cur (i, OpClose) = (if cur = Some i then Some None else None)"

fun open_after :: "nat option \<Rightarrow> (nat \<times> wsop) list \<Rightarrow> nat option option" where
  "open_after cur [] = Some cur"
| "open_after cur (x # xs) = (case log_op cur x of None \<Rightarrow> None | Some cur' \<Rightarrow> open_after cur' xs)"

definition holds :: "'c wsys \<Rightarrow> nat \<Rightarrow> bool" where
  "holds s i \<longleftrightarrow> (\<exists>w. sys_ew s i = Some w \<and> ew_init w)"

definition writing :: "'c wsys \<Rightarrow> nat \<Rightarrow> bool" where
  "writing s i \<longleftrightarrow> (\<exists>w. sys_ew s i = Some w \<and> ew_w w)"

definition wsys_inv :: "'c wsys \<Rightarrow> bool" where
  "wsys_inv s \<longleftrightarrow>
     (\<forall>i w. sys_ew s i = Some w \<longrightarrow> ew_w w \<longrightarrow> ew_init w)
     \<and> (\<forall>i j. holds s i \<longrightarrow> holds s j \<longrightarrow> i = j)
     \<and> lk_tokens (sys_lk s) = (if \<exists>i. holds s i then 0 else 1)
     \<and> (\<exists>cur. open_after None (sys_log s) = Some cur \<and> (\<forall>i. cur = Some i \<longleftrightarrow> writing s i))"

section \<open>Lemmas\<close>

lemma open_after_append:
  "open_after cur (xs @ ys) =
     (case open_after cur xs of None \<Rightarrow> None | Some cur' \<Rightarrow> open_after cur' ys)"
  by (induction xs arbitrary: cur) (auto split: option.splits)

lemma inner_Write_Inr:
  assumes "inner_Write W p (w, s) = Inr (r, w', s')"
  shows "ew_w w \<and> w' = w \<and> lk_tokens s' = lk_tokens s"
  using assms by (auto simp: inner_Write_def split: if_splits prod.splits)

lemma Write_init:
  assumes "exclusiveWriter_Write W acq p (w, s) = Inr (r, w', s')" and "ew_init w"
  shows "ew_w w \<and> w' = w \<and> lk_tokens s' = lk_tokens s"
  using assms by (auto simp: exclusiveWriter_Write_def dest: inner_Write_Inr)

lemma Write_timeout:
  assumes "exclusiveWriter_Write W acq p (w, s) = Inr (r, w', s')" and "\<not> ew_init w" and "\<not> acq"
  shows "w' = w \<and> s' = s \<and> r = (0, Some ErrWriteLockTimeout)"
  using assms by (auto simp: exclusiveWriter_Write_def)

lemma Write_acquire:
  assumes "exclusiveWriter_Write W acq p (w, s) = Inr (r, w', s')" and "\<not> ew_init w" and "acq"
  shows "ew_init w' \<and> lk_tokens s' = lk_tokens s - 1"
  using assms
  by (auto simp: exclusiveWriter_Write_def Let_def split: prod.splits sum.splits if_splits
      dest!: inner_Write_Inr)

lemma Close_tokens:
  assumes "exclusiveWriter_Close W w s = (e, s')"
  shows "lk_tokens s' = (if ew_init w then lk_tokens s + 1 else lk_tokens s)"
  using assms by (auto simp: exclusiveWriter_Close_def Let_def split: if_splits prod.splits)

lemma wsys_invI:
  assumes "\<And>i w. sys_ew s i = Some w \<Longrightarrow> ew_w w \<Longrightarrow> ew_init w"
    and "\<And>i j. holds s i \<Longrightarrow> holds s j \<Longrightarrow> i = j"
    and "lk_tokens (sys_lk s) = (if \<exists>i. holds s i then 0 else 1)"
    and "open_after None (sys_log s) = Some cur" and "\<And>i. cur = Some i \<longleftrightarrow> writing s i"
  shows "wsys_inv s"
  using assms unfolding wsys_inv_def by blast

lemma step_Exclusive_inv:
  assumes inv: "wsys_inv s" and i: "sys_ew s i = None"
  shows "wsys_inv (s\<lparr>sys_ew := (sys_ew s)(i \<mapsto> Exclusive a b)\<rparr>)" (is "wsys_inv ?t")
proof -
  have new: "\<not> ew_init (Exclusive a b)" "\<not> ew_w (Exclusive a b)"
    by (simp_all add: Exclusive_def)
  then have h: "holds ?t j \<longleftrightarrow> holds s j" and w: "writing ?t j \<longleftrightarrow> writing s j" for j
    using i by (auto simp: holds_def writing_def)
  show ?thesis
    using inv new unfolding wsys_inv_def h w by (auto split: if_splits)
qed

lemma step_Write_inv:
  assumes inv: "wsys_inv s" and i: "sys_ew s i = Some w" and can: "can_Write acq w (sys_lk s)"
    and wrote: "exclusiveWriter_Write W acq p (w, sys_lk s) = Inr (r, w', lk')"
  shows "wsys_inv (s\<lparr>sys_lk := lk', sys_ew := (sys_ew s)(i \<mapsto> w'),
    sys_log := sys_log s @ map (Pair i) (write_ops w w')\<rparr>)" (is "wsys_inv ?t")
proof -
  from inv obtain cur where log: "open_after None (sys_log s) = Some cur"
    and cur: "\<And>j. cur = Some j \<longleftrightarrow> writing s j"
    and wi: "\<And>j v. sys_ew s j = Some v \<Longrightarrow> ew_w v \<Longrightarrow> ew_init v"
    and one: "\<And>j k. holds s j \<Longrightarrow> holds s k \<Longrightarrow> j = k"
    and tok: "lk_tokens (sys_lk s) = (if \<exists>j. holds s j then 0 else 1)"
    unfolding wsys_inv_def by blast
  consider (init) "ew_init w" | (timeout) "\<not> ew_init w" "\<not> acq" | (acquire) "\<not> ew_init w" "acq"
    by blast
  then show ?thesis
  proof cases
    case init
    with Write_init [OF wrote] have w: "ew_w w" "w' = w" "lk_tokens lk' = lk_tokens (sys_lk s)"
      by auto
    then have "writing s i" using i by (auto simp: writing_def)
    then have "cur = Some i" by (simp add: cur)
    moreover have "holds ?t = holds s" "writing ?t = writing s"
      using i w by (auto simp: holds_def writing_def fun_eq_iff)
    ultimately show ?thesis
      using w init i wi one tok log cur
      by (intro wsys_invI [of _ cur]) (auto simp: open_after_append write_ops_def split: if_splits)
  next
    case timeout
    with Write_timeout [OF wrote] have "w' = w" "lk' = sys_lk s" by auto
    with timeout i have "?t = s" by (auto simp: write_ops_def fun_upd_idem)
    with inv show ?thesis by simp
  next
    case acquire
    with Write_acquire [OF wrote] have w: "ew_init w'" "lk_tokens lk' = lk_tokens (sys_lk s) - 1"
      by auto
    from can acquire tok have none: "\<not> holds s j" for j
      by (auto simp: can_Write_def split: if_splits)
    then have "\<not> writing s j" for j
      using wi by (auto simp: holds_def writing_def)
    with cur have "cur = None" by (cases cur) auto
    moreover have "holds ?t j \<longleftrightarrow> j = i" "writing ?t j \<longleftrightarrow> j = i \<and> ew_w w'" for j
      using none \<open>\<And>j. \<not> writing s j\<close> w by (auto simp: holds_def writing_def)
    ultimately show ?thesis
      using w acquire i wi none tok log
      by (intro wsys_invI [of _ "if ew_w w' then Some i else None"])
        (auto simp: open_after_append write_ops_def split: if_splits)
  qed
qed

lemma step_Close_inv:
  assumes inv: "wsys_inv s" and i: "sys_ew s i = Some w" and can: "can_Close w (sys_lk s)"
    and close: "exclusiveWriter_Close W w (sys_lk s) = (e, lk')"
  shows "wsys_inv (s\<lparr>sys_lk := lk', sys_ew := (sys_ew s)(i := None),
    sys_log := sys_log s @ map (Pair i) (close_ops w)\<rparr>)" (is "wsys_inv ?t")
proof -
  from inv obtain cur where log: "open_after None (sys_log s) = Some cur"
    and cur: "\<And>j. cur = Some j \<longleftrightarrow> writing s j"
    and wi: "\<And>j v. sys_ew s j = Some v \<Longrightarrow> ew_w v \<Longrightarrow> ew_init v"
    and one: "\<And>j k. holds s j \<Longrightarrow> holds s k \<Longrightarrow> j = k"
    and tok: "lk_tokens (sys_lk s) = (if \<exists>j. holds s j then 0 else 1)"
    unfolding wsys_inv_def by blast
  have h: "holds ?t j \<longleftrightarrow> holds s j \<and> j \<noteq> i" and wr: "writing ?t j \<longleftrightarrow> writing s j \<and> j \<noteq> i" for j
    by (auto simp: holds_def writing_def)
  show ?thesis
  proof (cases "ew_init w")
    case True
    then have hi: "holds s i" using i by (auto simp: holds_def)
    have "holds s j \<Longrightarrow> j = i" "writing s j \<Longrightarrow> j = i" for j
      using one [OF hi] wi by (auto simp: holds_def writing_def)
    then have "\<And>j. \<not> holds ?t j" "\<And>j. \<not> writing ?t j" using h wr by blast+
    moreover have "writing s i \<longleftrightarrow> ew_w w" using i by (auto simp: writing_def)
    then have "cur = (if ew_w w then Some i else None)"
      using cur \<open>\<And>j. writing s j \<Longrightarrow> j = i\<close> by (metis option.exhaust)
    ultimately show ?thesis
      using True Close_tokens [OF close] tok hi wi log
      by (intro wsys_invI [of _ None]) (auto simp: open_after_append close_ops_def split: if_splits)
  next
    case False
    then have "\<not> holds s i" "\<not> writing s i" using i wi by (auto simp: holds_def writing_def)
    then have "holds ?t j \<longleftrightarrow> holds s j" "writing ?t j \<longleftrightarrow> writing s j" for j
      using h wr by blast+
    then show ?thesis
      using False Close_tokens [OF close] tok one wi log cur
      by (intro wsys_invI [of _ cur]) (auto simp: close_ops_def split: if_splits)
  qed
qed

lemma wstep_inv: "wstep W s t \<Longrightarrow> wsys_inv s \<Longrightarrow> wsys_inv t"
  by (induction rule: wstep.induct)
    (blast intro: step_Exclusive_inv step_Write_inv step_Close_inv)+

lemma wreach_inv: "wreach W c s \<Longrightarrow> wsys_inv s"
proof (induction rule: wreach.induct)
  case wreach_init
  show ?case by (simp add: wsys_inv_def holds_def writing_def)
next
  case (wreach_step s t)
  then show ?case by (blast intro: wstep_inv)
qed

section \<open>The limited writer\<close>

text \<open>A sequence of writes to a limited writer; \<open>forwarded\<close> is what reached the underlying
  writer, which here accepts everything.\<close>

definition record_Write :: "string list writer" where
  "record_Write p ps = Inr ((int (length p), None), ps @ [p])"

fun limited_run :: "string list \<Rightarrow> string list limitedWriter \<Rightarrow> string list limitedWriter" where
  "limited_run [] w = w"
| "limited_run (p # ps) w =
     (case limitedWriter_Write record_Write p w of
        Inl e \<Rightarrow> w
      | Inr (r, w') \<Rightarrow> limited_run ps w')"

definition size_of :: "string list \<Rightarrow> int" where
  "size_of ps = int (length (concat ps))"

lemma size_of_simps [simp]:
  "size_of [] = 0" "size_of (p # ps) = int (length p) + size_of ps"
  "size_of (ps @ qs) = size_of ps + size_of qs"
  by (simp_all add: size_of_def)

lemma size_of_nonneg [simp]: "0 \<le> size_of ps"
  by (simp add: size_of_def)

text \<open>The specification: the writes are forwarded until the first that does not fit.\<close>

fun fitting :: "int \<Rightarrow> string list \<Rightarrow> string list" where
  "fitting n [] = []"
| "fitting n (p # ps) = (if int (length p) \<le> n then p # fitting (n - int (length p)) ps else [])"

lemma size_of_fitting: "0 \<le> n \<Longrightarrow> size_of (fitting n ps) \<le> n"
proof (induction ps arbitrary: n)
  case (Cons p ps)
  then have "int (length p) \<le> n \<Longrightarrow> size_of (fitting (n - int (length p)) ps) \<le> n - int (length p)"
    by simp
  with Cons.prems show ?case by auto
qed simp

lemma limited_run_exhausted:
  assumes "lw_n w < 0" and "size_of ps - 2 ^ 63 \<le> lw_n w"
  shows "lw_w (limited_run ps w) = lw_w w"
  using assms
proof (induction ps arbitrary: w)
  case (Cons p ps)
  have "in_i64 (lw_n w - int (length p))"
    using Cons.prems size_of_nonneg [of ps] unfolding in_i64_def size_of_simps by linarith
  with Cons show ?case by (simp add: limitedWriter_Write_def Let_def)
qed simp

lemma limited_run_fits:
  assumes "0 \<le> lw_n w" and "lw_n w < 2 ^ 63" and "size_of ps - 2 ^ 63 \<le> lw_n w"
  shows "lw_w (limited_run ps w) = lw_w w @ fitting (lw_n w) ps"
  using assms
proof (induction ps arbitrary: w)
  case (Cons p ps)
  have i: "in_i64 (lw_n w - int (length p))"
    using Cons.prems size_of_nonneg [of ps] unfolding in_i64_def size_of_simps by linarith
  show ?case
  proof (cases "int (length p) \<le> lw_n w")
    case True
    with i Cons show ?thesis
      by (simp add: limitedWriter_Write_def record_Write_def Let_def)
  next
    case False
    with i Cons.prems show ?thesis
      by (simp add: limitedWriter_Write_def Let_def limited_run_exhausted)
  qed
qed simp

section \<open>One message\<close>

lemma inner_Write_total: "ew_w w \<Longrightarrow> \<exists>r s'. inner_Write W p (w, s) = Inr (r, w, s')"
  by (simp add: inner_Write_def split: prod.splits)

lemma fresh_Write_total:
  "\<exists>r w' s'. exclusiveWriter_Write W acq p (Exclusive a b, s) = Inr (r, w', s')"
  by (auto simp: exclusiveWriter_Write_def Exclusive_def Let_def inner_Write_def
      split: prod.splits sum.splits)

lemma fresh_Write_tokens:
  assumes "exclusiveWriter_Write W acq p (Exclusive a b, s) = Inr (r, w', s')"
    and "acq \<Longrightarrow> 0 < lk_tokens s"
  shows "lk_tokens (snd (exclusiveWriter_Close W w' s')) = lk_tokens s"
proof (cases acq)
  case True
  then have "ew_init w'" "lk_tokens s' = lk_tokens s - 1"
    using Write_acquire [OF assms(1)] by (simp_all add: Exclusive_def)
  moreover obtain e s'' where c: "exclusiveWriter_Close W w' s' = (e, s'')" by fastforce
  ultimately show ?thesis using True assms(2) Close_tokens [OF c] by simp
next
  case False
  then have "w' = Exclusive a b" "s' = s"
    using Write_timeout [OF assms(1)] by (simp_all add: Exclusive_def)
  then show ?thesis by (simp add: exclusiveWriter_Close_def Exclusive_def)
qed

lemma Close_fresh [simp]: "exclusiveWriter_Close W (Exclusive a b) s = (None, s)"
  by (simp add: exclusiveWriter_Close_def Exclusive_def)

lemma writeText_encode_error [simp]: "writeText W acq a b limit None s = Inr (Some ErrJSON, s)"
  by (simp add: writeText_def)

lemma writeText_limit:
  assumes "0 < limit" and "limit < int (length p)" and "in_i64 (limit - int (length p))"
  shows "writeText W acq a b limit (Some p) s = Inr (Some ErrWriteLimitExceeded, s)"
  using assms by (simp add: writeText_def encoder_Write_def limitedWriter_Write_def Limit_def Let_def)

lemma writeText_within:
  assumes "limit \<le> 0 \<or> int (length p) \<le> limit" and "in_i64 limit"
  shows "writeText W acq a b limit (Some p) s =
    (case exclusiveWriter_Write W acq p (Exclusive a b, s) of
       Inl e \<Rightarrow> Inl e
     | Inr ((n, e), w, s') \<Rightarrow> Inr (e, snd (exclusiveWriter_Close W w s')))"
proof -
  have "0 < limit \<Longrightarrow> in_i64 (limit - int (length p))"
    using assms by (auto simp: in_i64_def)
  with assms show ?thesis
    by (auto simp: writeText_def encoder_Write_def limitedWriter_Write_def Limit_def Let_def
        split: sum.splits prod.splits)
qed

lemma writeText_timeout:
  assumes "limit \<le> 0 \<or> int (length p) \<le> limit" and "in_i64 limit"
  shows "writeText W False a b limit (Some p) s = Inr (Some ErrWriteLockTimeout, s)"
  using assms by (simp add: writeText_within exclusiveWriter_Write_def Exclusive_def [of a b]
      exclusiveWriter_Close_def)

lemma writeText_total: "\<exists>e s'. writeText W acq a b limit t s = Inr (e, s')"
proof (cases t)
  case (Some p)
  obtain n e w s' where "exclusiveWriter_Write W acq p (Exclusive a b, s) = Inr ((n, e), w, s')"
    using fresh_Write_total [of W acq p a b s] by fastforce
  then have "\<exists>r w s'. encoder_Write W acq limit p (Exclusive a b, s) = Inr (r, w, s')"
    by (simp add: encoder_Write_def limitedWriter_Write_def Limit_def Let_def)
  then show ?thesis using Some by (fastforce simp: writeText_def split: prod.splits)
qed (simp add: writeText_def)

section \<open>Properties\<close>

text \<open>
  C6. One writer at a time: however the writers of a connection interleave, at most one holds
  the write lock, a token is in the channel exactly when none does, and the operations that
  reached the websocket form whole messages, one after the other: no message of a writer
  starts, and no bytes of it are written, while the message of another is open.
\<close>

theorem exclusive_writers:
  assumes "wreach W c s"
  shows "(\<forall>i j. holds s i \<and> holds s j \<longrightarrow> i = j)
    \<and> lk_tokens (sys_lk s) = (if \<exists>i. holds s i then 0 else 1)
    \<and> (\<exists>cur. open_after None (sys_log s) = Some cur \<and> (\<forall>i. cur = Some i \<longleftrightarrow> writing s i))"
  using wreach_inv [OF assms] unfolding wsys_inv_def by blast

text \<open>A concrete websocket that keeps the messages written; the witnesses use it.\<close>

definition example_websocket :: "string list websocket" where
  "example_websocket =
     \<lparr>ws_NextWriter = (\<lambda>c. (Inr (), c @ [[]])),
      ws_Write = (\<lambda>p c. ((int (length p), None), butlast c @ [last c @ p])),
      ws_Close = (\<lambda>c. (None, c)),
      ws_SetWriteDeadline = (\<lambda>_ c. c)\<rparr>"

theorem exclusive_writers_witness:
  "\<exists>s. wreach example_websocket [] s \<and> holds s 0 \<and> sys_ew s 1 \<noteq> None
     \<and> lk_tokens (sys_lk s) = 0 \<and> open_after None (sys_log s) = Some (Some 0)"
proof -
  let ?s0 = "\<lparr>sys_lk = \<lparr>lk_tokens = 1, lk_conn = []\<rparr>, sys_ew = (\<lambda>_. None), sys_log = []\<rparr>
    :: string list wsys"
  let ?s1 = "?s0\<lparr>sys_ew := (sys_ew ?s0)(0 \<mapsto> Exclusive 0 0)\<rparr>"
  let ?s2 = "?s1\<lparr>sys_ew := (sys_ew ?s1)(1 \<mapsto> Exclusive 0 0)\<rparr>"
  let ?w = "(Exclusive 0 0)\<lparr>ew_init := True, ew_w := True\<rparr>"
  let ?s3 = "?s2\<lparr>sys_lk := \<lparr>lk_tokens = 0, lk_conn = [''a'']\<rparr>, sys_ew := (sys_ew ?s2)(0 \<mapsto> ?w),
    sys_log := sys_log ?s2 @ map (Pair 0) (write_ops (Exclusive 0 0) ?w)\<rparr>"
  have "wreach example_websocket [] ?s1"
    by (rule wreach_step [OF wreach_init step_Exclusive]) simp
  then have "wreach example_websocket [] ?s2"
    by (rule wreach_step [OF _ step_Exclusive]) simp
  then have r: "wreach example_websocket [] ?s3"
  proof (rule wreach_step)
    show "wstep example_websocket ?s2 ?s3"
      by (rule step_Write [where acq = True and p = "''a''" and r = "(1, None)"])
        (simp_all add: can_Write_def exclusiveWriter_Write_def inner_Write_def Exclusive_def
          example_websocket_def)
  qed
  have "holds ?s3 0" by (simp add: holds_def)
  moreover have "open_after None (sys_log ?s3) = Some (Some 0)"
    by (simp add: write_ops_def Exclusive_def)
  moreover have "lk_tokens (sys_lk ?s3) = 0"
    using exclusive_writers [OF r] \<open>holds ?s3 0\<close> by auto
  ultimately show ?thesis using r by (intro exI [of _ ?s3]) simp
qed

text \<open>
  C7. Writing a message never panics and gives the lock back on every path: when it can take
  the lock (or times out waiting for it) it returns, with as many tokens in the channel as
  before; a message that cannot be encoded or exceeds the limit, and a timeout, leave the
  connection untouched and are reported as such.
\<close>

theorem writeText_returns_lock:
  assumes "acq \<Longrightarrow> 0 < lk_tokens s" and "in_i64 limit"
    and "\<And>p. t = Some p \<Longrightarrow> length p < 2 ^ 62"
  shows "\<exists>e s'. writeText W acq lockTimeout writeTimeout limit t s = Inr (e, s')
    \<and> lk_tokens s' = lk_tokens s
    \<and> (case t of
         None \<Rightarrow> e = Some ErrJSON \<and> s' = s
       | Some p \<Rightarrow>
           if 0 < limit \<and> limit < int (length p) then e = Some ErrWriteLimitExceeded \<and> s' = s
           else \<not> acq \<longrightarrow> e = Some ErrWriteLockTimeout \<and> s' = s)"
proof (cases t)
  case None
  then show ?thesis by simp
next
  case (Some p)
  show ?thesis
  proof (cases "0 < limit \<and> limit < int (length p)")
    case True
    moreover have "in_i64 (limit - int (length p))"
      using True assms(2) assms(3) [OF Some] by (simp add: in_i64_def)
    ultimately show ?thesis using Some by (simp add: writeText_limit)
  next
    case False
    then have fits: "limit \<le> 0 \<or> int (length p) \<le> limit" by auto
    obtain n e w s' where wr:
      "exclusiveWriter_Write W acq p (Exclusive lockTimeout writeTimeout, s) = Inr ((n, e), w, s')"
      using fresh_Write_total [of W acq p lockTimeout writeTimeout s] by fastforce
    then have "writeText W acq lockTimeout writeTimeout limit t s
        = Inr (e, snd (exclusiveWriter_Close W w s'))"
      using Some by (simp add: writeText_within [OF fits assms(2)])
    moreover have "\<not> acq \<Longrightarrow> e = Some ErrWriteLockTimeout \<and> snd (exclusiveWriter_Close W w s') = s"
      using Write_timeout [OF wr] by (simp add: Exclusive_def [of lockTimeout writeTimeout]
          exclusiveWriter_Close_def)
    ultimately show ?thesis
      using Some False fresh_Write_tokens [OF wr assms(1)] by auto
  qed
qed

theorem writeText_returns_lock_witness:
  "lk_tokens \<lparr>lk_tokens = 1, lk_conn = [] :: string list\<rparr> = 1
   \<and> (\<exists>e s'. writeText example_websocket True 0 0 10 (Some ''hello'')
        \<lparr>lk_tokens = 1, lk_conn = []\<rparr> = Inr (e, s') \<and> lk_tokens s' = 1)"
proof -
  let ?s = "\<lparr>lk_tokens = 1, lk_conn = [] :: string list\<rparr>"
  have "\<exists>e s'. writeText example_websocket True 0 0 10 (Some ''hello'') ?s = Inr (e, s')
      \<and> lk_tokens s' = lk_tokens ?s"
    using writeText_returns_lock [of True ?s 10 "Some ''hello''" example_websocket 0 0]
    by (fastforce simp: in_i64_def)
  then show ?thesis by simp
qed

text \<open>
  C10. The limited writer forwards exactly the writes before the first that does not fit in
  what is left of the limit, and so never more bytes than the limit; after a write that did
  not fit every later one fails too, however small.
\<close>

theorem limited_writer_forwards:
  assumes "0 \<le> limit" and "limit < 2 ^ 63" and "size_of ps \<le> 2 ^ 63"
  shows "lw_w (limited_run ps (Limit [] limit)) = fitting limit ps
    \<and> size_of (lw_w (limited_run ps (Limit [] limit))) \<le> limit"
  using limited_run_fits [of "Limit [] limit" ps] size_of_fitting [OF assms(1), of ps] assms
  by (simp add: Limit_def)

theorem limited_writer_forwards_witness:
  "lw_w (limited_run [''abc'', ''defg'', ''h''] (Limit [] 5)) = [''abc'']"
  using limited_writer_forwards [of 5 "[''abc'', ''defg'', ''h'']"] by simp

end
