(* ===== verification/Server_Handler.thy ===== *)
theory Server_Handler
  imports Payload Wswriter
begin

text \<open>
  The processing of messages on the server: \<^verbatim>\<open>handler.go\<close> and the part of
  \<^verbatim>\<open>conn.go\<close> it uses. A record \<open>Conn\<close> has the fields of \<^verbatim>\<open>Conn\<close> and, as the
  code reaches them through it, the state of the brokers, the metrics, and the log. The broker
  interfaces of \<^verbatim>\<open>broker/broker.go\<close> are the record \<open>brokers\<close>. A handler gets
  \<^verbatim>\<open>Conn.Send\<close> as an argument: sending a message calls the handler again, so
  \<open>Send\<close> takes fuel, of which the standard processing needs two units (a request and its
  reply). The random UUIDs, the outcomes of the waits for the write lock and the durations
  are drawn from the record \<open>draws\<close>, at a counter that each draw increments.
\<close>

section \<open>The interfaces\<close>

text \<open>\<^verbatim>\<open>CallerBroker\<close>, \<^verbatim>\<open>PubSubBroker\<close>, and the pub-sub and results connections
  of one \<^verbatim>\<open>Conn\<close>, over the state \<open>'b\<close> of the brokers.\<close>

record 'b brokers =
  bk_Call :: "callPayload \<Rightarrow> duration \<Rightarrow> 'b \<Rightarrow> err option \<times> 'b"
  bk_Publish :: "string \<Rightarrow> pubPayload \<Rightarrow> 'b \<Rightarrow> err option \<times> 'b"
  bk_NewResultsConn :: "uuid \<Rightarrow> 'b \<Rightarrow> err option \<times> 'b"
  bk_NewPubSubConn :: "'b \<Rightarrow> err option \<times> 'b"
  bk_Subscribe :: "string \<Rightarrow> bool \<Rightarrow> 'b \<Rightarrow> err option \<times> 'b"
  bk_Unsubscribe :: "string \<Rightarrow> bool \<Rightarrow> 'b \<Rightarrow> err option \<times> 'b"
  bk_ClosePubSub :: "'b \<Rightarrow> 'b"
  bk_CloseResults :: "'b \<Rightarrow> 'b"

record draws =
  dr_uuid :: "nat \<Rightarrow> uuid"
  dr_acquired :: "nat \<Rightarrow> bool"
  dr_duration :: "nat \<Rightarrow> duration"

text \<open>What the server code runs on: third-party code (UUIDs and JSON, the websocket), the
  brokers, the text of an encoded JSON value with the newline the encoder adds, the registry
  of message types, and the package variable \<^verbatim>\<open>SlowProcessMsgThreshold\<close>.\<close>

record ('c, 'b) platform =
  pf_codec :: codec
  pf_text :: "json \<Rightarrow> string"
  pf_ws :: "'c websocket"
  pf_brokers :: "'b brokers"
  pf_draws :: draws
  pf_registry :: registry
  pf_threshold :: duration

section \<open>Connections\<close>

datatype ConnState = Unknown | Accepting | Connected | Closed

record ('c, 'b) Conn =
  c_UUID :: uuid
  c_CloseErr :: "err option"
  c_closed :: bool
  c_allowedMsgs :: "msg_type list"
  c_lk :: "'c locked"
  c_psc :: bool
  c_resc :: bool
  c_brokers :: 'b
  c_Vars :: vars
  c_ticks :: nat
  c_log :: "string list"
  c_sent :: "msg list"

text \<open>
  \<open>c_closed\<close> is the state of \<^verbatim>\<open>closeOnce\<close> and of the \<^verbatim>\<open>kill\<close> channel;
  \<open>c_psc\<close> and \<open>c_resc\<close> say which broker connections are not nil; \<open>c_lk\<close> is \<^verbatim>\<open>wmu\<close>
  with the websocket connection. \<open>c_sent\<close> is auxiliary: the messages that were written.
\<close>

definition newConn :: "uuid \<Rightarrow> 'c \<Rightarrow> 'b \<Rightarrow> vars \<Rightarrow> msg_type list \<Rightarrow> ('c, 'b) Conn" where
  "newConn u ws b vars allowedMsgs =
     \<lparr>c_UUID = u, c_CloseErr = None, c_closed = False, c_allowedMsgs = allowedMsgs,
      c_lk = \<lparr>lk_tokens = 1, lk_conn = ws\<rparr>, c_psc = False, c_resc = False, c_brokers = b,
      c_Vars = vars, c_ticks = 0, c_log = [], c_sent = []\<rparr>"

definition Conn_Close :: "('c, 'b) platform \<Rightarrow> err option \<Rightarrow> ('c, 'b) Conn \<Rightarrow> ('c, 'b) Conn" where
  "Conn_Close P e c =
     (if c_closed c then c
      else
        let b = c_brokers c;
            b = (if c_psc c then bk_ClosePubSub (pf_brokers P) b else b);
            b = (if c_resc c then bk_CloseResults (pf_brokers P) b else b) in
        c\<lparr>c_CloseErr := e, c_brokers := b, c_closed := True\<rparr>)"

definition addVar :: "string \<Rightarrow> int \<Rightarrow> ('c, 'b) Conn \<Rightarrow> ('c, 'b) Conn" where
  "addVar k d c = c\<lparr>c_Vars := vars_add k d (c_Vars c)\<rparr>"

section \<open>Handlers\<close>

datatype 's outcome = Done 's | Panicked panic 's | OutOfFuel

fun map_state :: "('s \<Rightarrow> 's) \<Rightarrow> 's outcome \<Rightarrow> 's outcome" where
  "map_state f (Done s) = Done (f s)"
| "map_state f (Panicked p s) = Panicked p (f s)"
| "map_state f OutOfFuel = OutOfFuel"

fun and_then :: "'s outcome \<Rightarrow> ('s \<Rightarrow> 's outcome) \<Rightarrow> 's outcome" where
  "and_then (Done s) f = f s"
| "and_then (Panicked p s) f = Panicked p s"
| "and_then OutOfFuel f = OutOfFuel"

type_synonym 's sender = "msg \<Rightarrow> 's \<Rightarrow> 's outcome"

text \<open>\<^verbatim>\<open>Handler\<close>: the first argument is \<^verbatim>\<open>Conn.Send\<close>.\<close>

type_synonym 's handler = "'s sender \<Rightarrow> msg \<Rightarrow> 's \<Rightarrow> 's outcome"

record ('c, 'b) Server =
  srv_ReadLimit :: int
  srv_ReadTimeout :: duration
  srv_WriteLimit :: int
  srv_WriteTimeout :: duration
  srv_AcquireWriteLockTimeout :: duration
  srv_ConnState :: bool
  srv_Handler :: "('c, 'b) Conn handler option"

text \<open>The counters of a message, before it is processed.\<close>

definition saveMsgMetrics :: "registry \<Rightarrow> msg \<Rightarrow> ('c, 'b) Conn \<Rightarrow> ('c, 'b) Conn" where
  "saveMsgMetrics reg m c =
     (let t = msg_Type m;
          c = addVar ''Msgs'' 1 c;
          c = (if IsRead t then addVar ''MsgsRead'' 1 c else c);
          c = (if IsWrite t then addVar ''MsgsWrite'' 1 c else c) in
      if IsStd t then addVar (''Msgs'' @ Type_String reg t) 1 c else c)"

text \<open>The function it returns when the threshold is set, called when the processing is over.\<close>

definition slowMsgMetrics :: "('c, 'b) platform \<Rightarrow> msg \<Rightarrow> ('c, 'b) Conn \<Rightarrow> ('c, 'b) Conn" where
  "slowMsgMetrics P m c =
     (if pf_threshold P \<le> 0 then c
      else
        let dur = dr_duration (pf_draws P) (c_ticks c);
            c = c\<lparr>c_ticks := Suc (c_ticks c)\<rparr>;
            t = msg_Type m in
        if dur < pf_threshold P then c
        else
          let c = addVar ''SlowProcessMsg'' 1 c in
          if IsStd t then addVar (''SlowProcessMsg'' @ Type_String (pf_registry P) t) 1 c else c)"

definition writeMsg ::
  "('c, 'b) platform \<Rightarrow> ('c, 'b) Server \<Rightarrow> msg \<Rightarrow> ('c, 'b) Conn \<Rightarrow> panic + err option \<times> 'c locked" where
  "writeMsg P srv m c =
     writeText (pf_ws P) (dr_acquired (pf_draws P) (c_ticks c)) (srv_AcquireWriteLockTimeout srv)
       (srv_WriteTimeout srv) (srv_WriteLimit srv)
       (map_option (pf_text P) (encode_msg (pf_codec P) m)) (c_lk c)"

definition doWrite ::
  "('c, 'b) platform \<Rightarrow> ('c, 'b) Server \<Rightarrow> msg \<Rightarrow> ('c, 'b) Conn \<Rightarrow> ('c, 'b) Conn outcome" where
  "doWrite P srv m c =
     (let written = writeMsg P srv m c; c = c\<lparr>c_ticks := Suc (c_ticks c)\<rparr> in
      case written of
        Inl p \<Rightarrow> Panicked p c
      | Inr (None, lk) \<Rightarrow> Done (c\<lparr>c_lk := lk, c_sent := c_sent c @ [m]\<rparr>)
      | Inr (Some e, lk) \<Rightarrow>
          let c = c\<lparr>c_lk := lk\<rparr> in
          Done (case e of
             ErrWriteLockTimeout \<Rightarrow> Conn_Close P (Some e) (addVar ''WriteLockTimeouts'' 1 c)
           | ErrWriteLimitExceeded \<Rightarrow> Conn_Close P (Some e) (addVar ''WriteLimitExceeded'' 1 c)
           | _ \<Rightarrow> Conn_Close P (Some e) c))"

text \<open>
  A request whose broker operation has run: the reply carries a new UUID.
\<close>

definition reply ::
  "('c, 'b) platform \<Rightarrow> ('c, 'b) Conn sender \<Rightarrow> msg \<Rightarrow> err option \<times> 'b \<Rightarrow> ('c, 'b) Conn
     \<Rightarrow> ('c, 'b) Conn outcome" where
  "reply P send m r c =
     (case r of (e, b) \<Rightarrow>
        let u = dr_uuid (pf_draws P) (c_ticks c);
            c = c\<lparr>c_brokers := b, c_ticks := Suc (c_ticks c)\<rparr> in
        case e of
          Some e \<Rightarrow> send (Nack (NewNack u m 500 e)) c
        | None \<Rightarrow> send (Ack (NewAck u m)) c)"

fun ProcessMsg_body ::
  "('c, 'b) platform \<Rightarrow> ('c, 'b) Server \<Rightarrow> ('c, 'b) Conn handler" where
  "ProcessMsg_body P srv send (Call m) c =
     reply P send (Call m)
       (bk_Call (pf_brokers P)
          \<lparr>cp_ConnUUID = c_UUID c, cp_MsgUUID = msg_UUID (Call m), cp_URI = call_URI m,
           cp_Args = call_Args m, cp_TTLAfterRead = 0, cp_ReadTimestamp = 0\<rparr>
          (call_Timeout m) (c_brokers c)) c"
| "ProcessMsg_body P srv send (Pub m) c =
     reply P send (Pub m)
       (bk_Publish (pf_brokers P) (pub_Channel m)
          \<lparr>pp_MsgUUID = msg_UUID (Pub m), pp_Args = pub_Args m\<rparr> (c_brokers c)) c"
| "ProcessMsg_body P srv send (Sub m) c =
     (if \<not> c_psc c then Panicked nil_dereference c
      else reply P send (Sub m)
        (bk_Subscribe (pf_brokers P) (sub_Channel m) (sub_Pattern m) (c_brokers c)) c)"
| "ProcessMsg_body P srv send (Unsb m) c =
     (if \<not> c_psc c then Panicked nil_dereference c
      else reply P send (Unsb m)
        (bk_Unsubscribe (pf_brokers P) (sub_Channel m) (sub_Pattern m) (c_brokers c)) c)"
| "ProcessMsg_body P srv send (Ack m) c = doWrite P srv (Ack m) c"
| "ProcessMsg_body P srv send (Nack m) c = doWrite P srv (Nack m) c"
| "ProcessMsg_body P srv send (Evnt m) c = doWrite P srv (Evnt m) c"
| "ProcessMsg_body P srv send (Res m) c = doWrite P srv (Res m) c"
| "ProcessMsg_body P srv send (Other m) c = Done (addVar ''MsgsUnknown'' 1 c)"

definition ProcessMsg :: "('c, 'b) platform \<Rightarrow> ('c, 'b) Server \<Rightarrow> ('c, 'b) Conn handler" where
  "ProcessMsg P srv send m c =
     (if c_Vars c = None then ProcessMsg_body P srv send m c
      else map_state (slowMsgMetrics P m)
             (ProcessMsg_body P srv send m (saveMsgMetrics (pf_registry P) m c)))"

text \<open>\<^verbatim>\<open>Conn.Send\<close>; the read loop hands a request to the handler in the same way.\<close>

fun Send :: "('c, 'b) platform \<Rightarrow> ('c, 'b) Server \<Rightarrow> nat \<Rightarrow> ('c, 'b) Conn sender" where
  "Send P srv 0 m c = OutOfFuel"
| "Send P srv (Suc n) m c =
     (case srv_Handler srv of
        Some h \<Rightarrow> h (Send P srv n) m c
      | None \<Rightarrow> ProcessMsg P srv (Send P srv n) m c)"

section \<open>Lemmas: closing and processing\<close>

lemma Conn_Close_closed [simp]: "c_closed (Conn_Close P e c)"
  by (simp add: Conn_Close_def Let_def)

lemma Conn_Close_again [simp]: "c_closed c \<Longrightarrow> Conn_Close P e c = c"
  by (simp add: Conn_Close_def)

lemma Conn_Close_frame [conn_simps, simp]:
  "c_Vars (Conn_Close P e c) = c_Vars c" "c_sent (Conn_Close P e c) = c_sent c"
  "c_lk (Conn_Close P e c) = c_lk c" "c_ticks (Conn_Close P e c) = c_ticks c"
  "c_UUID (Conn_Close P e c) = c_UUID c" "c_psc (Conn_Close P e c) = c_psc c"
  "c_resc (Conn_Close P e c) = c_resc c" "c_allowedMsgs (Conn_Close P e c) = c_allowedMsgs c"
  "c_log (Conn_Close P e c) = c_log c"
  by (simp_all add: Conn_Close_def Let_def)

lemma addVar_frame [conn_simps, simp]:
  "c_closed (addVar k d c) = c_closed c" "c_CloseErr (addVar k d c) = c_CloseErr c"
  "c_sent (addVar k d c) = c_sent c" "c_lk (addVar k d c) = c_lk c"
  "c_ticks (addVar k d c) = c_ticks c" "c_UUID (addVar k d c) = c_UUID c"
  "c_psc (addVar k d c) = c_psc c" "c_resc (addVar k d c) = c_resc c"
  "c_brokers (addVar k d c) = c_brokers c" "c_allowedMsgs (addVar k d c) = c_allowedMsgs c"
  "c_log (addVar k d c) = c_log c" "c_Vars (addVar k d c) = vars_add k d (c_Vars c)"
  by (simp_all add: addVar_def)

lemma saveMsgMetrics_frame [conn_simps, simp]:
  "c_closed (saveMsgMetrics reg m c) = c_closed c"
  "c_CloseErr (saveMsgMetrics reg m c) = c_CloseErr c"
  "c_sent (saveMsgMetrics reg m c) = c_sent c" "c_lk (saveMsgMetrics reg m c) = c_lk c"
  "c_ticks (saveMsgMetrics reg m c) = c_ticks c" "c_UUID (saveMsgMetrics reg m c) = c_UUID c"
  "c_psc (saveMsgMetrics reg m c) = c_psc c" "c_brokers (saveMsgMetrics reg m c) = c_brokers c"
  "c_allowedMsgs (saveMsgMetrics reg m c) = c_allowedMsgs c"
  by (simp_all add: saveMsgMetrics_def Let_def)

lemma slowMsgMetrics_frame [conn_simps, simp]:
  "c_closed (slowMsgMetrics P m c) = c_closed c"
  "c_CloseErr (slowMsgMetrics P m c) = c_CloseErr c"
  "c_sent (slowMsgMetrics P m c) = c_sent c" "c_lk (slowMsgMetrics P m c) = c_lk c"
  "c_UUID (slowMsgMetrics P m c) = c_UUID c" "c_psc (slowMsgMetrics P m c) = c_psc c"
  "c_brokers (slowMsgMetrics P m c) = c_brokers c"
  "c_allowedMsgs (slowMsgMetrics P m c) = c_allowedMsgs c"
  by (simp_all add: slowMsgMetrics_def Let_def)

text \<open>What a write leaves: the message sent, or the connection closed with the error.\<close>

definition written :: "err option \<Rightarrow> msg \<Rightarrow> ('c, 'b) Conn \<Rightarrow> ('c, 'b) Conn \<Rightarrow> bool" where
  "written e m c c' \<longleftrightarrow>
     c_UUID c' = c_UUID c \<and> c_psc c' = c_psc c \<and> c_allowedMsgs c' = c_allowedMsgs c
     \<and> (case e of
          None \<Rightarrow> c_sent c' = c_sent c @ [m] \<and> c_closed c' = c_closed c
            \<and> c_CloseErr c' = c_CloseErr c \<and> c_brokers c' = c_brokers c
        | Some e \<Rightarrow> c_sent c' = c_sent c \<and> c_closed c'
            \<and> c_CloseErr c' = (if c_closed c then c_CloseErr c else Some e))"

lemma Conn_Close_CloseErr [simp]:
  "c_CloseErr (Conn_Close P e c) = (if c_closed c then c_CloseErr c else e)"
  by (simp add: Conn_Close_def Let_def)

lemma doWrite_written:
  "\<exists>e lk c'. writeMsg P srv m c = Inr (e, lk) \<and> doWrite P srv m c = Done c' \<and> c_lk c' = lk
     \<and> written e m c c'"
proof -
  obtain e lk where w: "writeMsg P srv m c = Inr (e, lk)"
    using writeText_total unfolding writeMsg_def by metis
  show ?thesis
  proof (cases e)
    case None
    with w show ?thesis by (simp add: doWrite_def written_def Let_def)
  next
    case (Some x)
    with w show ?thesis by (cases x) (simp_all add: doWrite_def written_def Let_def)
  qed
qed

fun is_response :: "msg \<Rightarrow> bool" where
  "is_response (Ack _) = True"
| "is_response (Nack _) = True"
| "is_response (Res _) = True"
| "is_response (Evnt _) = True"
| "is_response _ = False"

lemma body_response:
  "is_response m \<Longrightarrow> ProcessMsg_body P srv send m c = doWrite P srv m c"
  by (cases m) simp_all

lemma written_save: "written e m (saveMsgMetrics reg m' c) c' = written e m c c'"
  by (cases e) (simp_all add: written_def)

lemma written_slow: "written e m c (slowMsgMetrics P m' c') = written e m c c'"
  by (cases e) (simp_all add: written_def)

lemma ProcessMsg_response:
  assumes "is_response m"
  shows "\<exists>e c'. map_sum id fst (writeMsg P srv m c) = Inr e
    \<and> ProcessMsg P srv send m c = Done c' \<and> written e m c c'"
proof -
  have same: "writeMsg P srv m (saveMsgMetrics reg m c) = writeMsg P srv m c" for reg
    by (simp add: writeMsg_def)
  show ?thesis
  proof (cases "c_Vars c = None")
    case True
    then show ?thesis
      using doWrite_written [of P srv m c] body_response [OF assms, of P srv send c]
      by (auto simp: ProcessMsg_def)
  next
    case False
    then show ?thesis
      using doWrite_written [of P srv m "saveMsgMetrics (pf_registry P) m c"]
        body_response [OF assms, of P srv send "saveMsgMetrics (pf_registry P) m c"]
      by (auto simp: ProcessMsg_def same written_save written_slow)
  qed
qed

text \<open>The operation of a request on the brokers.\<close>

fun is_request :: "msg \<Rightarrow> bool" where
  "is_request (Call _) = True"
| "is_request (Pub _) = True"
| "is_request (Sub _) = True"
| "is_request (Unsb _) = True"
| "is_request _ = False"

fun request_op :: "('c, 'b) platform \<Rightarrow> uuid \<Rightarrow> msg \<Rightarrow> 'b \<Rightarrow> err option \<times> 'b" where
  "request_op P u (Call m) b =
     bk_Call (pf_brokers P)
       \<lparr>cp_ConnUUID = u, cp_MsgUUID = meta_U (call_Meta m), cp_URI = call_URI m, cp_Args = call_Args m,
        cp_TTLAfterRead = 0, cp_ReadTimestamp = 0\<rparr> (call_Timeout m) b"
| "request_op P u (Pub m) b =
     bk_Publish (pf_brokers P) (pub_Channel m)
       \<lparr>pp_MsgUUID = meta_U (pub_Meta m), pp_Args = pub_Args m\<rparr> b"
| "request_op P u (Sub m) b = bk_Subscribe (pf_brokers P) (sub_Channel m) (sub_Pattern m) b"
| "request_op P u (Unsb m) b = bk_Unsubscribe (pf_brokers P) (sub_Channel m) (sub_Pattern m) b"
| "request_op P u _ b = (None, b)"

text \<open>The nil dereference: a request for the pub-sub connection when there is none.\<close>

fun needs_psc :: "msg \<Rightarrow> bool" where
  "needs_psc (Sub _) = True"
| "needs_psc (Unsb _) = True"
| "needs_psc _ = False"

definition reply_msg :: "uuid \<Rightarrow> msg \<Rightarrow> err option \<Rightarrow> msg" where
  "reply_msg u m e = (case e of Some e \<Rightarrow> Nack (NewNack u m 500 e) | None \<Rightarrow> Ack (NewAck u m))"

lemma is_response_reply [simp]: "is_response (reply_msg u m e)"
  by (cases e) (simp_all add: reply_msg_def)

lemma body_request:
  assumes "is_request m" and "needs_psc m \<longrightarrow> c_psc c"
  shows "ProcessMsg_body P srv send m c =
    (case request_op P (c_UUID c) m (c_brokers c) of (e, b) \<Rightarrow>
       send (reply_msg (dr_uuid (pf_draws P) (c_ticks c)) m e)
         (c\<lparr>c_brokers := b, c_ticks := Suc (c_ticks c)\<rparr>))"
  using assms
  by (cases m) (auto simp: reply_def reply_msg_def msg_UUID_def Let_def split: prod.splits option.splits)

lemma Send_response:
  assumes "srv_Handler srv = None" and "is_response m"
  shows "\<exists>e c'. map_sum id fst (writeMsg P srv m c) = Inr e
    \<and> Send P srv (Suc n) m c = Done c' \<and> written e m c c'"
  using ProcessMsg_response [OF assms(2), of P srv c "Send P srv n"] assms(1) by simp

lemma Send_request_written:
  assumes h: "srv_Handler srv = None" and m: "is_request m" "needs_psc m \<longrightarrow> c_psc c"
    and op: "request_op P (c_UUID c) m (c_brokers c) = (e, b)"
  shows "\<exists>k we c0 c'. Send P srv (Suc (Suc n)) m c = Done c'
    \<and> written we (reply_msg (dr_uuid (pf_draws P) k) m e) (c\<lparr>c_brokers := b\<rparr>) c'
    \<and> map_sum id fst (writeMsg P srv (reply_msg (dr_uuid (pf_draws P) k) m e) c0) = Inr we"
proof -
  have upd: "written we r (c\<lparr>c_brokers := b, c_ticks := t\<rparr>) c' = written we r (c\<lparr>c_brokers := b\<rparr>) c'"
    for we r t c' and c :: "('a, 'b) Conn"
    by (cases we) (simp_all add: written_def)
  have save: "written we r ((saveMsgMetrics reg m c)\<lparr>c_brokers := b\<rparr>) c'
      = written we r (c\<lparr>c_brokers := b\<rparr>) c'" for we r reg c' and c :: "('a, 'b) Conn"
    by (cases we) (simp_all add: written_def)
  define send where "send = Send P srv (Suc n)"
  have two: "Send P srv (Suc (Suc n)) m c = ProcessMsg P srv send m c" using h by (simp add: send_def)
  show ?thesis
  proof (cases "c_Vars c = None")
    case True
    let ?u = "dr_uuid (pf_draws P) (c_ticks c)" and ?c = "c\<lparr>c_brokers := b, c_ticks := Suc (c_ticks c)\<rparr>"
    obtain we c' where "Send P srv (Suc n) (reply_msg ?u m e) ?c = Done c'"
      "written we (reply_msg ?u m e) ?c c'" "map_sum id fst (writeMsg P srv (reply_msg ?u m e) ?c) = Inr we"
      using Send_response [OF h is_response_reply, of P ?u m e ?c n] by blast
    moreover have "Send P srv (Suc (Suc n)) m c = send (reply_msg ?u m e) ?c"
      unfolding two using True body_request [OF m, of P srv send] op by (simp add: ProcessMsg_def)
    ultimately show ?thesis unfolding send_def by (metis upd)
  next
    case False
    let ?s = "saveMsgMetrics (pf_registry P) m c"
    let ?u = "dr_uuid (pf_draws P) (c_ticks c)" and ?c = "?s\<lparr>c_brokers := b, c_ticks := Suc (c_ticks c)\<rparr>"
    obtain we c' where c': "Send P srv (Suc n) (reply_msg ?u m e) ?c = Done c'"
      "written we (reply_msg ?u m e) ?c c'" "map_sum id fst (writeMsg P srv (reply_msg ?u m e) ?c) = Inr we"
      using Send_response [OF h is_response_reply, of P ?u m e ?c n] by blast
    have "Send P srv (Suc (Suc n)) m c
        = map_state (slowMsgMetrics P m) (send (reply_msg ?u m e) ?c)"
      unfolding two using False body_request [OF m(1), of ?s P srv send] m(2) op
      by (auto simp: ProcessMsg_def)
    with c' show ?thesis unfolding send_def by (metis map_state.simps(1) written_slow upd save)
  qed
qed

lemma Send_request:
  assumes "srv_Handler srv = None" and "is_request m" "needs_psc m \<longrightarrow> c_psc c"
    and "request_op P (c_UUID c) m (c_brokers c) = (e, b)"
  shows "\<exists>u we c'. Send P srv (Suc (Suc n)) m c = Done c'
    \<and> written we (reply_msg u m e) (c\<lparr>c_brokers := b\<rparr>) c'"
  using Send_request_written [OF assms] by blast

section \<open>What the handlers keep\<close>

text \<open>
  The contract of the handlers of a server: a closed connection stays closed, with its
  error; the identity of the connection, its broker connections and its allowed messages
  stay; and the gauges of connections and goroutines are left to those that own them.
\<close>

definition var_of :: "string \<Rightarrow> ('c, 'b) Conn \<Rightarrow> int" where
  "var_of k c = (case c_Vars c of None \<Rightarrow> 0 | Some f \<Rightarrow> f k)"

definition gauges :: "string set" where
  "gauges = {''ActiveConns'', ''TotalConns'', ''ActiveConnGoros'', ''TotalConnGoros''}"

definition keeps :: "('c, 'b) Conn \<Rightarrow> ('c, 'b) Conn \<Rightarrow> bool" where
  "keeps c c' \<longleftrightarrow>
     (c_closed c \<longrightarrow> c_closed c' \<and> c_CloseErr c' = c_CloseErr c)
     \<and> c_UUID c' = c_UUID c \<and> c_allowedMsgs c' = c_allowedMsgs c
     \<and> c_psc c' = c_psc c \<and> c_resc c' = c_resc c
     \<and> (c_Vars c' = None \<longleftrightarrow> c_Vars c = None) \<and> (\<forall>k \<in> gauges. var_of k c' = var_of k c)"

fun outcome_all :: "('s \<Rightarrow> bool) \<Rightarrow> 's outcome \<Rightarrow> bool" where
  "outcome_all Q (Done s) = Q s"
| "outcome_all Q (Panicked p s) = Q s"
| "outcome_all Q OutOfFuel = True"

definition lawful :: "('c, 'b) Conn sender \<Rightarrow> bool" where
  "lawful send \<longleftrightarrow> (\<forall>m c. outcome_all (keeps c) (send m c))"

lemma keeps_refl [simp]: "keeps c c"
  by (simp add: keeps_def)

lemma keeps_trans: "keeps a b \<Longrightarrow> keeps b c \<Longrightarrow> keeps a c"
  by (simp add: keeps_def)

lemma keeps_upd [simp]:
  "keeps c (c\<lparr>c_ticks := t\<rparr>)" "keeps c (c\<lparr>c_brokers := b, c_ticks := t\<rparr>)"
  "keeps c (c\<lparr>c_ticks := t, c_lk := lk\<rparr>)" "keeps c (c\<lparr>c_ticks := t, c_lk := lk, c_sent := l\<rparr>)"
  "keeps c (c\<lparr>c_log := lg\<rparr>)" "keeps c (c\<lparr>c_lk := lk\<rparr>)"
  by (simp_all add: keeps_def var_of_def)

lemma keeps_Close [simp]: "keeps c (Conn_Close P e c)"
  by (simp add: keeps_def var_of_def)

lemma keeps_addVar [simp]: "k \<notin> gauges \<Longrightarrow> keeps c (addVar k d c') = keeps c c'"
  by (cases "c_Vars c'") (auto simp: keeps_def var_of_def)

lemma keeps_then_Close: "keeps c c' \<Longrightarrow> keeps c (Conn_Close P e c')"
  using keeps_trans keeps_Close by blast

lemma keeps_save [simp]: "keeps c (saveMsgMetrics reg m c)"
  by (simp add: saveMsgMetrics_def Let_def gauges_def)

lemma keeps_slow [simp]: "keeps c (slowMsgMetrics P m c)"
  by (simp add: slowMsgMetrics_def Let_def gauges_def)

lemma outcome_all_mono: "outcome_all Q out \<Longrightarrow> (\<And>s. Q s \<Longrightarrow> Q' s) \<Longrightarrow> outcome_all Q' out"
  by (cases out) auto

lemma outcome_all_map_state: "outcome_all Q (map_state f out) = outcome_all (Q \<circ> f) out"
  by (cases out) auto

lemma outcome_keeps_trans: "keeps a b \<Longrightarrow> outcome_all (keeps b) out \<Longrightarrow> outcome_all (keeps a) out"
  by (cases out) (auto intro: keeps_trans)

lemma outcome_all_and_then:
  assumes "outcome_all (keeps c) out" and "\<And>s. outcome_all (keeps s) (f s)"
  shows "outcome_all (keeps c) (and_then out f)"
  using assms by (cases out) (auto intro: outcome_keeps_trans)

lemma lawfulD: "lawful send \<Longrightarrow> outcome_all (keeps c) (send m c)"
  by (simp add: lawful_def)

lemma keeps_doWrite: "outcome_all (keeps c) (doWrite P srv m c)"
  by (auto simp: doWrite_def Let_def gauges_def intro!: keeps_then_Close
      split: sum.splits option.splits err.splits)

lemma keeps_reply: "lawful send \<Longrightarrow> outcome_all (keeps c) (reply P send m r c)"
  by (auto simp: reply_def Let_def split: prod.splits option.splits
      intro!: outcome_keeps_trans [OF keeps_upd(2) lawfulD])

lemma keeps_body: "lawful send \<Longrightarrow> outcome_all (keeps c) (ProcessMsg_body P srv send m c)"
  by (cases m) (simp_all add: keeps_reply keeps_doWrite gauges_def)

lemma outcome_slow:
  "outcome_all (keeps c) out \<Longrightarrow> outcome_all (keeps c) (map_state (slowMsgMetrics P m) out)"
  by (cases out) (auto intro: keeps_trans)

lemma lawful_ProcessMsg: "lawful send \<Longrightarrow> lawful (ProcessMsg P srv send)"
  unfolding lawful_def [of "ProcessMsg P srv send"]
  by (auto simp: ProcessMsg_def keeps_body
      intro!: outcome_slow outcome_keeps_trans [OF keeps_save keeps_body])

definition server_handler :: "('c, 'b) platform \<Rightarrow> ('c, 'b) Server \<Rightarrow> ('c, 'b) Conn handler" where
  "server_handler P srv = (case srv_Handler srv of Some h \<Rightarrow> h | None \<Rightarrow> ProcessMsg P srv)"

locale lawful_server =
  fixes P :: "('c, 'b) platform" and srv :: "('c, 'b) Server"
  assumes handler_lawful: "lawful send \<Longrightarrow> lawful (server_handler P srv send)"
begin

lemma Send_lawful: "lawful (Send P srv n)"
proof (induction n)
  case 0
  show ?case by (simp add: lawful_def)
next
  case (Suc n)
  have "Send P srv (Suc n) = server_handler P srv (Send P srv n)"
    by (auto simp: fun_eq_iff server_handler_def split: option.splits)
  with handler_lawful [OF Suc] show ?case by simp
qed

lemma Send_keeps: "Send P srv n m c = Done c' \<Longrightarrow> keeps c c'"
  using lawfulD [OF Send_lawful, of c n m] by simp

end

section \<open>Properties\<close>


definition example_brokers :: "nat brokers" where
  "example_brokers =
     \<lparr>bk_Call = (\<lambda>_ _ b. (None, Suc b)), bk_Publish = (\<lambda>_ _ b. (Some (ErrText ''no redis''), b)),
      bk_NewResultsConn = (\<lambda>_ b. (None, b)), bk_NewPubSubConn = (\<lambda>b. (None, b)),
      bk_Subscribe = (\<lambda>_ _ b. (None, b)), bk_Unsubscribe = (\<lambda>_ _ b. (None, b)),
      bk_ClosePubSub = id, bk_CloseResults = id\<rparr>"

definition example_platform :: "(string list, nat) platform" where
  "example_platform =
     \<lparr>pf_codec = example_codec, pf_text = (\<lambda>_. ''text''), pf_ws = example_websocket,
      pf_brokers = example_brokers,
      pf_draws = \<lparr>dr_uuid = (\<lambda>_. example_uuid), dr_acquired = (\<lambda>_. True), dr_duration = (\<lambda>_. 0)\<rparr>,
      pf_registry = init_registry, pf_threshold = 100 * Millisecond\<rparr>"

definition example_server :: "(string list, nat) Server" where
  "example_server =
     \<lparr>srv_ReadLimit = 0, srv_ReadTimeout = 0, srv_WriteLimit = 0, srv_WriteTimeout = 0,
      srv_AcquireWriteLockTimeout = 0, srv_ConnState = True, srv_Handler = None\<rparr>"

definition example_conn :: "(string list, nat) Conn" where
  "example_conn = newConn example_uuid [] 0 (Some (\<lambda>_. 0)) []"


text \<open>
  C20. What becomes of a message for the client, on every path: with the standard processing
  one unit of fuel is enough and nothing panics; a message that cannot be encoded, that
  exceeds the write limit, or whose writer does not get the lock in time is not written and
  closes the connection with that error; otherwise the message is written or the connection
  is closed with the error of the websocket. A connection that was closed before keeps its
  first error.
\<close>

theorem response_written:
  assumes h: "srv_Handler srv = None" and m: "is_response m" and lim: "in_i64 (srv_WriteLimit srv)"
    and size: "\<And>j. encode_msg (pf_codec P) m = Some j \<Longrightarrow> length (pf_text P j) < 2 ^ 62"
  shows "\<exists>e c'. Send P srv (Suc n) m c = Done c'
    \<and> (case e of
         None \<Rightarrow> c_sent c' = c_sent c @ [m] \<and> c_closed c' = c_closed c \<and> c_CloseErr c' = c_CloseErr c
       | Some x \<Rightarrow> c_sent c' = c_sent c \<and> c_closed c'
           \<and> c_CloseErr c' = (if c_closed c then c_CloseErr c else Some x))
    \<and> (case encode_msg (pf_codec P) m of
         None \<Rightarrow> e = Some ErrJSON
       | Some j \<Rightarrow>
           if 0 < srv_WriteLimit srv \<and> srv_WriteLimit srv < int (length (pf_text P j))
           then e = Some ErrWriteLimitExceeded
           else \<not> dr_acquired (pf_draws P) (c_ticks c) \<longrightarrow> e = Some ErrWriteLockTimeout)"
proof -
  obtain e c' where e: "map_sum id fst (writeMsg P srv m c) = Inr e"
    and s: "Send P srv (Suc n) m c = Done c'" "written e m c c'"
    using Send_response [OF h m, of P c n] by blast
  have "case encode_msg (pf_codec P) m of
         None \<Rightarrow> e = Some ErrJSON
       | Some j \<Rightarrow>
           if 0 < srv_WriteLimit srv \<and> srv_WriteLimit srv < int (length (pf_text P j))
           then e = Some ErrWriteLimitExceeded
           else \<not> dr_acquired (pf_draws P) (c_ticks c) \<longrightarrow> e = Some ErrWriteLockTimeout"
  proof (cases "encode_msg (pf_codec P) m")
    case None
    then show ?thesis using e by (simp add: writeMsg_def)
  next
    case (Some j)
    let ?l = "int (length (pf_text P j))"
    show ?thesis
    proof (cases "0 < srv_WriteLimit srv \<and> srv_WriteLimit srv < ?l")
      case True
      moreover have "in_i64 (srv_WriteLimit srv - ?l)"
        using True lim size [OF Some] by (simp add: in_i64_def)
      ultimately show ?thesis using e Some by (simp add: writeMsg_def writeText_limit)
    next
      case False
      then have fits: "srv_WriteLimit srv \<le> 0 \<or> ?l \<le> srv_WriteLimit srv" by auto
      have "e = Some ErrWriteLockTimeout" if "\<not> dr_acquired (pf_draws P) (c_ticks c)"
        using e Some that by (simp add: writeMsg_def writeText_timeout [OF fits lim])
      with False Some show ?thesis by auto
    qed
  qed
  with s show ?thesis
    by (intro exI [of _ e] exI [of _ c']) (auto simp: written_def split: option.splits)
qed

text \<open>An event without arguments, which a tool chain before Go 1.8 cannot encode.\<close>

definition bare_evnt :: evnt where
  "bare_evnt = NewEvnt example_uuid
     \<lparr>ep_MsgUUID = example_uuid, ep_Channel = ''news'', ep_Pattern = '''', ep_Args = None\<rparr>"

theorem response_written_witness:
  "\<exists>c'. Send (example_platform\<lparr>pf_codec := example_codec\<lparr>raw_nil_is_null := False\<rparr>\<rparr>) example_server 1
       (Evnt bare_evnt) example_conn = Done c'
     \<and> c_sent c' = [] \<and> c_CloseErr c' = Some ErrJSON"
proof -
  let ?P = "example_platform\<lparr>pf_codec := example_codec\<lparr>raw_nil_is_null := False\<rparr>\<rparr>"
  have enc: "encode_msg (pf_codec ?P) (Evnt bare_evnt) = None"
    by (simp add: encode_msg_def encode_payload_def bare_evnt_def NewEvnt_def encode_raw_def)
  have "srv_Handler example_server = None" "in_i64 (srv_WriteLimit example_server)"
    by (simp_all add: example_server_def in_i64_def)
  from response_written [OF this(1) _ this(2), of "Evnt bare_evnt" ?P 0 example_conn]
  obtain e c' where "Send ?P example_server 1 (Evnt bare_evnt) example_conn = Done c'"
    "e = Some ErrJSON"
    "case e of None \<Rightarrow> c_sent c' = c_sent example_conn @ [Evnt bare_evnt] \<and> c_closed c' = c_closed example_conn
        \<and> c_CloseErr c' = c_CloseErr example_conn
      | Some x \<Rightarrow> c_sent c' = c_sent example_conn \<and> c_closed c'
           \<and> c_CloseErr c' = (if c_closed example_conn then c_CloseErr example_conn else Some x)"
    unfolding enc by auto
  then show ?thesis by (simp add: example_conn_def newConn_def)
qed

end
