(* ===== verification/Server.thy ===== *)
theory Server
  imports Server_Handler "HOL-Library.Sublist"
begin

text \<open>
  The loops of a connection (\<^verbatim>\<open>conn.go\<close>) and the server (\<^verbatim>\<open>server.go\<close>): the
  read loop and those of results and events, serving a connection, upgrading a request, and
  the life of a session as a step relation in which the loops interleave.
\<close>

section \<open>The loops of a connection\<close>

text \<open>A goroutine of the connection, with the metrics around its loop.\<close>

definition goroutine ::
  "(('c, 'b) Conn \<Rightarrow> ('c, 'b) Conn outcome) \<Rightarrow> ('c, 'b) Conn \<Rightarrow> ('c, 'b) Conn outcome" where
  "goroutine body c =
     map_state (addVar ''ActiveConnGoros'' (- 1))
       (body (addVar ''ActiveConnGoros'' 1 (addVar ''TotalConnGoros'' 1 c)))"

text \<open>One iteration of \<^verbatim>\<open>results\<close> and of \<^verbatim>\<open>pubSub\<close>.\<close>

definition send_result ::
  "('c, 'b) platform \<Rightarrow> ('c, 'b) Server \<Rightarrow> nat \<Rightarrow> resPayload \<Rightarrow> ('c, 'b) Conn \<Rightarrow> ('c, 'b) Conn outcome" where
  "send_result P srv n rp c =
     Send P srv n (Res (NewRes (dr_uuid (pf_draws P) (c_ticks c)) rp)) (c\<lparr>c_ticks := Suc (c_ticks c)\<rparr>)"

definition send_event ::
  "('c, 'b) platform \<Rightarrow> ('c, 'b) Server \<Rightarrow> nat \<Rightarrow> evntPayload \<Rightarrow> ('c, 'b) Conn \<Rightarrow> ('c, 'b) Conn outcome" where
  "send_event P srv n ep c =
     Send P srv n (Evnt (NewEvnt (dr_uuid (pf_draws P) (c_ticks c)) ep)) (c\<lparr>c_ticks := Suc (c_ticks c)\<rparr>)"

text \<open>The loops over the payloads the channel delivers until it is closed with an error.\<close>

fun results_loop ::
  "('c, 'b) platform \<Rightarrow> ('c, 'b) Server \<Rightarrow> nat \<Rightarrow> resPayload list \<Rightarrow> err option \<Rightarrow> ('c, 'b) Conn
     \<Rightarrow> ('c, 'b) Conn outcome" where
  "results_loop P srv n [] e c = Done (Conn_Close P e c)"
| "results_loop P srv n (rp # rps) e c = and_then (send_result P srv n rp c) (results_loop P srv n rps e)"

fun pubSub_loop ::
  "('c, 'b) platform \<Rightarrow> ('c, 'b) Server \<Rightarrow> nat \<Rightarrow> evntPayload list \<Rightarrow> err option \<Rightarrow> ('c, 'b) Conn
     \<Rightarrow> ('c, 'b) Conn outcome" where
  "pubSub_loop P srv n [] e c = Done (Conn_Close P e c)"
| "pubSub_loop P srv n (ep # eps) e c = and_then (send_event P srv n ep c) (pubSub_loop P srv n eps e)"

text \<open>
  The read loop: the frames the websocket delivers, each with its type and its text, until
  reading fails with \<open>e\<close>. (The deadlines it sets decide when that is.)
\<close>

type_synonym frame = "int \<times> wire"

definition TextMessage :: int where "TextMessage = 1"

fun receive_loop ::
  "('c, 'b) platform \<Rightarrow> ('c, 'b) Server \<Rightarrow> nat \<Rightarrow> frame list \<Rightarrow> err \<Rightarrow> ('c, 'b) Conn
     \<Rightarrow> ('c, 'b) Conn outcome" where
  "receive_loop P srv n [] e c = Done (Conn_Close P (Some e) c)"
| "receive_loop P srv n ((mt, r) # fs) e c =
     (if mt \<noteq> TextMessage
      then Done (Conn_Close P (Some (ErrText (''invalid websocket message type: '' @ Itoa mt))) c)
      else
        case UnmarshalRequest (pf_codec P) (pf_registry P) r (c_allowedMsgs c) of
          Inl e' \<Rightarrow> Done (Conn_Close P (Some e') c)
        | Inr m \<Rightarrow> and_then (Send P srv n m c) (receive_loop P srv n fs e))"

definition results ::
  "('c, 'b) platform \<Rightarrow> ('c, 'b) Server \<Rightarrow> nat \<Rightarrow> resPayload list \<Rightarrow> err option \<Rightarrow> ('c, 'b) Conn
     \<Rightarrow> ('c, 'b) Conn outcome" where
  "results P srv n rps e = goroutine (results_loop P srv n rps e)"

definition pubSub ::
  "('c, 'b) platform \<Rightarrow> ('c, 'b) Server \<Rightarrow> nat \<Rightarrow> evntPayload list \<Rightarrow> err option \<Rightarrow> ('c, 'b) Conn
     \<Rightarrow> ('c, 'b) Conn outcome" where
  "pubSub P srv n eps e = goroutine (pubSub_loop P srv n eps e)"

definition receive ::
  "('c, 'b) platform \<Rightarrow> ('c, 'b) Server \<Rightarrow> nat \<Rightarrow> frame list \<Rightarrow> err \<Rightarrow> ('c, 'b) Conn
     \<Rightarrow> ('c, 'b) Conn outcome" where
  "receive P srv n fs e = goroutine (receive_loop P srv n fs e)"

section \<open>Serving a connection\<close>

fun isInStr :: "string list \<Rightarrow> string \<Rightarrow> bool" where
  "isInStr [] v = False"
| "isInStr (vv # list) v = (if vv = v then True else isInStr list v)"

fun isInType :: "msg_type list \<Rightarrow> msg_type \<Rightarrow> bool" where
  "isInType [] v = False"
| "isInType (vv # list) v = (if vv = v then True else isInType list v)"

definition Subprotocols :: "string list" where
  "Subprotocols = [''juggler.0'']"

definition srv_allReqMsgs :: "msg_type list" where
  "srv_allReqMsgs = [CallMsg, SubMsg, UnsbMsg, PubMsg]"

datatype goro = GoPubSub | GoResults | GoReceive

text \<open>
  \<^verbatim>\<open>ServeConn\<close> up to the wait for the close: the connection, the states the callback was
  called with, and the goroutines that were started. The connection may be closed already,
  when the broker refused a connection.
\<close>

definition ServeConn_setup ::
  "('c, 'b) platform \<Rightarrow> ('c, 'b) Server \<Rightarrow> msg_type list \<Rightarrow> ('c, 'b) Conn
     \<Rightarrow> ('c, 'b) Conn \<times> ConnState list \<times> goro list" where
  "ServeConn_setup P srv allowedMsgs c =
     (let allowed = (if allowedMsgs = [] then srv_allReqMsgs else allowedMsgs);
          callOK = isInType allowed CallMsg;
          subOK = isInType allowed SubMsg;
          unsbOK = isInType allowed UnsbMsg;
          states = (\<lambda>l. if srv_ConnState srv then l else []);
          (e, b) = (if callOK then bk_NewResultsConn (pf_brokers P) (c_UUID c) (c_brokers c)
                    else (None, c_brokers c));
          c = c\<lparr>c_brokers := b\<rparr> in
      case e of
        Some e \<Rightarrow>
          (Conn_Close P (Some (ErrText (''failed to create results connection: '' @ err_Error e
             @ ''; dropping connection''))) c, states [Accepting], [])
      | None \<Rightarrow>
          let c = c\<lparr>c_resc := callOK\<rparr>;
              (e, b) = (if subOK \<or> unsbOK then bk_NewPubSubConn (pf_brokers P) (c_brokers c)
                        else (None, c_brokers c));
              c = c\<lparr>c_brokers := b\<rparr> in
          (case e of
             Some e \<Rightarrow>
               (Conn_Close P (Some (ErrText (''failed to create pubsub connection: '' @ err_Error e
                  @ ''; dropping connection''))) c, states [Accepting], [])
           | None \<Rightarrow>
               (c\<lparr>c_psc := subOK \<or> unsbOK\<rparr>, states [Accepting, Connected],
                (if subOK then [GoPubSub] else []) @ (if callOK then [GoResults] else []) @ [GoReceive])))"

text \<open>A session: the connection, the calls of the callback, the goroutines that run, and
  whether \<^verbatim>\<open>ServeConn\<close> has returned.\<close>

record ('c, 'b) session =
  ses_conn :: "('c, 'b) Conn"
  ses_states :: "ConnState list"
  ses_goros :: "goro list"
  ses_returned :: bool

definition ServeConn_start ::
  "('c, 'b) platform \<Rightarrow> ('c, 'b) Server \<Rightarrow> uuid \<Rightarrow> 'c \<Rightarrow> 'b \<Rightarrow> vars \<Rightarrow> msg_type list
     \<Rightarrow> ('c, 'b) session" where
  "ServeConn_start P srv u ws b vars allowedMsgs =
     (let vars = vars_add ''TotalConns'' 1 (vars_add ''ActiveConns'' 1 vars);
          (c, states, goros) = ServeConn_setup P srv allowedMsgs (newConn u ws b vars allowedMsgs) in
      \<lparr>ses_conn = c, ses_states = states, ses_goros = goros, ses_returned = False\<rparr>)"

text \<open>The deferred calls when it returns.\<close>

definition ServeConn_return :: "('c, 'b) Server \<Rightarrow> ('c, 'b) session \<Rightarrow> ('c, 'b) session" where
  "ServeConn_return srv s =
     s\<lparr>ses_states := ses_states s @ (if srv_ConnState srv then [Closed] else []),
       ses_conn := addVar ''ActiveConns'' (- 1) (ses_conn s), ses_returned := True\<rparr>"

section \<open>Upgrading a request\<close>

definition allowed_type :: "string \<Rightarrow> msg_type list" where
  "allowed_type typ =
     (let typ = TrimSpace (ToLower typ) in
      if typ = ''call'' then [CallMsg]
      else if typ = ''sub'' then [SubMsg]
      else if typ = ''unsb'' then [UnsbMsg]
      else if typ = ''pub'' then [PubMsg]
      else [])"

text \<open>From the value of the header, empty when there is none.\<close>

definition AllowedMessagesFromHeader :: "string \<Rightarrow> msg_type list" where
  "AllowedMessagesFromHeader h =
     (let allowed = TrimSpace h in
      if allowed \<noteq> '''' \<and> allowed \<noteq> ''*''
      then concat (map allowed_type (Split (CHR '','') allowed))
      else [])"

text \<open>\<^verbatim>\<open>Upgrade\<close>: the subprotocol of the upgraded connection, none when upgrading failed,
  and the header give the types to serve the connection with, or none when it is dropped.
  \<open>supported\<close> is the value of the package variable \<^verbatim>\<open>Subprotocols\<close>.\<close>

definition Upgrade :: "string list \<Rightarrow> string option \<Rightarrow> string \<Rightarrow> msg_type list option" where
  "Upgrade supported upgraded header =
     (case upgraded of
        None \<Rightarrow> None
      | Some subprotocol \<Rightarrow>
          if isInStr supported subprotocol then Some (AllowedMessagesFromHeader header) else None)"

section \<open>The life of a session\<close>

text \<open>
  The goroutines of a connection interleave, message by message, with each other and with
  any close from elsewhere. (The interleaving of the writes inside a message is that of
  \<open>Wswriter\<close>.) A goroutine that ends closes the connection with its error.
\<close>

definition start_goros :: "goro list \<Rightarrow> ('c, 'b) Conn \<Rightarrow> ('c, 'b) Conn" where
  "start_goros gs c = fold (\<lambda>_ c. addVar ''ActiveConnGoros'' 1 (addVar ''TotalConnGoros'' 1 c)) gs c"

definition end_goro ::
  "('c, 'b) platform \<Rightarrow> goro \<Rightarrow> err option \<Rightarrow> ('c, 'b) session \<Rightarrow> ('c, 'b) session" where
  "end_goro P g e s =
     s\<lparr>ses_conn := addVar ''ActiveConnGoros'' (- 1) (Conn_Close P e (ses_conn s)),
       ses_goros := remove1 g (ses_goros s)\<rparr>"

inductive serve_step ::
  "('c, 'b) platform \<Rightarrow> ('c, 'b) Server \<Rightarrow> nat \<Rightarrow> ('c, 'b) session \<Rightarrow> ('c, 'b) session \<Rightarrow> bool"
  for P srv n where
  serve_request: "GoReceive \<in> set (ses_goros s)
    \<Longrightarrow> UnmarshalRequest (pf_codec P) (pf_registry P) r (c_allowedMsgs (ses_conn s)) = Inr m
    \<Longrightarrow> Send P srv n m (ses_conn s) = Done c \<Longrightarrow> serve_step P srv n s (s\<lparr>ses_conn := c\<rparr>)"
| serve_bad_type: "GoReceive \<in> set (ses_goros s) \<Longrightarrow> mt \<noteq> TextMessage
    \<Longrightarrow> serve_step P srv n s
          (end_goro P GoReceive (Some (ErrText (''invalid websocket message type: '' @ Itoa mt))) s)"
| serve_bad_request: "GoReceive \<in> set (ses_goros s)
    \<Longrightarrow> UnmarshalRequest (pf_codec P) (pf_registry P) r (c_allowedMsgs (ses_conn s)) = Inl e
    \<Longrightarrow> serve_step P srv n s (end_goro P GoReceive (Some e) s)"
| serve_read_error: "GoReceive \<in> set (ses_goros s)
    \<Longrightarrow> serve_step P srv n s (end_goro P GoReceive (Some e) s)"
| serve_result: "GoResults \<in> set (ses_goros s) \<Longrightarrow> send_result P srv n rp (ses_conn s) = Done c
    \<Longrightarrow> serve_step P srv n s (s\<lparr>ses_conn := c\<rparr>)"
| serve_results_end: "GoResults \<in> set (ses_goros s)
    \<Longrightarrow> serve_step P srv n s (end_goro P GoResults e s)"
| serve_event: "GoPubSub \<in> set (ses_goros s) \<Longrightarrow> send_event P srv n ep (ses_conn s) = Done c
    \<Longrightarrow> serve_step P srv n s (s\<lparr>ses_conn := c\<rparr>)"
| serve_events_end: "GoPubSub \<in> set (ses_goros s)
    \<Longrightarrow> serve_step P srv n s (end_goro P GoPubSub e s)"
| serve_close: "serve_step P srv n s (s\<lparr>ses_conn := Conn_Close P e (ses_conn s)\<rparr>)"
| serve_return: "c_closed (ses_conn s) \<Longrightarrow> \<not> ses_returned s
    \<Longrightarrow> serve_step P srv n s (ServeConn_return srv s)"

inductive served ::
  "('c, 'b) platform \<Rightarrow> ('c, 'b) Server \<Rightarrow> nat \<Rightarrow> uuid \<Rightarrow> 'c \<Rightarrow> 'b \<Rightarrow> vars \<Rightarrow> msg_type list
     \<Rightarrow> ('c, 'b) session \<Rightarrow> bool"
  for P srv n u ws b vars allowed where
  served_start: "s = ServeConn_start P srv u ws b vars allowed
    \<Longrightarrow> served P srv n u ws b vars allowed
          (s\<lparr>ses_conn := start_goros (ses_goros s) (ses_conn s)\<rparr>)"
| served_step: "served P srv n u ws b vars allowed s \<Longrightarrow> serve_step P srv n s s'
    \<Longrightarrow> served P srv n u ws b vars allowed s'"

section \<open>What a session keeps\<close>

context lawful_server
begin

lemma send_result_keeps: "send_result P srv n rp c = Done c' \<Longrightarrow> keeps c c'"
  unfolding send_result_def by (rule keeps_trans [OF keeps_upd(1) Send_keeps])

lemma send_event_keeps: "send_event P srv n ep c = Done c' \<Longrightarrow> keeps c c'"
  unfolding send_event_def by (rule keeps_trans [OF keeps_upd(1) Send_keeps])

lemma step_keeps_close:
  assumes "serve_step P srv n s s'" and "c_closed (ses_conn s)"
  shows "c_closed (ses_conn s') \<and> c_CloseErr (ses_conn s') = c_CloseErr (ses_conn s)"
  using assms
  by cases (auto simp: end_goro_def ServeConn_return_def keeps_def
      dest!: Send_keeps send_result_keeps send_event_keeps)

end

section \<open>The invariant of a session\<close>

text \<open>The states shown to the callback and what they say of the connection, and the gauges.\<close>

definition session_life :: "('c, 'b) Server \<Rightarrow> ('c, 'b) session \<Rightarrow> bool" where
  "session_life srv s \<longleftrightarrow>
     (\<exists>st \<in> {[Accepting], [Accepting, Connected]}.
        ses_states s = (if srv_ConnState srv then st @ (if ses_returned s then [Closed] else []) else []))
     \<and> (ses_returned s \<longrightarrow> c_closed (ses_conn s))
     \<and> distinct (ses_goros s) \<and> (GoReceive \<notin> set (ses_goros s) \<longrightarrow> c_closed (ses_conn s))"

definition session_gauges :: "vars \<Rightarrow> ('c, 'b) session \<Rightarrow> bool" where
  "session_gauges vars s \<longleftrightarrow>
     (case vars of
        None \<Rightarrow> c_Vars (ses_conn s) = None
      | Some f \<Rightarrow>
          c_Vars (ses_conn s) \<noteq> None
          \<and> var_of ''ActiveConns'' (ses_conn s)
              = i64 (f ''ActiveConns'' + (if ses_returned s then 0 else 1))
          \<and> var_of ''ActiveConnGoros'' (ses_conn s)
              = i64 (f ''ActiveConnGoros'' + int (length (ses_goros s))))"

definition session_inv :: "('c, 'b) Server \<Rightarrow> vars \<Rightarrow> ('c, 'b) session \<Rightarrow> bool" where
  "session_inv srv vars s \<longleftrightarrow> session_life srv s \<and> session_gauges vars s"

lemma var_of_addVar:
  "c_Vars c \<noteq> None \<Longrightarrow> var_of k (addVar k' d c) = (if k = k' then i64 (var_of k c + d) else var_of k c)"
  by (auto simp: var_of_def)

lemma var_of_Close [simp]: "var_of k (Conn_Close P e c) = var_of k c"
  by (simp add: var_of_def)

lemma session_inv_conn:
  assumes "session_inv srv vars s" and "keeps (ses_conn s) c"
  shows "session_inv srv vars (s\<lparr>ses_conn := c\<rparr>)"
proof -
  have "session_life srv (s\<lparr>ses_conn := c\<rparr>)"
    using assms by (auto simp: session_inv_def session_life_def keeps_def)
  moreover have "session_gauges vars (s\<lparr>ses_conn := c\<rparr>)"
    using assms by (auto simp: session_inv_def session_gauges_def keeps_def gauges_def split: option.splits)
  ultimately show ?thesis by (simp add: session_inv_def)
qed

lemma session_inv_end:
  assumes inv: "session_inv srv vars s" and g: "g \<in> set (ses_goros s)"
  shows "session_inv srv vars (end_goro P g e s)"
proof -
  have len: "int (length (remove1 g (ses_goros s))) = int (length (ses_goros s)) - 1"
    using g length_pos_if_in_set [OF g]
    by (simp add: length_remove1 of_nat_diff Suc_leI del: length_greater_0_conv)
  have "session_life srv (end_goro P g e s)"
    using inv by (auto simp: session_inv_def session_life_def end_goro_def simp del: length_remove1)
  moreover have "session_gauges vars (end_goro P g e s)"
    using inv by (cases vars) (auto simp: session_inv_def session_gauges_def end_goro_def var_of_addVar len
        add_diff_eq simp del: length_remove1)
  ultimately show ?thesis by (simp add: session_inv_def)
qed

lemma session_inv_return:
  assumes inv: "session_inv srv vars s" and c: "c_closed (ses_conn s)" "\<not> ses_returned s"
  shows "session_inv srv vars (ServeConn_return srv s)"
proof -
  have "session_life srv (ServeConn_return srv s)"
    using inv c by (auto simp: session_inv_def session_life_def ServeConn_return_def)
  moreover have "session_gauges vars (ServeConn_return srv s)"
    using inv c by (cases vars)
      (auto simp: session_inv_def session_gauges_def ServeConn_return_def var_of_addVar)
  ultimately show ?thesis by (simp add: session_inv_def)
qed

text \<open>The counters of an \<^verbatim>\<open>expvar.Map\<close> are 64-bit integers.\<close>

definition wf_vars :: "vars \<Rightarrow> bool" where
  "wf_vars vars \<longleftrightarrow> (\<forall>f k. vars = Some f \<longrightarrow> in_i64 (f k))"

lemma start_goros_frame [simp]:
  "c_closed (start_goros gs c) = c_closed c" "c_CloseErr (start_goros gs c) = c_CloseErr c"
  "(c_Vars (start_goros gs c) = None) = (c_Vars c = None)"
  by (induction gs arbitrary: c) (auto simp: start_goros_def vars_add_def split: option.splits)

lemma var_of_start_goros:
  assumes "c_Vars c \<noteq> None" and "in_i64 (var_of ''ActiveConnGoros'' c)"
  shows "var_of ''ActiveConnGoros'' (start_goros gs c)
      = i64 (var_of ''ActiveConnGoros'' c + int (length gs))"
    and "var_of ''ActiveConns'' (start_goros gs c) = var_of ''ActiveConns'' c"
  using assms
  by (induction gs arbitrary: c) (auto simp: start_goros_def var_of_addVar ac_simps)

lemma ServeConn_setup_cases:
  assumes "ServeConn_setup P srv allowed c = (c', st, gs)"
  shows "c_Vars c' = c_Vars c"
    and "(st = (if srv_ConnState srv then [Accepting, Connected] else []) \<and> GoReceive \<in> set gs
            \<and> c_closed c' = c_closed c)
         \<or> (st = (if srv_ConnState srv then [Accepting] else []) \<and> gs = [] \<and> c_closed c')"
    and "distinct gs" and "(GoPubSub \<in> set gs \<longrightarrow> c_psc c') \<and> (GoResults \<in> set gs \<longrightarrow> c_resc c')"
  using assms
  by (auto simp: ServeConn_setup_def Let_def split: prod.splits option.splits if_splits)

lemma session_inv_start:
  assumes wf: "wf_vars vars" and s: "s = ServeConn_start P srv u ws b vars allowed"
  shows "session_inv srv vars (s\<lparr>ses_conn := start_goros (ses_goros s) (ses_conn s)\<rparr>)"
proof -
  obtain c st gs where su: "ServeConn_setup P srv allowed (newConn u ws b
      (vars_add ''TotalConns'' 1 (vars_add ''ActiveConns'' 1 vars)) allowed) = (c, st, gs)"
    by (metis prod_cases3)
  note sc = ServeConn_setup_cases [OF su]
  have se: "s = \<lparr>ses_conn = c, ses_states = st, ses_goros = gs, ses_returned = False\<rparr>"
    using s su by (simp add: ServeConn_start_def Let_def)
  have v: "c_Vars c = vars_add ''TotalConns'' 1 (vars_add ''ActiveConns'' 1 vars)"
    using sc(1) by (simp add: newConn_def)
  then have n: "c_Vars c = None \<longleftrightarrow> vars = None" by (cases vars) simp_all
  have "var_of ''ActiveConns'' (start_goros gs c) = i64 (f ''ActiveConns'' + 1)
      \<and> var_of ''ActiveConnGoros'' (start_goros gs c) = i64 (f ''ActiveConnGoros'' + int (length gs))"
    if f: "vars = Some f" for f
  proof -
    have "var_of ''ActiveConnGoros'' c = f ''ActiveConnGoros''"
      "var_of ''ActiveConns'' c = i64 (f ''ActiveConns'' + 1)"
      using v f by (simp_all add: var_of_def)
    moreover have "in_i64 (f ''ActiveConnGoros'')" using wf f by (simp add: wf_vars_def)
    ultimately show ?thesis using var_of_start_goros [of c gs] n f by simp
  qed
  then have "session_gauges vars (s\<lparr>ses_conn := start_goros (ses_goros s) (ses_conn s)\<rparr>)"
    using n by (cases vars) (simp_all add: session_gauges_def se)
  moreover have "session_life srv (s\<lparr>ses_conn := start_goros (ses_goros s) (ses_conn s)\<rparr>)"
    using sc(2,3) by (auto simp: session_life_def se)
  ultimately show ?thesis by (simp add: session_inv_def)
qed

context lawful_server
begin

lemma session_inv_step:
  assumes "serve_step P srv n s s'" and "session_inv srv vars s"
  shows "session_inv srv vars s'"
  using assms
  by cases (auto intro!: session_inv_conn session_inv_end session_inv_return
      dest: Send_keeps send_result_keeps send_event_keeps)

lemma session_inv_served:
  "served P srv n u ws b vars allowed s \<Longrightarrow> wf_vars vars \<Longrightarrow> session_inv srv vars s"
  by (induction rule: served.induct) (auto intro: session_inv_start session_inv_step)

end

interpretation standard_server: lawful_server P "srv\<lparr>srv_Handler := None\<rparr>"
  for P :: "('c, 'b) platform" and srv
  by unfold_locales (simp add: server_handler_def lawful_ProcessMsg)

lemma standard_eq: "srv_Handler srv = None \<Longrightarrow> srv\<lparr>srv_Handler := None\<rparr> = srv"
  by simp

section \<open>The loops\<close>

context lawful_server
begin

lemma receive_loop_closes: "receive_loop P srv n fs e c = Done c' \<Longrightarrow> c_closed c'"
proof (induction fs arbitrary: c)
  case (Cons f fs)
  obtain mt r where f: "f = (mt, r)" by (cases f)
  show ?case
  proof (cases "mt = TextMessage")
    case False
    with Cons.prems f show ?thesis by auto
  next
    case True
    show ?thesis
    proof (cases "UnmarshalRequest (pf_codec P) (pf_registry P) r (c_allowedMsgs c)")
      case (Inl e')
      with Cons.prems f True show ?thesis by auto
    next
      case (Inr m)
      with Cons f True show ?thesis by (cases "Send P srv n m c") auto
    qed
  qed
qed auto

end

text \<open>The UUIDs of the calls that the results among some messages answer.\<close>

fun res_uuids :: "msg list \<Rightarrow> uuid list" where
  "res_uuids [] = []"
| "res_uuids (Res r # ms) = res_For r # res_uuids ms"
| "res_uuids (_ # ms) = res_uuids ms"

lemma res_uuids_append [simp]: "res_uuids (xs @ ys) = res_uuids xs @ res_uuids ys"
  by (induction xs rule: res_uuids.induct) simp_all

lemma send_result_sent:
  assumes "srv_Handler srv = None"
  shows "\<exists>c' ms. send_result P srv (Suc n) rp c = Done c' \<and> c_sent c' = c_sent c @ ms
    \<and> (ms = [] \<or> (\<exists>u. ms = [Res (NewRes u rp)]))"
proof -
  let ?m = "Res (NewRes (dr_uuid (pf_draws P) (c_ticks c)) rp)"
  have "is_response ?m" by simp
  from Send_response [OF assms this, of P "c\<lparr>c_ticks := Suc (c_ticks c)\<rparr>" n]
  obtain e c' where "Send P srv (Suc n) ?m (c\<lparr>c_ticks := Suc (c_ticks c)\<rparr>) = Done c'"
    and w: "written e ?m (c\<lparr>c_ticks := Suc (c_ticks c)\<rparr>) c'" by blast
  then have s: "send_result P srv (Suc n) rp c = Done c'" by (simp add: send_result_def)
  show ?thesis
  proof (cases e)
    case None
    with w have "c_sent c' = c_sent c @ [?m]" by (simp add: written_def)
    with s show ?thesis by blast
  next
    case (Some x)
    with w have "c_sent c' = c_sent c @ []" by (simp add: written_def)
    with s show ?thesis by blast
  qed
qed

lemma results_loop_sent:
  assumes "srv_Handler srv = None"
  shows "\<exists>c' ms. results_loop P srv (Suc n) rps e c = Done c' \<and> c_closed c'
    \<and> c_sent c' = c_sent c @ ms \<and> subseq (res_uuids ms) (map rp_MsgUUID rps)"
proof (induction rps arbitrary: c)
  case (Cons rp rps)
  obtain c1 ms1 where c1: "send_result P srv (Suc n) rp c = Done c1" "c_sent c1 = c_sent c @ ms1"
    and ms1: "ms1 = [] \<or> (\<exists>u. ms1 = [Res (NewRes u rp)])"
    using send_result_sent [OF assms, of P n rp c] by blast
  obtain c' ms where c': "results_loop P srv (Suc n) rps e c1 = Done c'" "c_closed c'"
    "c_sent c' = c_sent c1 @ ms" "subseq (res_uuids ms) (map rp_MsgUUID rps)"
    using Cons.IH by blast
  have "subseq (res_uuids (ms1 @ ms)) (map rp_MsgUUID (rp # rps))"
    using ms1 c'(4) by (auto simp: NewRes_def)
  with c1 c' show ?case by (intro exI [of _ c'] exI [of _ "ms1 @ ms"]) simp
qed simp

section \<open>Properties\<close>

text \<open>
  C21. The life of a connection, with the standard processing: under every interleaving of
  its loops, of closes from elsewhere and of the return of \<^verbatim>\<open>ServeConn\<close>, the callback
  sees Accepting, then Connected if the brokers gave the connections, then Closed when
  \<^verbatim>\<open>ServeConn\<close> returns, which only a closed connection makes it do; the gauge of
  connections counts the connection until then and that of goroutines the loops that run;
  and the error of the first close stays.
\<close>

theorem session_lifecycle:
  assumes "srv_Handler srv = None" and "wf_vars vars"
    and "served P srv n u ws b vars allowed s"
  shows "(srv_ConnState srv \<longrightarrow>
        (\<exists>st \<in> {[Accepting], [Accepting, Connected]}.
           ses_states s = st @ (if ses_returned s then [Closed] else [])))
    \<and> (ses_returned s \<longrightarrow> c_closed (ses_conn s))
    \<and> (GoReceive \<notin> set (ses_goros s) \<longrightarrow> c_closed (ses_conn s))
    \<and> (\<forall>f. vars = Some f \<longrightarrow>
         var_of ''ActiveConns'' (ses_conn s)
           = i64 (f ''ActiveConns'' + (if ses_returned s then 0 else 1))
         \<and> var_of ''ActiveConnGoros'' (ses_conn s)
             = i64 (f ''ActiveConnGoros'' + int (length (ses_goros s))))
    \<and> (\<forall>s'. c_closed (ses_conn s) \<longrightarrow> serve_step P srv n s s'
         \<longrightarrow> c_closed (ses_conn s') \<and> c_CloseErr (ses_conn s') = c_CloseErr (ses_conn s))"
proof -
  have srv: "srv\<lparr>srv_Handler := None\<rparr> = srv" using assms(1) by simp
  have "session_inv srv vars s"
    using standard_server.session_inv_served [of P srv] assms(2,3) unfolding srv by blast
  moreover have "c_closed (ses_conn s') \<and> c_CloseErr (ses_conn s') = c_CloseErr (ses_conn s)"
    if "c_closed (ses_conn s)" "serve_step P srv n s s'" for s'
    using standard_server.step_keeps_close [of P srv] that unfolding srv by blast
  ultimately show ?thesis by (auto simp: session_inv_def session_life_def session_gauges_def)
qed

lemma ServeConn_start_returned [simp]: "\<not> ses_returned (ServeConn_start P srv u ws b vars allowed)"
  by (simp add: ServeConn_start_def Let_def split: prod.split)

definition example_session :: "(string list, nat) session" where
  "example_session =
     ServeConn_start example_platform example_server example_uuid [] 0 (Some (\<lambda>_. 0)) [CallMsg]"

definition example_closed :: "(string list, nat) session" where
  "example_closed = example_session\<lparr>ses_conn :=
     Conn_Close example_platform (Some ErrJSON)
       (start_goros (ses_goros example_session) (ses_conn example_session))\<rparr>"

lemma example_closed_simps [simp]: "\<not> ses_returned example_closed" "c_closed (ses_conn example_closed)"
  unfolding example_closed_def example_session_def by simp_all

lemma example_session_served:
  "served example_platform example_server 2 example_uuid [] 0 (Some (\<lambda>_. 0)) [CallMsg]
     (ServeConn_return example_server example_closed)"
proof -
  have "served example_platform example_server 2 example_uuid [] 0 (Some (\<lambda>_. 0)) [CallMsg]
      (example_session\<lparr>ses_conn := start_goros (ses_goros example_session) (ses_conn example_session)\<rparr>)"
    by (rule served_start) (rule example_session_def)
  from served_step [OF this serve_close [of _ _ _ _ "Some ErrJSON"]]
  have "served example_platform example_server 2 example_uuid [] 0 (Some (\<lambda>_. 0)) [CallMsg]
      example_closed"
    unfolding example_closed_def by simp
  then show ?thesis by (rule served_step [OF _ serve_return]) simp_all
qed

theorem session_lifecycle_witness:
  "\<exists>s. served example_platform example_server 2 example_uuid [] 0 (Some (\<lambda>_. 0)) [CallMsg] s
     \<and> ses_returned s \<and> last (ses_states s) = Closed \<and> var_of ''ActiveConns'' (ses_conn s) = 0"
proof -
  let ?s = "ServeConn_return example_server example_closed"
  have srv: "srv_Handler example_server = None" "srv_ConnState example_server"
    by (simp_all add: example_server_def)
  have "wf_vars (Some (\<lambda>_. 0))" by (simp add: wf_vars_def in_i64_def)
  note life = session_lifecycle [OF srv(1) this example_session_served]
  have ret: "ses_returned ?s" by (simp add: ServeConn_return_def)
  have "last (ses_states ?s) = Closed" "var_of ''ActiveConns'' (ses_conn ?s) = 0"
    using life srv(2) ret by (auto simp: in_i64_def)
  with ret example_session_served show ?thesis by blast
qed



text \<open>
  C23. No request makes the standard processing panic: on a connection that \<^verbatim>\<open>ServeConn\<close>
  has set up for request types (all of them, when none is given), at any later moment, the
  processing of whatever request the read loop decodes comes to its end, the pub-sub
  connection being there whenever a request that needs it is allowed.
\<close>

theorem requests_never_panic:
  assumes h: "srv_Handler srv = None" and allowed: "set allowed \<subseteq> set srv_allReqMsgs"
    and su: "ServeConn_setup P srv allowed c = (c0, st, gs)" "gs \<noteq> []"
    and later: "keeps c0 c1"
    and req: "UnmarshalRequest (pf_codec P) (pf_registry P) r allowed = Inr m"
  shows "\<exists>c'. Send P srv (Suc (Suc n)) m c1 = Done c'"
proof -
  let ?eff = "if allowed = [] then srv_allReqMsgs else allowed"
  have psc: "c_psc c0 \<longleftrightarrow> isInType ?eff SubMsg \<or> isInType ?eff UnsbMsg"
    using su by (auto simp: ServeConn_setup_def Let_def split: prod.splits option.splits if_splits)
  have isin: "isInType l t \<longleftrightarrow> t \<in> set l" for l t by (induction l) auto
  have "filter IsRead allowed = allowed"
    using allowed by (auto simp: srv_allReqMsgs_def IsRead_def msg_type_defs intro!: filter_True)
  with UnmarshalRequest_Inr [OF req] have m: "struct_Type m = Some (msg_Type m)" "msg_Type m \<in> set ?eff"
    by (auto simp: allReqMsgs_def srv_allReqMsgs_def split: if_splits)
  then have "msg_Type m \<in> set srv_allReqMsgs" using allowed by (auto split: if_splits)
  with m(1) have "is_request m"
    by (cases m) (auto simp: srv_allReqMsgs_def msg_type_defs)
  moreover have "needs_psc m \<longrightarrow> c_psc c1"
    using m psc isin later by (cases m) (auto simp: keeps_def)
  moreover obtain e b where "request_op P (c_UUID c1) m (c_brokers c1) = (e, b)" by fastforce
  ultimately show ?thesis using Send_request [OF h] by blast
qed

theorem requests_never_panic_witness:
  "\<exists>c0 st gs r m c'. ServeConn_setup example_platform example_server [CallMsg] example_conn = (c0, st, gs)
     \<and> UnmarshalRequest example_codec init_registry r [CallMsg] = Inr m
     \<and> Send example_platform example_server 2 m c0 = Done c'"
proof -
  obtain c0 st gs where su: "ServeConn_setup example_platform example_server [CallMsg] example_conn
      = (c0, st, gs)" by (metis prod_cases3)
  moreover from this have "gs \<noteq> []"
    by (auto simp: ServeConn_setup_def example_platform_def example_brokers_def Let_def msg_type_defs)
  moreover obtain j where j: "encode_msg example_codec (Call example_call) = Some j"
    by (simp add: encode_msg_def encode_payload_def example_call_def encode_raw_def)
  moreover have "msg_Type (Call example_call) = CallMsg"
    by (simp add: msg_Type_def example_call_def NewMeta_def)
  then have "UnmarshalRequest example_codec init_registry (Some j) [CallMsg]
      = Inr (as_sent (Call example_call))"
    using unmarshalIf_encode [OF uuid_roundtrips_example wf_example_call j, of init_registry]
    by (simp add: UnmarshalRequest_def IsRead_def msg_type_defs)
  moreover have "srv_Handler example_server = None" by (simp add: example_server_def)
  moreover have "pf_codec example_platform = example_codec" "pf_registry example_platform = init_registry"
    by (simp_all add: example_platform_def)
  ultimately show ?thesis
    using requests_never_panic [of example_server "[CallMsg]" example_platform example_conn c0 st gs c0
        "Some j" "as_sent (Call example_call)" 0]
    by (fastforce simp: srv_allReqMsgs_def numeral_2_eq_2)
qed

text \<open>
  When only types that are no requests are given, the connection is set up without a
  pub-sub connection, while the read loop, which ignores those types, takes any request: a
  subscription then dereferences nil.
\<close>

lemma response_types_panic:
  assumes "srv_Handler srv = None" and "\<not> c_psc c" and "c_Vars c = None"
    and "ServeConn_setup P srv [ResMsg] c = (c0, st, gs)"
  shows "gs = [GoReceive] \<and> Send P srv (Suc n) (Sub m) c0 = Panicked nil_dereference c0
    \<and> UnmarshalRequest C reg r [ResMsg] = UnmarshalRequest C reg r []"
  using assms
  by (auto simp: ServeConn_setup_def ProcessMsg_def UnmarshalRequest_def IsRead_def msg_type_defs)



lemma header_surprises:
  "AllowedMessagesFromHeader ''foo'' = []"
  by code_simp

end
