(* ===== verification/Srvhandler.thy ===== *)
theory Srvhandler
  imports Server
begin

text \<open>
  The handlers of \<^verbatim>\<open>internal/srvhandler\<close> and the one \<^verbatim>\<open>cmd/juggler-server\<close>
  builds from them: chains, the recovery from panics, the logging of connections and
  messages. They keep the contract of a server's handlers, so that what holds of sessions
  holds with them too.
\<close>

section \<open>The handlers\<close>

fun Chain :: "'s handler list \<Rightarrow> 's handler" where
  "Chain [] send m c = Done c"
| "Chain (h # hs) send m c = and_then (h send m c) (Chain hs send m)"

definition panic_error :: "panic \<Rightarrow> err" where
  "panic_error p = (case p of PanicError e \<Rightarrow> e | PanicValue s \<Rightarrow> ErrText s)"

text \<open>\<open>counted\<close> says whether a map of metrics was given, which is then the server's.\<close>

definition PanicRecover ::
  "('c, 'b) platform \<Rightarrow> ('c, 'b) Conn handler \<Rightarrow> bool \<Rightarrow> ('c, 'b) Conn handler" where
  "PanicRecover P h counted send m c =
     (case h send m c of
        Panicked p c' \<Rightarrow>
          let c' = (if counted then addVar ''RecoveredPanics'' 1 c' else c') in
          Done (Conn_Close P (Some (panic_error p)) c')
      | out \<Rightarrow> out)"

definition logLine :: "string \<Rightarrow> ('c, 'b) Conn \<Rightarrow> ('c, 'b) Conn" where
  "logLine l c = c\<lparr>c_log := c_log c @ [l]\<rparr>"

definition LogMsg :: "('c, 'b) platform \<Rightarrow> ('c, 'b) Conn handler" where
  "LogMsg P send m c =
     (let id = uuid_String (pf_codec P);
          rest = id (msg_UUID m) @ '' '' @ Type_String (pf_registry P) (msg_Type m) in
      Done (if IsRead (msg_Type m) then logLine (id (c_UUID c) @ '': received message '' @ rest) c
            else if IsWrite (msg_Type m) then logLine (id (c_UUID c) @ '': sending message '' @ rest) c
            else c))"

text \<open>
  \<^verbatim>\<open>LogConn\<close>, a callback for the states: what it logs, from the remote address and the
  quoted subprotocol of the websocket and the text of the error.
\<close>

definition LogConn :: "codec \<Rightarrow> string \<Rightarrow> string \<Rightarrow> ('c, 'b) Conn \<Rightarrow> ConnState \<Rightarrow> string list" where
  "LogConn C addr quoted c st =
     (case st of
        Connected \<Rightarrow> [uuid_String C (c_UUID c) @ '': connected from '' @ addr
                       @ '' with subprotocol '' @ quoted]
      | Closed \<Rightarrow> [uuid_String C (c_UUID c) @ '': closing from '' @ addr @ '' with error ''
                    @ (case c_CloseErr c of None \<Rightarrow> ''<nil>'' | Some e \<Rightarrow> err_Error e)]
      | _ \<Rightarrow> [])"

section \<open>The handler of juggler-server\<close>

text \<open>
  \<^verbatim>\<open>newHandler\<close>: a call of the close URI sends a close message on the websocket
  (\<open>control\<close>, of the websocket library, with the deadline relative to now if there is one)
  and a call of the panic URI panics.
\<close>

definition process_call ::
  "('c, 'b) platform \<Rightarrow> ('c, 'b) Server \<Rightarrow> (duration option \<Rightarrow> 'c \<Rightarrow> err option \<times> 'c)
     \<Rightarrow> string \<Rightarrow> string \<Rightarrow> duration \<Rightarrow> ('c, 'b) Conn handler" where
  "process_call P srv control closeURI panicURI writeTimeout send m c =
     (case m of
        Call k \<Rightarrow>
          if call_URI k = closeURI then
            (let deadline = (if writeTimeout = 0 then None else Some writeTimeout);
                 (e, ws) = control deadline (lk_conn (c_lk c));
                 c = c\<lparr>c_lk := (c_lk c)\<lparr>lk_conn := ws\<rparr>\<rparr> in
             Done (case e of None \<Rightarrow> c
                   | Some e \<Rightarrow> logLine (''WriteControl failed: '' @ err_Error e) c))
          else if call_URI k = panicURI then Panicked (PanicValue ''called panic URI'') c
          else ProcessMsg P srv send m c
      | _ \<Rightarrow> ProcessMsg P srv send m c)"

definition newHandler ::
  "('c, 'b) platform \<Rightarrow> ('c, 'b) Server \<Rightarrow> (duration option \<Rightarrow> 'c \<Rightarrow> err option \<times> 'c)
     \<Rightarrow> string \<Rightarrow> string \<Rightarrow> duration \<Rightarrow> bool \<Rightarrow> ('c, 'b) Conn handler" where
  "newHandler P srv control closeURI panicURI writeTimeout noLog =
     (let process = process_call P srv control closeURI panicURI writeTimeout;
          chain = (if noLog then [process] else [LogMsg P, process]) in
      PanicRecover P (Chain chain) False)"

section \<open>The contract\<close>

lemma keeps_logLine [simp]: "keeps c (logLine l c)"
  by (simp add: logLine_def)

lemma lawful_LogMsg: "lawful (LogMsg P send)"
  by (simp add: lawful_def LogMsg_def Let_def)

lemma lawful_Chain:
  assumes "\<And>h. h \<in> set hs \<Longrightarrow> lawful (h send)"
  shows "lawful (Chain hs send)"
  using assms
proof (induction hs)
  case Nil
  then show ?case by (simp add: lawful_def)
next
  case (Cons h hs)
  then show ?case
    unfolding lawful_def by (auto intro!: outcome_all_and_then)
qed

lemma lawful_PanicRecover: "lawful (h send) \<Longrightarrow> lawful (PanicRecover P h counted send)"
  unfolding lawful_def PanicRecover_def
proof (intro allI)
  fix m c
  assume "\<forall>m c. outcome_all (keeps c) (h send m c)"
  then have "outcome_all (keeps c) (h send m c)" by blast
  then show "outcome_all (keeps c) (case h send m c of
        Panicked p c' \<Rightarrow>
          let c' = (if counted then addVar ''RecoveredPanics'' 1 c' else c') in
          Done (Conn_Close P (Some (panic_error p)) c')
      | out \<Rightarrow> out)"
    by (cases "h send m c") (auto simp: Let_def gauges_def intro!: keeps_then_Close)
qed

lemma lawful_process_call:
  assumes "lawful send"
  shows "lawful (process_call P srv control closeURI panicURI writeTimeout send)"
  unfolding lawful_def
proof (intro allI)
  fix m c
  have process: "outcome_all (keeps c) (ProcessMsg P srv send m c)"
    using lawfulD [OF lawful_ProcessMsg [OF assms]] .
  have log: "keeps c (logLine l (c\<lparr>c_lk := lk\<rparr>))" for l lk
    using keeps_trans [OF keeps_upd(6) keeps_logLine] .
  show "outcome_all (keeps c) (process_call P srv control closeURI panicURI writeTimeout send m c)"
    using process
    by (auto simp: process_call_def Let_def log split: msg.splits prod.splits option.splits)
qed

lemma lawful_newHandler:
  "lawful send \<Longrightarrow> lawful (newHandler P srv control closeURI panicURI writeTimeout noLog send)"
  unfolding newHandler_def Let_def
  by (intro lawful_PanicRecover lawful_Chain) (auto simp: lawful_LogMsg lawful_process_call split: if_splits)

interpretation command_server: lawful_server P
  "srv\<lparr>srv_Handler := Some (newHandler P srv' control closeURI panicURI writeTimeout noLog)\<rparr>"
  for P :: "('c, 'b) platform" and srv srv' control closeURI panicURI writeTimeout noLog
  by unfold_locales (simp add: server_handler_def lawful_newHandler)

section \<open>Totality\<close>

definition answers :: "'s sender \<Rightarrow> bool" where
  "answers send \<longleftrightarrow> (\<forall>m c. is_response m \<longrightarrow> (\<exists>c'. send m c = Done c'))"

lemma map_state_fuel [simp]: "map_state f out = OutOfFuel \<longleftrightarrow> out = OutOfFuel"
  by (cases out) simp_all

lemma body_fuel:
  assumes "answers send"
  shows "ProcessMsg_body P srv send m c \<noteq> OutOfFuel"
proof (cases "is_request m")
  case True
  show ?thesis
  proof (cases "needs_psc m \<longrightarrow> c_psc c")
    case psc: True
    have "\<exists>c'. send (reply_msg u m e) x = Done c'" for u e x
      using assms by (simp add: answers_def)
    then show ?thesis
      by (auto simp: body_request [OF True psc] split: prod.splits) (metis outcome.distinct(4))
  next
    case False
    then show ?thesis by (cases m) auto
  qed
next
  case False
  then show ?thesis
    using doWrite_written [of P srv m c] by (cases m) auto
qed

lemma ProcessMsg_fuel: "answers send \<Longrightarrow> ProcessMsg P srv send m c \<noteq> OutOfFuel"
  by (simp add: ProcessMsg_def body_fuel)

lemma process_call_fuel:
  "answers send \<Longrightarrow> process_call P srv control closeURI panicURI t send m c \<noteq> OutOfFuel"
  by (auto simp: process_call_def Let_def ProcessMsg_fuel split: msg.splits prod.splits)

lemma process_call_response:
  "is_response m \<Longrightarrow> \<exists>c'. process_call P srv control closeURI panicURI t send m c = Done c'"
  using ProcessMsg_response [of m P srv c send] by (cases m) (auto simp: process_call_def)

lemma LogMsg_Done: "\<exists>c'. LogMsg P send m c = Done c'"
  by (simp add: LogMsg_def Let_def)

lemma Chain_Nil: "Chain [] send m = Done"
  by (simp add: fun_eq_iff)

lemma newHandler_Done:
  assumes "\<And>c. process_call P srv control closeURI panicURI t send m c \<noteq> OutOfFuel"
  shows "\<exists>c'. newHandler P srv control closeURI panicURI t noLog send m c = Done c'"
proof -
  let ?proc = "process_call P srv control closeURI panicURI t"
  obtain c1 where c1: "(if noLog then Done c else LogMsg P send m c) = Done c1"
    using LogMsg_Done [of P send m c] by (cases noLog) auto
  have "Chain (if noLog then [?proc] else [LogMsg P, ?proc]) send m c
      = and_then (?proc send m c1) Done"
    using c1 by (cases noLog) (auto simp: Chain_Nil)
  with assms [of c1] show ?thesis
    by (cases "?proc send m c1") (auto simp: newHandler_def PanicRecover_def Let_def)
qed

section \<open>Properties\<close>

text \<open>
  C25. A recovered handler never panics: what a handler does without a panic is left as it
  is, and a panic becomes a close of the connection with the value of the panic, as an error
  (the first close keeping its error), and one more in the metrics when they are given.
\<close>

theorem panics_recovered:
  shows "(\<forall>p c'. PanicRecover P h counted send m c \<noteq> Panicked p c')
    \<and> (\<forall>c'. h send m c = Done c' \<longrightarrow> PanicRecover P h counted send m c = Done c')
    \<and> (\<forall>p c'. h send m c = Panicked p c' \<longrightarrow>
         (\<exists>c''. PanicRecover P h counted send m c = Done c'' \<and> c_closed c''
            \<and> c_CloseErr c'' = (if c_closed c' then c_CloseErr c' else Some (panic_error p))
            \<and> (c_Vars c' \<noteq> None \<longrightarrow> counted
                 \<longrightarrow> var_of ''RecoveredPanics'' c'' = i64 (var_of ''RecoveredPanics'' c' + 1))))"
  by (cases "h send m c") (auto simp: PanicRecover_def Let_def var_of_addVar)

theorem panics_recovered_witness:
  "\<exists>c''. PanicRecover example_platform (\<lambda>_ _ c. Panicked (PanicValue ''failed!'') c) True
       (\<lambda>_ c. Done c) (Call example_call) example_conn = Done c''
     \<and> c_CloseErr c'' = Some (ErrText ''failed!'') \<and> var_of ''RecoveredPanics'' c'' = 1"
proof -
  let ?h = "\<lambda>_ _ c. Panicked (PanicValue ''failed!'') c" and ?s = "\<lambda>_ c. Done c"
  have "?h ?s (Call example_call) example_conn = Panicked (PanicValue ''failed!'') example_conn" by simp
  with panics_recovered [of example_platform ?h True ?s "Call example_call" example_conn]
  show ?thesis
    by (fastforce simp: example_conn_def newConn_def var_of_def panic_error_def in_i64_def)
qed



end
