(* ===== verification/Metrics.thy ===== *)
theory Metrics
  imports Srvhandler
begin

text \<open>
  The metrics of a server with any number of connections (\<^verbatim>\<open>Server.Vars\<close>): one map of
  counters is shared by the sessions, whose goroutines interleave. What the handlers do to the
  counters of messages is the contract \<open>counting_server\<close>, which the standard processing and the
  handler of \<^verbatim>\<open>cmd/juggler-server\<close> satisfy, and from it the balance of the counters follows
  for every state of the server.
\<close>

section \<open>The counters of a message\<close>

text \<open>The standard types have their names whatever else is registered.\<close>

definition std_named :: "registry \<Rightarrow> bool" where
  "std_named reg \<longleftrightarrow> (\<forall>t. IsStd t \<longrightarrow> Type_String reg t = Type_String init_registry t)"

lemma std_named_init: "std_named init_registry"
  by (simp add: std_named_def)

lemma std_named_Register:
  assumes "wf_registry reg" and "std_named reg" and "Register name reg = Inr (t, reg')"
  shows "std_named reg'"
proof -
  have "t = nextCustomMsg reg" and l: "map_of (lookupType reg') = (map_of (lookupType reg))(t \<mapsto> name)"
    using assms(3) by (auto simp: Register_def Let_def split: if_splits)
  then have "\<not> IsStd t"
    using assms(1) by (auto simp: wf_registry_def IsStd_def IsRead_def IsWrite_def msg_type_defs)
  then have "Type_String reg' t' = Type_String reg t'" if "IsStd t'" for t'
    using that l by (auto simp: Type_String_def)
  with assms(2) show ?thesis by (simp add: std_named_def)
qed

text \<open>How much a message of a type adds to a counter.\<close>

definition msg_delta :: "msg_type \<Rightarrow> string \<Rightarrow> int" where
  "msg_delta t k =
     of_bool (k = ''Msgs'') + of_bool (IsRead t \<and> k = ''MsgsRead'') + of_bool (IsWrite t \<and> k = ''MsgsWrite'')
     + of_bool (IsStd t \<and> k = ''Msgs'' @ Type_String init_registry t)"

definition read_counters :: "string list" where
  "read_counters = [''MsgsCALL'', ''MsgsPUB'', ''MsgsSUB'', ''MsgsUNSB'']"

definition write_counters :: "string list" where
  "write_counters = [''MsgsACK'', ''MsgsNACK'', ''MsgsRES'', ''MsgsEVNT'']"

definition msg_counters :: "string set" where
  "msg_counters =
     {''Msgs'', ''MsgsRead'', ''MsgsWrite'', ''RecoveredPanics''} \<union> set read_counters \<union> set write_counters"

text \<open>\<open>counted ts c c'\<close>: from \<open>c\<close> to \<open>c'\<close> the counters have grown by messages of the types
  \<open>ts\<close>.\<close>

definition counted :: "msg_type list \<Rightarrow> ('c, 'b) Conn \<Rightarrow> ('c, 'b) Conn \<Rightarrow> bool" where
  "counted ts c c' \<longleftrightarrow>
     (c_Vars c' = None \<longleftrightarrow> c_Vars c = None)
     \<and> (c_Vars c \<noteq> None \<longrightarrow> (\<forall>k \<in> msg_counters. in_i64 (var_of k c)
          \<longrightarrow> var_of k c' = i64 (var_of k c + (\<Sum>t\<leftarrow>ts. msg_delta t k))))"

lemma counted_refl: "counted [] c c"
  by (simp add: counted_def)

lemma counted_trans:
  assumes "counted ts a b" and "counted us b c"
  shows "counted (ts @ us) a c"
proof -
  have "var_of k c = i64 (var_of k a + (\<Sum>t\<leftarrow>ts @ us. msg_delta t k))"
    if "c_Vars a \<noteq> None" "k \<in> msg_counters" "in_i64 (var_of k a)" for k
    using that assms by (auto simp: counted_def add.assoc)
  then show ?thesis using assms by (simp add: counted_def)
qed

lemma counted_same:
  assumes "c_Vars c' = c_Vars c"
  shows "counted [] c c'" and "counted ts c' c'' = counted ts c c''" and "counted ts c'' c' = counted ts c'' c"
  using assms by (simp_all add: counted_def var_of_def)

lemma counted_addVar:
  assumes "k \<notin> msg_counters"
  shows "counted ts c (addVar k d c') = counted ts c c'"
  using assms by (cases "c_Vars c'") (auto simp: counted_def var_of_def)

lemma counted_Close [simp]: "counted ts c (Conn_Close P e c') = counted ts c c'"
  by (rule counted_same(3)) simp

lemma var_of_add:
  "c_Vars c \<noteq> None \<Longrightarrow> var_of k (addVar k' d c) = (if k = k' then i64 (var_of k c + d) else var_of k c)"
  by (auto simp: var_of_def)

lemma counted_save:
  assumes reg: "std_named reg" and t: "IsStd (msg_Type m)"
  shows "counted [msg_Type m] c (saveMsgMetrics reg m c)"
proof (cases "c_Vars c")
  case (Some f)
  have name: "Type_String reg (msg_Type m) = Type_String init_registry (msg_Type m)"
    using reg t by (simp add: std_named_def)
  have xor: "IsRead (msg_Type m) = (\<not> IsWrite (msg_Type m))"
    using t by (auto simp: IsStd_def IsRead_def IsWrite_def msg_type_defs)
  have "''Msgs'' @ Type_String init_registry (msg_Type m) \<notin> {''Msgs'', ''MsgsRead'', ''MsgsWrite''}"
    using t by (auto simp: IsStd_def IsRead_def IsWrite_def msg_type_defs Type_String_def init_registry_def)
  then show ?thesis
    using Some t xor
    by (auto simp: counted_def saveMsgMetrics_def msg_delta_def name Let_def var_of_add)
qed (simp add: counted_def saveMsgMetrics_def Let_def)

lemma counted_slow [simp]: "counted ts c (slowMsgMetrics P m c') = counted ts c c'"
proof -
  have other: "''SlowProcessMsg'' @ x \<notin> msg_counters" for x
    by (simp add: msg_counters_def read_counters_def write_counters_def)
  have "counted ts c (c'\<lparr>c_ticks := n\<rparr>) = counted ts c c'" for n
    by (rule counted_same(3)) simp
  then show ?thesis
    using other [of "''''"] other by (simp add: slowMsgMetrics_def Let_def counted_addVar)
qed

lemma counted_doWrite: "outcome_all (counted [] c) (doWrite P srv m c)"
proof -
  have "''WriteLockTimeouts'' \<notin> msg_counters" "''WriteLimitExceeded'' \<notin> msg_counters"
    by (simp_all add: msg_counters_def read_counters_def write_counters_def)
  then show ?thesis
    by (auto simp: doWrite_def Let_def counted_addVar counted_same(1)
        split: sum.splits option.splits err.splits)
qed

section \<open>The contract of the handlers\<close>

text \<open>
  What a sender does with a message whose struct goes with its type: a response is counted once;
  a request is counted once together with its answer, or, when the handler may drop a request,
  not at all or without an answer.
\<close>

definition counts_responses :: "('c, 'b) Conn sender \<Rightarrow> bool" where
  "counts_responses send \<longleftrightarrow>
     (\<forall>m c. is_response m \<and> struct_Type m = Some (msg_Type m) \<longrightarrow> outcome_all (counted [msg_Type m] c) (send m c))"

definition request_trace :: "bool \<Rightarrow> msg_type \<Rightarrow> msg_type list \<Rightarrow> bool" where
  "request_trace drops t ts \<longleftrightarrow> ts \<in> {[t, AckMsg], [t, NackMsg]} \<or> drops \<and> ts \<in> {[], [t]}"

definition counts_requests :: "bool \<Rightarrow> ('c, 'b) Conn sender \<Rightarrow> bool" where
  "counts_requests drops send \<longleftrightarrow>
     (\<forall>m c c'. is_request m \<and> struct_Type m = Some (msg_Type m) \<and> send m c = Done c'
        \<longrightarrow> (\<exists>ts. request_trace drops (msg_Type m) ts \<and> counted ts c c'))"

locale counting_server = lawful_server P srv
  for P :: "('c, 'b) platform" and srv :: "('c, 'b) Server" +
  fixes drops :: bool
  assumes responses: "std_named (pf_registry P) \<Longrightarrow> counts_responses send \<Longrightarrow> counts_responses (server_handler P srv send)"
    and requests: "std_named (pf_registry P) \<Longrightarrow> counts_responses send \<Longrightarrow> counts_requests drops (server_handler P srv send)"
begin

lemma Send_Suc: "Send P srv (Suc n) = server_handler P srv (Send P srv n)"
  by (auto simp: fun_eq_iff server_handler_def split: option.splits)

lemma Send_responses:
  assumes "std_named (pf_registry P)"
  shows "counts_responses (Send P srv n)"
proof (induction n)
  case 0
  show ?case by (simp add: counts_responses_def)
next
  case (Suc n)
  then show ?case unfolding Send_Suc by (rule responses [OF assms])
qed

lemma Send_requests:
  assumes "std_named (pf_registry P)"
  shows "counts_requests drops (Send P srv n)"
proof (cases n)
  case 0
  then show ?thesis by (simp add: counts_requests_def)
next
  case (Suc k)
  then show ?thesis unfolding Suc Send_Suc by (intro requests Send_responses assms)
qed

end

section \<open>The standard processing\<close>

lemma std_response: "is_response m \<Longrightarrow> struct_Type m = Some (msg_Type m) \<Longrightarrow> IsStd (msg_Type m)"
  by (cases m) (auto simp: IsStd_def IsWrite_def msg_type_defs)

lemma std_request: "is_request m \<Longrightarrow> struct_Type m = Some (msg_Type m) \<Longrightarrow> IsStd (msg_Type m)"
  by (cases m) (auto simp: IsStd_def IsRead_def msg_type_defs)

lemma outcome_counted:
  assumes "counted ts c b" and "outcome_all (counted us b) out"
  shows "outcome_all (counted (ts @ us) c) out"
  using assms by (cases out) (auto intro: counted_trans)

lemma ProcessMsg_responses:
  assumes "std_named (pf_registry P)"
  shows "counts_responses (ProcessMsg P srv send)"
  unfolding counts_responses_def
proof (intro allI impI)
  fix m :: msg and c :: "('a, 'b) Conn"
  assume m: "is_response m \<and> struct_Type m = Some (msg_Type m)"
  let ?s = "saveMsgMetrics (pf_registry P) m c"
  have "counted [msg_Type m] c ?s"
    using m assms std_response by (intro counted_save) auto
  from outcome_counted [OF this counted_doWrite, of P srv m]
  have "outcome_all (counted [msg_Type m] c) (ProcessMsg P srv send m c)" if "c_Vars c \<noteq> None"
    using m that by (cases "doWrite P srv m ?s") (auto simp: ProcessMsg_def body_response)
  moreover have "outcome_all (counted [msg_Type m] c) (ProcessMsg P srv send m c)" if "c_Vars c = None"
    using counted_doWrite [of c P srv m] m that
    by (cases "doWrite P srv m c") (auto simp: ProcessMsg_def body_response counted_def)
  ultimately show "outcome_all (counted [msg_Type m] c) (ProcessMsg P srv send m c)" by blast
qed

text \<open>A request that is processed is counted; unless the processing panics, so is its answer.\<close>

lemma body_counted:
  assumes send: "counts_responses send" and m: "is_request m" and s: "counted [t] c s"
    and psc: "needs_psc m \<longrightarrow> c_psc s"
  shows "\<exists>a \<in> {AckMsg, NackMsg}. outcome_all (counted [t, a] c) (ProcessMsg_body P srv send m s)"
proof -
  obtain e b where op: "request_op P (c_UUID s) m (c_brokers s) = (e, b)" by fastforce
  let ?r = "reply_msg (dr_uuid (pf_draws P) (c_ticks s)) m e" and ?c = "s\<lparr>c_brokers := b, c_ticks := Suc (c_ticks s)\<rparr>"
  have r: "struct_Type ?r = Some (msg_Type ?r)" "msg_Type ?r \<in> {AckMsg, NackMsg}"
    by (cases e; simp add: reply_msg_def msg_Type_def NewAck_def NewNack_def NewMeta_def Let_def split: msg.split)+
  then have "outcome_all (counted [msg_Type ?r] ?c) (send ?r ?c)"
    using send is_response_reply by (simp add: counts_responses_def)
  moreover have "counted [t] c ?c" using s counted_same(3) [of ?c s] by simp
  ultimately have "outcome_all (counted [t, msg_Type ?r] c) (send ?r ?c)"
    using outcome_counted [of "[t]" c ?c "[msg_Type ?r]"] by simp
  moreover have "ProcessMsg_body P srv send m s = send ?r ?c"
    using body_request [OF m psc, of P srv send] op by simp
  ultimately show ?thesis using r(2) by metis
qed

lemma ProcessMsg_request:
  assumes reg: "std_named (pf_registry P)" and send: "counts_responses send"
    and m: "is_request m" "struct_Type m = Some (msg_Type m)"
  shows "ProcessMsg P srv send m c = Done c' \<Longrightarrow> \<exists>ts. request_trace False (msg_Type m) ts \<and> counted ts c c'"
    and "ProcessMsg P srv send m c = Panicked p c' \<Longrightarrow> \<exists>ts. request_trace True (msg_Type m) ts \<and> counted ts c c'"
proof -
  define s where "s = (if c_Vars c = None then c else saveMsgMetrics (pf_registry P) m c)"
  define out where "out = ProcessMsg_body P srv send m s"
  have s: "counted [msg_Type m] c s"
    using counted_save [OF reg std_request [OF m], of c] by (auto simp: s_def counted_def)
  define slow where "slow = (if c_Vars c = None then id else slowMsgMetrics P m)"
  have slow: "counted ts c (slow x) = counted ts c x" for ts x by (simp add: slow_def)
  have proc: "ProcessMsg P srv send m c = map_state slow out"
    by (cases "ProcessMsg_body P srv send m c") (simp_all add: ProcessMsg_def slow_def out_def s_def)
  have ok: "\<exists>a \<in> {AckMsg, NackMsg}. outcome_all (counted [msg_Type m, a] c) out" if "needs_psc m \<longrightarrow> c_psc s"
    unfolding out_def by (rule body_counted [OF send m(1) s that])
  have nil: "out = Panicked nil_dereference s" if "\<not> (needs_psc m \<longrightarrow> c_psc s)"
    using that unfolding out_def by (cases m) simp_all
  show "\<exists>ts. request_trace False (msg_Type m) ts \<and> counted ts c c'" if run: "ProcessMsg P srv send m c = Done c'"
  proof -
    obtain x where x: "out = Done x" "c' = slow x" using run unfolding proc by (cases out) simp_all
    then have "needs_psc m \<longrightarrow> c_psc s" using nil by fastforce
    with ok x slow show ?thesis by (auto simp: request_trace_def)
  qed
  show "\<exists>ts. request_trace True (msg_Type m) ts \<and> counted ts c c'" if run: "ProcessMsg P srv send m c = Panicked p c'"
  proof -
    obtain x where x: "out = Panicked p x" "c' = slow x" using run unfolding proc by (cases out) simp_all
    show ?thesis
    proof (cases "needs_psc m \<longrightarrow> c_psc s")
      case True
      with ok x slow show ?thesis by (auto simp: request_trace_def)
    next
      case False
      with nil x slow s show ?thesis by (auto simp: request_trace_def)
    qed
  qed
qed

interpretation standard_counts: counting_server P "srv\<lparr>srv_Handler := None\<rparr>" False
  for P :: "('c, 'b) platform" and srv
proof
  fix send :: "('c, 'b) Conn sender"
  assume reg: "std_named (pf_registry P)" and send: "counts_responses send"
  let ?srv = "srv\<lparr>srv_Handler := None\<rparr>"
  show "counts_responses (server_handler P ?srv send)"
    using ProcessMsg_responses [OF reg] by (simp add: server_handler_def)
  show "counts_requests False (server_handler P ?srv send)"
    using ProcessMsg_request(1) [OF reg send, of _ ?srv] unfolding counts_requests_def server_handler_def by simp
qed

section \<open>The handler of the command\<close>

text \<open>A panic is recovered after the request was counted, or before it.\<close>

lemma process_call_other:
  "is_response m \<Longrightarrow> process_call P srv control closeURI panicURI t send m c = ProcessMsg P srv send m c"
  by (cases m) (simp_all add: process_call_def)

lemma process_call_counted:
  assumes "std_named (pf_registry P)" and "counts_responses send"
    and "is_request m" "struct_Type m = Some (msg_Type m)"
    and "process_call P srv control closeURI panicURI t send m c = Done c'
      \<or> process_call P srv control closeURI panicURI t send m c = Panicked p c'"
  shows "\<exists>ts. request_trace True (msg_Type m) ts \<and> counted ts c c'"
proof -
  have proc: "\<exists>ts. request_trace True (msg_Type m) ts \<and> counted ts c c'"
    if "ProcessMsg P srv send m c = Done c' \<or> ProcessMsg P srv send m c = Panicked p c'"
    using that ProcessMsg_request [OF assms(1-4), of srv c] by (fastforce simp: request_trace_def)
  have none: ?thesis if "c_Vars c' = c_Vars c"
    using counted_same(1) [OF that] by (auto simp: request_trace_def)
  show ?thesis
  proof (cases "process_call P srv control closeURI panicURI t send m c = ProcessMsg P srv send m c")
    case True
    with assms(5) show ?thesis by (intro proc) simp
  next
    case False
    with assms(5) have "c_Vars c' = c_Vars c"
      by (auto simp: process_call_def logLine_def Let_def split: msg.splits prod.splits option.splits if_splits)
    then show ?thesis by (rule none)
  qed
qed

lemma Chain_logged:
  "\<exists>c1. c_Vars c1 = c_Vars c
     \<and> Chain (if noLog then [h] else [LogMsg P, h]) send m c = and_then (h send m c1) Done"
proof (cases noLog)
  case False
  obtain c1 where "LogMsg P send m c = Done c1" "c_Vars c1 = c_Vars c"
    by (simp add: LogMsg_def logLine_def Let_def)
  with False show ?thesis by (intro exI [of _ c1]) (simp add: Chain_Nil)
qed (auto simp: Chain_Nil)

lemma newHandler_runs:
  "\<exists>c1. c_Vars c1 = c_Vars c
     \<and> (\<forall>c'. newHandler P srv control closeURI panicURI t noLog send m c = Done c' \<longrightarrow>
          (\<exists>x p. (process_call P srv control closeURI panicURI t send m c1 = Done x
             \<or> process_call P srv control closeURI panicURI t send m c1 = Panicked p x) \<and> c_Vars c' = c_Vars x))
     \<and> (\<forall>p c'. newHandler P srv control closeURI panicURI t noLog send m c \<noteq> Panicked p c')"
proof -
  let ?h = "process_call P srv control closeURI panicURI t"
  obtain c1 where c1: "c_Vars c1 = c_Vars c"
    "Chain (if noLog then [?h] else [LogMsg P, ?h]) send m c = and_then (?h send m c1) Done"
    using Chain_logged [of c noLog ?h P send m] by blast
  then show ?thesis
    by (intro exI [of _ c1], cases "?h send m c1") (auto simp: newHandler_def PanicRecover_def Let_def)
qed

interpretation command_counts: counting_server P
  "srv\<lparr>srv_Handler := Some (newHandler P srv' control closeURI panicURI writeTimeout noLog)\<rparr>" True
  for P :: "('c, 'b) platform" and srv srv' control closeURI panicURI writeTimeout noLog
proof
  fix send :: "('c, 'b) Conn sender"
  assume reg: "std_named (pf_registry P)" and send: "counts_responses send"
  let ?new = "newHandler P srv' control closeURI panicURI writeTimeout noLog"
  let ?proc = "process_call P srv' control closeURI panicURI writeTimeout"
  have new: "server_handler P (srv\<lparr>srv_Handler := Some ?new\<rparr>) = ?new" by (simp add: server_handler_def)
  have "counts_responses (?new send)"
    unfolding counts_responses_def
  proof (intro allI impI)
    fix m :: msg and c :: "('c, 'b) Conn"
    assume m: "is_response m \<and> struct_Type m = Some (msg_Type m)"
    obtain c1 where c1: "c_Vars c1 = c_Vars c" "\<forall>p c'. ?new send m c \<noteq> Panicked p c'"
      "\<forall>c'. ?new send m c = Done c' \<longrightarrow>
         (\<exists>x p. (?proc send m c1 = Done x \<or> ?proc send m c1 = Panicked p x) \<and> c_Vars c' = c_Vars x)"
      using newHandler_runs [of c P srv' control closeURI panicURI writeTimeout noLog send m] by auto
    have "outcome_all (counted [msg_Type m] c1) (?proc send m c1)"
      using ProcessMsg_responses [OF reg, of srv' send] m process_call_other [of m P srv']
      by (simp add: counts_responses_def)
    with c1 show "outcome_all (counted [msg_Type m] c) (?new send m c)"
      by (cases "?new send m c") (fastforce simp: counted_def var_of_def)+
  qed
  moreover have "counts_requests True (?new send)"
    unfolding counts_requests_def
  proof (intro allI impI, elim conjE)
    fix m :: msg and c c' :: "('c, 'b) Conn"
    assume m: "is_request m" "struct_Type m = Some (msg_Type m)" and run: "?new send m c = Done c'"
    obtain c1 x p where c1: "c_Vars c1 = c_Vars c"
      and x: "?proc send m c1 = Done x \<or> ?proc send m c1 = Panicked p x" "c_Vars c' = c_Vars x"
      using newHandler_runs [of c P srv' control closeURI panicURI writeTimeout noLog send m] run by auto
    obtain ts where "request_trace True (msg_Type m) ts" "counted ts c1 x"
      using process_call_counted [OF reg send m x(1)] by blast
    then show "\<exists>ts. request_trace True (msg_Type m) ts \<and> counted ts c c'"
      using counted_same(2) [OF c1] counted_same(3) [OF x(2)] by blast
  qed
  ultimately show "counts_responses (server_handler P (srv\<lparr>srv_Handler := Some ?new\<rparr>) send)"
    "counts_requests True (server_handler P (srv\<lparr>srv_Handler := Some ?new\<rparr>) send)"
    unfolding new by blast+
qed

section \<open>The server\<close>

text \<open>
  The sessions of a server and what they share: the metrics and the source of random draws. The
  brokers are shared with other processes too, so that their state may be any when a session
  takes a step.
\<close>

record ('c, 'b) serving =
  sv_Vars :: vars
  sv_ticks :: nat
  sv_sessions :: "('c, 'b) session list"

definition enter :: "('c, 'b) serving \<Rightarrow> 'b \<Rightarrow> ('c, 'b) session \<Rightarrow> ('c, 'b) session" where
  "enter S b s = s\<lparr>ses_conn := (ses_conn s)\<lparr>c_Vars := sv_Vars S, c_ticks := sv_ticks S, c_brokers := b\<rparr>\<rparr>"

definition leave :: "('c, 'b) session \<Rightarrow> ('c, 'b) session list \<Rightarrow> ('c, 'b) serving" where
  "leave s ss = \<lparr>sv_Vars = c_Vars (ses_conn s), sv_ticks = c_ticks (ses_conn s), sv_sessions = ss\<rparr>"

definition start_serving :: "('c, 'b) serving" where
  "start_serving = \<lparr>sv_Vars = Some (\<lambda>_. 0), sv_ticks = 0, sv_sessions = []\<rparr>"

text \<open>\<open>serving_accept\<close>: \<^verbatim>\<open>ServeConn\<close> for a new connection; \<open>serving_session\<close>: a step of one
  of the sessions.\<close>

inductive serving_step ::
  "('c, 'b) platform \<Rightarrow> ('c, 'b) Server \<Rightarrow> nat \<Rightarrow> ('c, 'b) serving \<Rightarrow> ('c, 'b) serving \<Rightarrow> bool"
  for P srv n where
  serving_accept: "s = ServeConn_start P srv u ws b (sv_Vars S) allowed
    \<Longrightarrow> s' = s\<lparr>ses_conn := start_goros (ses_goros s) (ses_conn s)\<rparr>
    \<Longrightarrow> serving_step P srv n S ((leave s' (sv_sessions S @ [s']))\<lparr>sv_ticks := sv_ticks S\<rparr>)"
| serving_session: "i < length (sv_sessions S) \<Longrightarrow> serve_step P srv n (enter S b (sv_sessions S ! i)) s'
    \<Longrightarrow> serving_step P srv n S (leave s' ((sv_sessions S)[i := s']))"

inductive serving_run :: "('c, 'b) platform \<Rightarrow> ('c, 'b) Server \<Rightarrow> nat \<Rightarrow> ('c, 'b) serving \<Rightarrow> bool"
  for P srv n where
  serving_start: "serving_run P srv n start_serving"
| serving_next: "serving_run P srv n S \<Longrightarrow> serving_step P srv n S S' \<Longrightarrow> serving_run P srv n S'"

inductive_cases serve_stepE: "serve_step P srv n s s'"

text \<open>The gauges count the sessions, and their goroutines, that are not over; the counters of
  messages are those of some messages that were processed.\<close>

definition active :: "('c, 'b) session \<Rightarrow> int" where
  "active s = (if ses_returned s then 0 else 1)"

definition goros :: "('c, 'b) session \<Rightarrow> int" where
  "goros s = int (length (ses_goros s))"

definition gauges_ok :: "(string \<Rightarrow> int) \<Rightarrow> ('c, 'b) session list \<Rightarrow> bool" where
  "gauges_ok f ss \<longleftrightarrow>
     f ''ActiveConns'' = i64 (\<Sum>s\<leftarrow>ss. active s) \<and> f ''TotalConns'' = i64 (int (length ss))
     \<and> f ''ActiveConnGoros'' = i64 (\<Sum>s\<leftarrow>ss. goros s)"

definition counts_ok :: "(string \<Rightarrow> int) \<Rightarrow> msg_type list \<Rightarrow> bool" where
  "counts_ok f ts \<longleftrightarrow> (\<forall>k \<in> msg_counters. f k = i64 (\<Sum>t\<leftarrow>ts. msg_delta t k))"

definition answered :: "bool \<Rightarrow> msg_type list \<Rightarrow> bool" where
  "answered drops ts \<longleftrightarrow>
     (let n = length (filter IsRead ts); a = length (filter (\<lambda>t. t \<in> {AckMsg, NackMsg}) ts) in
      if drops then a \<le> n else a = n)
     \<and> list_all IsStd ts"

text \<open>What a step of a session adds to the gauges.\<close>

definition gauged :: "('c, 'b) session \<Rightarrow> ('c, 'b) session \<Rightarrow> bool" where
  "gauged s s' \<longleftrightarrow>
     (\<forall>f. c_Vars (ses_conn s) = Some f \<longrightarrow> (\<exists>f'. c_Vars (ses_conn s') = Some f'
        \<and> f' ''TotalConns'' = f ''TotalConns''
        \<and> (in_i64 (f ''ActiveConns'') \<longrightarrow> f' ''ActiveConns'' = i64 (f ''ActiveConns'' + active s' - active s))
        \<and> (in_i64 (f ''ActiveConnGoros'')
             \<longrightarrow> f' ''ActiveConnGoros'' = i64 (f ''ActiveConnGoros'' + goros s' - goros s))))"

lemma gauged_conn:
  assumes "keeps (ses_conn s) c"
  shows "gauged s (s\<lparr>ses_conn := c\<rparr>)"
  using assms by (auto simp: gauged_def keeps_def gauges_def var_of_def active_def goros_def split: option.splits)

lemma gauged_end:
  assumes "g \<in> set (ses_goros s)"
  shows "gauged s (end_goro P g e s)"
proof -
  have "int (length (remove1 g (ses_goros s))) = int (length (ses_goros s)) - 1"
    using assms length_pos_if_in_set [OF assms]
    by (simp add: length_remove1 of_nat_diff Suc_leI del: length_greater_0_conv)
  then show ?thesis
    by (auto simp: gauged_def end_goro_def addVar_def active_def goros_def simp del: length_remove1)
qed

lemma gauged_return: "\<not> ses_returned s \<Longrightarrow> gauged s (ServeConn_return srv s)"
  by (auto simp: gauged_def ServeConn_return_def addVar_def active_def goros_def)

context counting_server
begin

lemma step_gauged: "serve_step P srv n s s' \<Longrightarrow> gauged s s'"
  by (elim serve_stepE)
    (auto intro!: gauged_conn gauged_end gauged_return dest: Send_keeps send_result_keeps send_event_keeps)

lemma send_result_counted:
  assumes "std_named (pf_registry P)" and "send_result P srv n rp c = Done c'"
  shows "counted [ResMsg] c c'"
proof -
  let ?m = "Res (NewRes (dr_uuid (pf_draws P) (c_ticks c)) rp)"
  have "is_response ?m \<and> struct_Type ?m = Some (msg_Type ?m)" and t: "msg_Type ?m = ResMsg"
    by (simp_all add: msg_Type_def NewRes_def NewMeta_def)
  with Send_responses [OF assms(1), of n] assms(2)
  have "counted [msg_Type ?m] (c\<lparr>c_ticks := Suc (c_ticks c)\<rparr>) c'"
    unfolding counts_responses_def send_result_def by (metis outcome_all.simps(1))
  then show ?thesis unfolding t using counted_same(2) [of "c\<lparr>c_ticks := Suc (c_ticks c)\<rparr>" c] by simp
qed

lemma send_event_counted:
  assumes "std_named (pf_registry P)" and "send_event P srv n ep c = Done c'"
  shows "counted [EvntMsg] c c'"
proof -
  let ?m = "Evnt (NewEvnt (dr_uuid (pf_draws P) (c_ticks c)) ep)"
  have "is_response ?m \<and> struct_Type ?m = Some (msg_Type ?m)" and t: "msg_Type ?m = EvntMsg"
    by (simp_all add: msg_Type_def NewEvnt_def NewMeta_def)
  with Send_responses [OF assms(1), of n] assms(2)
  have "counted [msg_Type ?m] (c\<lparr>c_ticks := Suc (c_ticks c)\<rparr>) c'"
    unfolding counts_responses_def send_event_def by (metis outcome_all.simps(1))
  then show ?thesis unfolding t using counted_same(2) [of "c\<lparr>c_ticks := Suc (c_ticks c)\<rparr>" c] by simp
qed

end

text \<open>The types of the messages that one step processes.\<close>

definition step_trace :: "bool \<Rightarrow> msg_type list \<Rightarrow> bool" where
  "step_trace drops ts \<longleftrightarrow>
     ts \<in> {[], [ResMsg], [EvntMsg]} \<or> (\<exists>t. IsRead t \<and> request_trace drops t ts)"

lemma answered_append: "answered drops ts \<Longrightarrow> step_trace drops us \<Longrightarrow> answered drops (ts @ us)"
  by (auto simp: answered_def step_trace_def request_trace_def Let_def IsStd_def IsRead_def IsWrite_def msg_type_defs)

lemma request_decoded:
  assumes "UnmarshalRequest C reg r allowed = Inr m"
  shows "is_request m" and "struct_Type m = Some (msg_Type m)" and "IsRead (msg_Type m)"
proof -
  show struct: "struct_Type m = Some (msg_Type m)" by (rule UnmarshalRequest_Inr(1) [OF assms])
  show read: "IsRead (msg_Type m)"
    using UnmarshalRequest_Inr(2) [OF assms] by (auto simp: allReqMsgs_def IsRead_def msg_type_defs split: if_splits)
  from struct read show "is_request m" by (cases m) (auto simp: IsRead_def msg_type_defs)
qed

lemma gauge_not_counter:
  "''ActiveConns'' \<notin> msg_counters" "''TotalConns'' \<notin> msg_counters" "''ActiveConnGoros'' \<notin> msg_counters"
  "''TotalConnGoros'' \<notin> msg_counters"
  by (simp_all add: msg_counters_def read_counters_def write_counters_def)

lemma counted_end: "counted [] (ses_conn s) (ses_conn (end_goro P g e s))"
  by (simp add: end_goro_def counted_addVar gauge_not_counter counted_refl)

lemma counted_return: "counted [] (ses_conn s) (ses_conn (ServeConn_return srv s))"
  by (simp add: ServeConn_return_def counted_addVar gauge_not_counter counted_refl)

context counting_server
begin

lemma step_counted:
  assumes reg: "std_named (pf_registry P)" and "serve_step P srv n s s'"
  shows "\<exists>ts. step_trace drops ts \<and> counted ts (ses_conn s) (ses_conn s')"
  using assms(2)
proof cases
  case (serve_request r m c)
  note m = request_decoded [OF serve_request(3)]
  obtain ts where "request_trace drops (msg_Type m) ts" "counted ts (ses_conn s) c"
    using Send_requests [OF reg, of n] m serve_request(4) unfolding counts_requests_def by blast
  with m(3) serve_request(1) show ?thesis by (auto simp: step_trace_def)
next
  case (serve_result rp c)
  then show ?thesis using send_result_counted [OF reg] by (fastforce simp: step_trace_def)
next
  case (serve_event ep c)
  then show ?thesis using send_event_counted [OF reg] by (fastforce simp: step_trace_def)
next
  case (serve_close e)
  then show ?thesis using counted_refl by (fastforce simp: step_trace_def)
qed (auto intro!: exI [of _ "[]"] counted_end counted_return simp: step_trace_def)

end

section \<open>The invariant\<close>

definition metrics_inv :: "bool \<Rightarrow> ('c, 'b) serving \<Rightarrow> bool" where
  "metrics_inv drops S \<longleftrightarrow>
     (\<exists>f ts. sv_Vars S = Some f \<and> gauges_ok f (sv_sessions S) \<and> counts_ok f ts \<and> answered drops ts)"

lemma metrics_start: "metrics_inv drops start_serving"
  unfolding metrics_inv_def
  by (intro exI [of _ "\<lambda>_. 0"] exI [of _ "[]"])
    (auto simp: start_serving_def gauges_ok_def counts_ok_def answered_def in_i64_def)

lemma counts_ok_step:
  assumes "counts_ok f ts" and "counted us c c'" and "c_Vars c = Some f" and "c_Vars c' = Some f'"
  shows "counts_ok f' (ts @ us)"
  using assms by (auto simp: counts_ok_def counted_def var_of_def)

lemma sum_list_update_diff:
  fixes g :: "'a \<Rightarrow> int"
  assumes "i < length xs"
  shows "(\<Sum>x\<leftarrow>xs[i := y]. g x) = (\<Sum>x\<leftarrow>xs. g x) + g y - g (xs ! i)"
  using assms
proof (induction xs arbitrary: i)
  case (Cons x xs)
  then show ?case by (cases i) simp_all
qed simp

lemma gauges_ok_update:
  assumes g: "gauges_ok f ss" and i: "i < length ss"
    and f': "f' ''TotalConns'' = f ''TotalConns''"
      "f' ''ActiveConns'' = i64 (f ''ActiveConns'' + active s' - active (ss ! i))"
      "f' ''ActiveConnGoros'' = i64 (f ''ActiveConnGoros'' + goros s' - goros (ss ! i))"
  shows "gauges_ok f' (ss[i := s'])"
  using g unfolding gauges_ok_def f' sum_list_update_diff [OF i]
  by (simp add: add_diff_eq [symmetric] del: add_diff_eq)

lemma enter_simps [simp]:
  "active (enter S b s) = active s" "goros (enter S b s) = goros s" "c_Vars (ses_conn (enter S b s)) = sv_Vars S"
  by (simp_all add: enter_def active_def goros_def)

lemma start_goros_other:
  assumes "c_Vars c = Some f" and "k \<notin> {''ActiveConnGoros'', ''TotalConnGoros''}"
  shows "var_of k (start_goros gs c) = f k"
  using assms
proof (induction gs arbitrary: c f)
  case Nil
  then show ?case by (simp add: start_goros_def var_of_def)
next
  case (Cons g gs)
  let ?c = "addVar ''ActiveConnGoros'' 1 (addVar ''TotalConnGoros'' 1 c)"
  obtain f' where "c_Vars ?c = Some f'" "f' k = f k" using Cons.prems by (auto simp: addVar_def)
  with Cons.IH [of ?c f'] Cons.prems show ?case by (simp add: start_goros_def)
qed

lemma start_vars:
  assumes f: "vars = Some f" "in_i64 (f ''ActiveConnGoros'')"
    and s: "s = ServeConn_start P srv u ws b vars allowed"
  shows "\<exists>f'. c_Vars (start_goros (ses_goros s) (ses_conn s)) = Some f'
    \<and> f' ''ActiveConns'' = i64 (f ''ActiveConns'' + 1) \<and> f' ''TotalConns'' = i64 (f ''TotalConns'' + 1)
    \<and> f' ''ActiveConnGoros'' = i64 (f ''ActiveConnGoros'' + goros s) \<and> (\<forall>k \<in> msg_counters. f' k = f k)"
proof -
  let ?vars = "vars_add ''TotalConns'' 1 (vars_add ''ActiveConns'' 1 vars)" and ?c = "ses_conn s"
  obtain c st gs where su: "ServeConn_setup P srv allowed (newConn u ws b ?vars allowed) = (c, st, gs)"
    by (metis prod_cases3)
  then have se: "ses_conn s = c" "ses_goros s = gs" by (simp_all add: s ServeConn_start_def)
  define f1 where "f1 = f(''ActiveConns'' := i64 (f ''ActiveConns'' + 1), ''TotalConns'' := i64 (f ''TotalConns'' + 1))"
  have c: "c_Vars c = Some f1"
    using ServeConn_setup_cases(1) [OF su] f by (simp add: newConn_def f1_def)
  then have "c_Vars (start_goros gs c) \<noteq> None" by simp
  then obtain f' where f': "c_Vars (start_goros gs c) = Some f'" by blast
  have other: "f' k = f1 k" if "k \<notin> {''ActiveConnGoros'', ''TotalConnGoros''}" for k
    using start_goros_other [OF c that, of gs] f' by (simp add: var_of_def)
  have "f' ''ActiveConnGoros'' = i64 (f ''ActiveConnGoros'' + int (length gs))"
    using var_of_start_goros(1) [of c gs] c f' f by (simp add: var_of_def f1_def)
  moreover have "f' k = f k" if "k \<in> msg_counters" for k
  proof -
    have "k \<noteq> ''ActiveConns''" "k \<noteq> ''TotalConns''" "k \<noteq> ''ActiveConnGoros''" "k \<noteq> ''TotalConnGoros''"
      using that gauge_not_counter by metis+
    then show ?thesis using other [of k] by (simp add: f1_def)
  qed
  ultimately show ?thesis
    using f' other [of "''ActiveConns''"] other [of "''TotalConns''"] by (auto simp: se f1_def goros_def)
qed

lemma metrics_accept:
  assumes inv: "metrics_inv drops S" and s: "s = ServeConn_start P srv u ws b (sv_Vars S) allowed"
    and s': "s' = s\<lparr>ses_conn := start_goros (ses_goros s) (ses_conn s)\<rparr>"
  shows "metrics_inv drops ((leave s' (sv_sessions S @ [s']))\<lparr>sv_ticks := t\<rparr>)"
proof -
  obtain f ts where f: "sv_Vars S = Some f" and g: "gauges_ok f (sv_sessions S)"
    and ts: "counts_ok f ts" "answered drops ts"
    using inv by (auto simp: metrics_inv_def)
  then have "in_i64 (f ''ActiveConnGoros'')" by (simp add: gauges_ok_def)
  from start_vars [OF f this s] obtain f' where f': "c_Vars (ses_conn s') = Some f'"
    "f' ''ActiveConns'' = i64 (f ''ActiveConns'' + 1)" "f' ''TotalConns'' = i64 (f ''TotalConns'' + 1)"
    "f' ''ActiveConnGoros'' = i64 (f ''ActiveConnGoros'' + goros s)" "\<forall>k \<in> msg_counters. f' k = f k"
    using s' by auto
  have "active s' = 1" "goros s' = goros s"
    by (simp_all add: s' s active_def goros_def)
  with g f'(2-4) have "gauges_ok f' (sv_sessions S @ [s'])"
    by (simp add: gauges_ok_def add.commute)
  moreover have "counts_ok f' ts" using ts f'(5) by (simp add: counts_ok_def)
  ultimately show ?thesis using f'(1) ts(2) by (auto simp: metrics_inv_def leave_def)
qed

context counting_server
begin

lemma metrics_session:
  assumes reg: "std_named (pf_registry P)" and inv: "metrics_inv drops S" and i: "i < length (sv_sessions S)"
    and step: "serve_step P srv n (enter S b (sv_sessions S ! i)) s'"
  shows "metrics_inv drops (leave s' ((sv_sessions S)[i := s']))"
proof -
  obtain f ts where f: "sv_Vars S = Some f" and g: "gauges_ok f (sv_sessions S)"
    and ts: "counts_ok f ts" "answered drops ts"
    using inv by (auto simp: metrics_inv_def)
  let ?s = "enter S b (sv_sessions S ! i)"
  have range: "in_i64 (f ''ActiveConns'')" "in_i64 (f ''ActiveConnGoros'')" using g by (simp_all add: gauges_ok_def)
  obtain f' where f': "c_Vars (ses_conn s') = Some f'" "gauges_ok f' ((sv_sessions S)[i := s'])"
    using step_gauged [OF step] f range gauges_ok_update [OF g i, of _ s'] by (auto simp: gauged_def)
  obtain us where us: "step_trace drops us" "counted us (ses_conn ?s) (ses_conn s')"
    using step_counted [OF reg step] by blast
  have "counts_ok f' (ts @ us)" using counts_ok_step [OF ts(1) us(2)] f f'(1) by simp
  then show ?thesis using f' answered_append [OF ts(2) us(1)] by (auto simp: metrics_inv_def leave_def)
qed

lemma metrics_run:
  assumes reg: "std_named (pf_registry P)" and "serving_run P srv n S"
  shows "metrics_inv drops S"
  using assms(2)
proof induction
  case serving_start
  show ?case by (rule metrics_start)
next
  case (serving_next S S')
  from serving_next.hyps(2) serving_next.IH show ?case
    by cases (auto intro: metrics_accept metrics_session [OF reg])
qed

end

section \<open>The balance of the counters\<close>

lemma std_types:
  "IsStd t \<Longrightarrow> t \<in> {CallMsg, PubMsg, SubMsg, UnsbMsg, NackMsg, AckMsg, ResMsg, EvntMsg}"
  by (auto simp: IsStd_def IsRead_def IsWrite_def msg_type_defs)

lemma std_delta:
  assumes "IsStd t"
  shows "msg_delta t ''Msgs'' = msg_delta t ''MsgsRead'' + msg_delta t ''MsgsWrite''"
    and "msg_delta t ''MsgsRead'' = (\<Sum>k\<leftarrow>read_counters. msg_delta t k)"
    and "msg_delta t ''MsgsWrite'' = (\<Sum>k\<leftarrow>write_counters. msg_delta t k)"
    and "msg_delta t ''MsgsRead'' = of_bool (IsRead t)"
    and "msg_delta t ''MsgsACK'' + msg_delta t ''MsgsNACK'' = of_bool (t \<in> {AckMsg, NackMsg})"
  using std_types [OF assms]
  by (auto simp: msg_delta_def read_counters_def write_counters_def IsStd_def IsRead_def IsWrite_def
      msg_type_defs Type_String_def init_registry_def)

lemma recovered_delta: "IsStd t \<Longrightarrow> msg_delta t ''RecoveredPanics'' = 0"
  using std_types [of t] by (auto simp: msg_delta_def Type_String_def init_registry_def msg_type_defs)

lemma i64_sums:
  "i64 (i64 a + i64 b) = i64 (a + b)" "i64 (i64 a + i64 b + i64 c + i64 d) = i64 (a + b + c + d)"
  by (metis i64_add i64_add')+

lemma counts_balanced:
  assumes f: "counts_ok f ts" and std: "list_all IsStd ts"
  shows "f ''Msgs'' = i64 (f ''MsgsRead'' + f ''MsgsWrite'')"
    and "f ''MsgsRead'' = i64 (f ''MsgsCALL'' + f ''MsgsPUB'' + f ''MsgsSUB'' + f ''MsgsUNSB'')"
    and "f ''MsgsWrite'' = i64 (f ''MsgsACK'' + f ''MsgsNACK'' + f ''MsgsRES'' + f ''MsgsEVNT'')"
    and "f ''MsgsRead'' = i64 (int (length (filter IsRead ts)))"
    and "i64 (f ''MsgsACK'' + f ''MsgsNACK'') = i64 (int (length (filter (\<lambda>t. t \<in> {AckMsg, NackMsg}) ts)))"
    and "f ''RecoveredPanics'' = 0"
proof -
  let ?S = "\<lambda>k. \<Sum>t\<leftarrow>ts. msg_delta t k"
  have k: "f k = i64 (?S k)" if "k \<in> msg_counters" for k using f that by (simp add: counts_ok_def)
  have s1: "?S ''Msgs'' = ?S ''MsgsRead'' + ?S ''MsgsWrite''"
    using std by (induction ts) (simp_all add: std_delta(1))
  have s2: "?S ''MsgsRead'' = ?S ''MsgsCALL'' + ?S ''MsgsPUB'' + ?S ''MsgsSUB'' + ?S ''MsgsUNSB''"
    using std by (induction ts) (simp_all add: std_delta(2) read_counters_def)
  have s3: "?S ''MsgsWrite'' = ?S ''MsgsACK'' + ?S ''MsgsNACK'' + ?S ''MsgsRES'' + ?S ''MsgsEVNT''"
    using std by (induction ts) (simp_all add: std_delta(3) write_counters_def)
  have s4: "?S ''MsgsRead'' = int (length (filter IsRead ts))"
    using std by (induction ts) (simp_all add: std_delta(4))
  have s5: "?S ''MsgsACK'' + ?S ''MsgsNACK'' = int (length (filter (\<lambda>t. t \<in> {AckMsg, NackMsg}) ts))"
    using std
  proof (induction ts)
    case (Cons t ts)
    then show ?case using std_delta(5) [of t] by (simp add: algebra_simps split: if_splits)
  qed simp
  have s6: "?S ''RecoveredPanics'' = 0" using std by (induction ts) (simp_all add: recovered_delta)
  note mem = msg_counters_def read_counters_def write_counters_def
  show "f ''Msgs'' = i64 (f ''MsgsRead'' + f ''MsgsWrite'')"
    using k [of "''Msgs''"] k [of "''MsgsRead''"] k [of "''MsgsWrite''"] s1 by (simp add: mem i64_sums)
  show "f ''MsgsRead'' = i64 (f ''MsgsCALL'' + f ''MsgsPUB'' + f ''MsgsSUB'' + f ''MsgsUNSB'')"
    using k [of "''MsgsRead''"] k [of "''MsgsCALL''"] k [of "''MsgsPUB''"] k [of "''MsgsSUB''"] k [of "''MsgsUNSB''"] s2
    by (simp add: mem i64_sums del: i64_add i64_add')
  show "f ''MsgsWrite'' = i64 (f ''MsgsACK'' + f ''MsgsNACK'' + f ''MsgsRES'' + f ''MsgsEVNT'')"
    using k [of "''MsgsWrite''"] k [of "''MsgsACK''"] k [of "''MsgsNACK''"] k [of "''MsgsRES''"] k [of "''MsgsEVNT''"] s3
    by (simp add: mem i64_sums del: i64_add i64_add')
  show "f ''MsgsRead'' = i64 (int (length (filter IsRead ts)))" using k [of "''MsgsRead''"] s4 by (simp add: mem)
  show "i64 (f ''MsgsACK'' + f ''MsgsNACK'') = i64 (int (length (filter (\<lambda>t. t \<in> {AckMsg, NackMsg}) ts)))"
    using k [of "''MsgsACK''"] k [of "''MsgsNACK''"] s5 by (simp add: mem i64_sums)
  show "f ''RecoveredPanics'' = 0" using k [of "''RecoveredPanics''"] s6 by (simp add: mem in_i64_def)
qed

section \<open>Properties\<close>

lemma active_sum: "(\<Sum>s\<leftarrow>ss. active s) = int (length (filter (\<lambda>s. \<not> ses_returned s) ss))"
  by (induction ss) (simp_all add: active_def)

lemma goros_sum: "(\<Sum>s\<leftarrow>ss. goros s) = int (\<Sum>s\<leftarrow>ss. length (ses_goros s))"
  by (induction ss) (simp_all add: goros_def)

lemma metrics_of_handler:
  assumes "std_named (pf_registry P)" and "serving_run P srv n S"
  shows "srv_Handler srv = None \<Longrightarrow> metrics_inv False S"
    and "srv = srv0\<lparr>srv_Handler := Some (newHandler P srv0 control closeURI panicURI writeTimeout noLog)\<rparr>
      \<Longrightarrow> metrics_inv True S"
  using standard_counts.metrics_run [OF assms(1), of srv n S] command_counts.metrics_run [OF assms(1)] assms(2)
  by (auto simp: standard_eq)

text \<open>
  C29. The metrics of a server, with the standard processing or with the handler of
  \<^verbatim>\<open>juggler-server\<close>, in every state that any number of connections and any interleaving of
  their goroutines lead to from a new map of counters: the gauges are the connections and
  goroutines that are not over, the total counts every connection, the messages are those read
  and those written, each the sum of the counters of its types, and no panic is counted as
  recovered, even though the command recovers from panics, all as 64-bit integers. With the standard processing the requests read are exactly
  the ACKs and NACKs written or tried.
\<close>

theorem server_metrics:
  assumes reg: "std_named (pf_registry P)" and run: "serving_run P srv n S"
    and h: "srv_Handler srv = None
      \<or> srv = srv0\<lparr>srv_Handler := Some (newHandler P srv0 control closeURI panicURI writeTimeout noLog)\<rparr>"
  shows "\<exists>f. sv_Vars S = Some f
    \<and> f ''ActiveConns'' = i64 (int (length (filter (\<lambda>s. \<not> ses_returned s) (sv_sessions S))))
    \<and> f ''TotalConns'' = i64 (int (length (sv_sessions S)))
    \<and> f ''ActiveConnGoros'' = i64 (int (\<Sum>s\<leftarrow>sv_sessions S. length (ses_goros s)))
    \<and> f ''Msgs'' = i64 (f ''MsgsRead'' + f ''MsgsWrite'')
    \<and> f ''MsgsRead'' = i64 (f ''MsgsCALL'' + f ''MsgsPUB'' + f ''MsgsSUB'' + f ''MsgsUNSB'')
    \<and> f ''MsgsWrite'' = i64 (f ''MsgsACK'' + f ''MsgsNACK'' + f ''MsgsRES'' + f ''MsgsEVNT'')
    \<and> f ''RecoveredPanics'' = 0
    \<and> (srv_Handler srv = None \<longrightarrow> f ''MsgsRead'' = i64 (f ''MsgsACK'' + f ''MsgsNACK''))"
proof -
  obtain drops where inv: "metrics_inv drops S" and std: "srv_Handler srv = None \<Longrightarrow> \<not> drops"
  proof (cases "srv_Handler srv = None")
    case True
    then show thesis using that [of False] metrics_of_handler(1) [OF reg run] by simp
  next
    case False
    with h have eq: "srv = srv0\<lparr>srv_Handler := Some (newHandler P srv0 control closeURI panicURI writeTimeout noLog)\<rparr>"
      by simp
    show thesis by (rule that [of True]) (use metrics_of_handler(2) [OF reg run eq] False in simp_all)
  qed
  obtain f ts where f: "sv_Vars S = Some f" "gauges_ok f (sv_sessions S)" "counts_ok f ts" "answered drops ts"
    using inv by (auto simp: metrics_inv_def)
  have "list_all IsStd ts" using f(4) by (simp add: answered_def)
  note bal = counts_balanced [OF f(3) this]
  have "f ''MsgsRead'' = i64 (f ''MsgsACK'' + f ''MsgsNACK'')" if "srv_Handler srv = None"
    using bal(4,5) f(4) std [OF that] by (simp add: answered_def)
  with f(1,2) bal(1-3,6) show ?thesis
    by (auto simp: gauges_ok_def active_sum goros_sum)
qed

definition example_serving :: "(string list, nat) serving" where
  "example_serving =
     (let s = ServeConn_start example_platform example_server example_uuid [] 0 (Some (\<lambda>_. 0)) [CallMsg];
          s = s\<lparr>ses_conn := start_goros (ses_goros s) (ses_conn s)\<rparr> in
      (leave s [s])\<lparr>sv_ticks := 0\<rparr>)"

lemma example_request:
  "\<exists>r m. UnmarshalRequest example_codec init_registry r [CallMsg] = Inr m \<and> msg_Type m = CallMsg"
proof -
  obtain j where j: "encode_msg example_codec (Call example_call) = Some j"
    by (simp add: encode_msg_def encode_payload_def example_call_def encode_raw_def)
  have "msg_Type (Call example_call) = CallMsg"
    by (simp add: msg_Type_def example_call_def NewMeta_def)
  then have "UnmarshalRequest example_codec init_registry (Some j) [CallMsg] = Inr (as_sent (Call example_call))"
    using unmarshalIf_encode [OF uuid_roundtrips_example wf_example_call j, of init_registry]
    by (simp add: UnmarshalRequest_def IsRead_def msg_type_defs)
  then show ?thesis
    by (intro exI [of _ "Some j"] exI [of _ "as_sent (Call example_call)"])
      (simp add: msg_Type_def example_call_def NewMeta_def)
qed

lemma start_goros_allowed: "c_allowedMsgs (start_goros gs c) = c_allowedMsgs c"
  by (induction gs arbitrary: c) (simp_all add: start_goros_def addVar_def)

lemma example_serving_facts:
  "\<exists>f. sv_Vars example_serving = Some f \<and> (\<forall>k \<in> msg_counters. f k = 0)"
  "\<exists>s. sv_sessions example_serving = [s] \<and> GoReceive \<in> set (ses_goros s) \<and> \<not> ses_returned s
     \<and> c_allowedMsgs (ses_conn s) = [CallMsg]"
  "serving_run example_platform example_server 2 example_serving"
proof -
  let ?s = example_session
  have S: "example_serving = (leave (?s\<lparr>ses_conn := start_goros (ses_goros ?s) (ses_conn ?s)\<rparr>)
      [?s\<lparr>ses_conn := start_goros (ses_goros ?s) (ses_conn ?s)\<rparr>])\<lparr>sv_ticks := 0\<rparr>"
    by (simp add: example_serving_def example_session_def Let_def)
  show "\<exists>f. sv_Vars example_serving = Some f \<and> (\<forall>k \<in> msg_counters. f k = 0)"
    using start_vars [OF refl _ example_session_def] by (auto simp: S leave_def in_i64_def)
  have "GoReceive \<in> set (ses_goros ?s)" "c_allowedMsgs (ses_conn ?s) = [CallMsg]"
    by (simp_all add: example_session_def ServeConn_start_def ServeConn_setup_def example_platform_def
        example_brokers_def newConn_def msg_type_defs Let_def)
  then show "\<exists>s. sv_sessions example_serving = [s] \<and> GoReceive \<in> set (ses_goros s) \<and> \<not> ses_returned s
     \<and> c_allowedMsgs (ses_conn s) = [CallMsg]"
    by (simp add: S leave_def start_goros_allowed) (simp add: example_session_def)
  have "serving_step example_platform example_server 2 (start_serving :: (string list, nat) serving) example_serving"
    using serving_accept [OF refl refl, of example_platform example_server 2 start_serving example_uuid "[]" 0 "[CallMsg]"]
    by (simp add: example_serving_def Let_def start_serving_def)
  then show "serving_run example_platform example_server 2 example_serving" by (rule serving_next [OF serving_start])
qed

theorem server_metrics_witness:
  "\<exists>S f. serving_run example_platform example_server 2 S \<and> sv_Vars S = Some f
     \<and> f ''ActiveConns'' = 1 \<and> f ''MsgsCALL'' = 1 \<and> f ''Msgs'' = 2 \<and> i64 (f ''MsgsACK'' + f ''MsgsNACK'') = 1"
proof -
  let ?P = example_platform and ?srv = example_server and ?S = example_serving
  have srv: "srv_Handler ?srv = None" and reg: "std_named (pf_registry ?P)"
    by (simp_all add: example_server_def example_platform_def std_named_init)
  obtain f0 s where f0: "sv_Vars ?S = Some f0" "\<And>k. k \<in> msg_counters \<Longrightarrow> f0 k = 0"
    and s: "sv_sessions ?S = [s]" "GoReceive \<in> set (ses_goros s)" "\<not> ses_returned s"
      "c_allowedMsgs (ses_conn s) = [CallMsg]"
    using example_serving_facts(1,2) by metis
  let ?s = "enter ?S 0 s"
  obtain r m where m: "UnmarshalRequest (pf_codec ?P) (pf_registry ?P) r (c_allowedMsgs (ses_conn ?s)) = Inr m"
    "msg_Type m = CallMsg"
    using example_request s(4) by (auto simp: example_platform_def enter_def)
  note req = request_decoded [OF m(1)]
  have "\<not> needs_psc m" using req(2) m(2) by (cases m) (auto simp: msg_type_defs)
  then obtain c' where c': "Send ?P ?srv 2 m (ses_conn ?s) = Done c'"
    using Send_request [OF srv req(1), of "ses_conn ?s" ?P _ _ 0] by (metis numeral_2_eq_2 surj_pair)
  let ?s' = "?s\<lparr>ses_conn := c'\<rparr>"
  have "serve_step ?P ?srv 2 ?s ?s'"
    using serve_request [OF _ m(1) c'] s(2) by (simp add: enter_def)
  then have "serving_step ?P ?srv 2 ?S (leave ?s' [?s'])"
    using serving_session [of 0 ?S ?P ?srv 2 0 ?s'] s(1) by simp
  then have run: "serving_run ?P ?srv 2 (leave ?s' [?s'])" by (rule serving_next [OF example_serving_facts(3)])
  obtain f where f: "sv_Vars (leave ?s' [?s']) = Some f" "f ''ActiveConns'' = i64 1"
    "f ''MsgsRead'' = i64 (f ''MsgsACK'' + f ''MsgsNACK'')"
    using server_metrics [OF reg run disjI1 [OF srv]] srv s(3) by (auto simp: leave_def enter_def)
  have "counts_requests False (Send ?P ?srv 2)"
    using standard_counts.Send_requests [OF reg, of ?srv 2] srv by (simp add: standard_eq)
  from this [unfolded counts_requests_def, rule_format, OF conjI [OF req(1) conjI [OF req(2) c']]]
  obtain ts where ts: "request_trace False CallMsg ts" "counted ts (ses_conn ?s) c'" unfolding m(2) by blast
  have sums: "(\<Sum>t\<leftarrow>ts. msg_delta t ''Msgs'') = 2" "(\<Sum>t\<leftarrow>ts. msg_delta t ''MsgsCALL'') = 1"
    "(\<Sum>t\<leftarrow>ts. msg_delta t ''MsgsRead'') = 1"
    using ts(1) by (auto simp: request_trace_def msg_delta_def IsStd_def IsRead_def IsWrite_def
        msg_type_defs Type_String_def init_registry_def)
  have mem: "''Msgs'' \<in> msg_counters" "''MsgsCALL'' \<in> msg_counters" "''MsgsRead'' \<in> msg_counters"
    by (simp_all add: msg_counters_def read_counters_def)
  have "f k = i64 (\<Sum>t\<leftarrow>ts. msg_delta t k)" if "k \<in> msg_counters" for k
    using ts(2) f0 f(1) that by (auto simp: counted_def var_of_def leave_def in_i64_def)
  from this [OF mem(1)] this [OF mem(2)] this [OF mem(3)]
  have "f ''Msgs'' = 2" "f ''MsgsCALL'' = 1" "f ''MsgsRead'' = 1" unfolding sums by (simp_all add: in_i64_def)
  with run f show ?thesis by (intro exI [of _ "leave ?s' [?s']"] exI [of _ f]) (simp add: in_i64_def)
qed

end
