(* ===== verification/Redis.thy ===== *)
theory Redis
  imports Json_Codec
begin

text \<open>
  The redis server, a service the brokers talk to, as a parameter: a record with the
  commands the brokers send, each a function on a database of an opaque type \<open>'r\<close>, and the named
  hypothesis \<open>redis_laws\<close> with what the redis documentation says of those commands. The
  values the brokers store are JSON texts, so a list holds \<open>wire\<close> values. Time passes
  for the database by \<open>rd_elapse\<close>, in milliseconds, which is what the expiration of keys
  depends on.
\<close>

section \<open>Commands\<close>

datatype rtype = TNone | TString | TList

record 'r redis =
  rd_SET_PX :: "string \<Rightarrow> string \<Rightarrow> int \<Rightarrow> 'r \<Rightarrow> unit result \<times> 'r"
  rd_LPUSH :: "string \<Rightarrow> wire \<Rightarrow> 'r \<Rightarrow> int result \<times> 'r"
  rd_LTRIM :: "string \<Rightarrow> int \<Rightarrow> int \<Rightarrow> 'r \<Rightarrow> unit result \<times> 'r"
  rd_DEL :: "string \<Rightarrow> 'r \<Rightarrow> int \<times> 'r"
  rd_BRPOP :: "string list \<Rightarrow> 'r \<Rightarrow> (string \<times> wire) option \<times> 'r"
  rd_PTTL :: "string \<Rightarrow> 'r \<Rightarrow> int"
  rd_LRANGE :: "string \<Rightarrow> 'r \<Rightarrow> wire list"
  rd_TYPE :: "string \<Rightarrow> 'r \<Rightarrow> rtype"
  rd_elapse :: "int \<Rightarrow> 'r \<Rightarrow> 'r"

text \<open>
  \<open>same_key\<close>: a key holds in one database what it holds in another, by all the commands
  that read it.
\<close>

definition same_key :: "'r redis \<Rightarrow> string \<Rightarrow> 'r \<Rightarrow> 'r \<Rightarrow> bool" where
  "same_key R k r r' \<longleftrightarrow>
     rd_LRANGE R k r' = rd_LRANGE R k r \<and> rd_PTTL R k r' = rd_PTTL R k r
     \<and> rd_TYPE R k r' = rd_TYPE R k r"

section \<open>The documented behaviour\<close>

definition law_SET :: "'r redis \<Rightarrow> bool" where
  "law_SET R \<longleftrightarrow> (\<forall>k v t r.
     if 0 < t
     then \<exists>r'. rd_SET_PX R k v t r = (Inr (), r') \<and> rd_PTTL R k r' = t \<and> rd_TYPE R k r' = TString
             \<and> (\<forall>k'. k' \<noteq> k \<longrightarrow> same_key R k' r r')
     else \<exists>e. rd_SET_PX R k v t r = (Inl e, r))"

definition law_LPUSH :: "'r redis \<Rightarrow> bool" where
  "law_LPUSH R \<longleftrightarrow> (\<forall>k v r.
     if rd_TYPE R k r = TString then \<exists>e. rd_LPUSH R k v r = (Inl e, r)
     else \<exists>r'. rd_LPUSH R k v r = (Inr (int (length (rd_LRANGE R k r)) + 1), r')
             \<and> rd_LRANGE R k r' = v # rd_LRANGE R k r \<and> rd_TYPE R k r' = TList
             \<and> rd_PTTL R k r' = (if rd_TYPE R k r = TList then rd_PTTL R k r else - 1)
             \<and> (\<forall>k'. k' \<noteq> k \<longrightarrow> same_key R k' r r'))"

definition law_LTRIM :: "'r redis \<Rightarrow> bool" where
  "law_LTRIM R \<longleftrightarrow> (\<forall>k a b r. rd_TYPE R k r = TList \<longrightarrow> 0 \<le> a \<longrightarrow> a \<le> b \<longrightarrow>
     (\<exists>r'. rd_LTRIM R k a b r = (Inr (), r')
        \<and> rd_LRANGE R k r' = take (nat (b - a + 1)) (drop (nat a) (rd_LRANGE R k r))
        \<and> (rd_LRANGE R k r' \<noteq> [] \<longrightarrow> rd_TYPE R k r' = TList \<and> rd_PTTL R k r' = rd_PTTL R k r)
        \<and> (rd_LRANGE R k r' = [] \<longrightarrow> rd_TYPE R k r' = TNone)
        \<and> (\<forall>k'. k' \<noteq> k \<longrightarrow> same_key R k' r r')))"

definition law_DEL :: "'r redis \<Rightarrow> bool" where
  "law_DEL R \<longleftrightarrow> (\<forall>k r.
     rd_TYPE R k (snd (rd_DEL R k r)) = TNone
     \<and> (\<forall>k'. k' \<noteq> k \<longrightarrow> same_key R k' r (snd (rd_DEL R k r))))"

text \<open>\<^verbatim>\<open>BRPOP\<close> takes the tail of the first list of those given that is not empty;
  \<open>None\<close> when all are, the reply being nil.\<close>

definition law_BRPOP :: "'r redis \<Rightarrow> bool" where
  "law_BRPOP R \<longleftrightarrow> (\<forall>ks r.
     case filter (\<lambda>k. rd_LRANGE R k r \<noteq> []) ks of
       [] \<Rightarrow> rd_BRPOP R ks r = (None, r)
     | k # _ \<Rightarrow>
         \<exists>r'. rd_BRPOP R ks r = (Some (k, last (rd_LRANGE R k r)), r')
            \<and> rd_LRANGE R k r' = butlast (rd_LRANGE R k r)
            \<and> (rd_LRANGE R k r' \<noteq> [] \<longrightarrow> rd_TYPE R k r' = TList \<and> rd_PTTL R k r' = rd_PTTL R k r)
            \<and> (rd_LRANGE R k r' = [] \<longrightarrow> rd_TYPE R k r' = TNone)
            \<and> (\<forall>k'. k' \<noteq> k \<longrightarrow> same_key R k' r r'))"

text \<open>A key that does not exist has no elements and \<^verbatim>\<open>PTTL\<close> says \<open>- 2\<close>; only a key
  that holds a list has elements; a key without expiration has \<^verbatim>\<open>PTTL\<close> \<open>- 1\<close>.\<close>

definition law_reads :: "'r redis \<Rightarrow> bool" where
  "law_reads R \<longleftrightarrow> (\<forall>k r.
     (rd_TYPE R k r = TNone \<longrightarrow> rd_PTTL R k r = - 2)
     \<and> (rd_TYPE R k r \<noteq> TList \<longrightarrow> rd_LRANGE R k r = [])
     \<and> (rd_TYPE R k r \<noteq> TNone \<longrightarrow> - 1 \<le> rd_PTTL R k r))"

definition law_elapse :: "'r redis \<Rightarrow> bool" where
  "law_elapse R \<longleftrightarrow> (\<forall>d k r. 0 \<le> d \<longrightarrow>
     (rd_PTTL R k r < 0 \<longrightarrow> same_key R k r (rd_elapse R d r))
     \<and> (d < rd_PTTL R k r \<longrightarrow>
          rd_PTTL R k (rd_elapse R d r) = rd_PTTL R k r - d
          \<and> rd_LRANGE R k (rd_elapse R d r) = rd_LRANGE R k r
          \<and> rd_TYPE R k (rd_elapse R d r) = rd_TYPE R k r)
     \<and> (0 \<le> rd_PTTL R k r \<and> rd_PTTL R k r \<le> d \<longrightarrow> rd_TYPE R k (rd_elapse R d r) = TNone))"

definition redis_laws :: "'r redis \<Rightarrow> bool" where
  "redis_laws R \<longleftrightarrow>
     law_SET R \<and> law_LPUSH R \<and> law_LTRIM R \<and> law_DEL R \<and> law_BRPOP R \<and> law_reads R \<and> law_elapse R"

section \<open>The laws as rules\<close>

lemma same_key_refl [simp]: "same_key R k r r"
  by (simp add: same_key_def)

lemma same_key_trans [trans]: "same_key R k r r' \<Longrightarrow> same_key R k r' r'' \<Longrightarrow> same_key R k r r''"
  by (simp add: same_key_def)

lemma redis_lawsD:
  assumes "redis_laws R"
  shows "law_SET R" "law_LPUSH R" "law_LTRIM R" "law_DEL R" "law_BRPOP R" "law_reads R" "law_elapse R"
  using assms by (simp_all add: redis_laws_def)

lemma SET_ok:
  assumes "redis_laws R" and "0 < t"
  obtains r' where "rd_SET_PX R k v t r = (Inr (), r')" "rd_PTTL R k r' = t"
    "rd_TYPE R k r' = TString" "\<And>k'. k' \<noteq> k \<Longrightarrow> same_key R k' r r'"
  using redis_lawsD(1) [OF assms(1), unfolded law_SET_def, rule_format, of t k v r] assms(2) that
  by auto

lemma SET_invalid:
  assumes "redis_laws R" and "t \<le> 0"
  obtains e where "rd_SET_PX R k v t r = (Inl e, r)"
  using redis_lawsD(1) [OF assms(1), unfolded law_SET_def, rule_format, of t k v r] assms(2) that
  by auto

lemma LPUSH_ok:
  assumes "redis_laws R" and "rd_TYPE R k r \<noteq> TString"
  obtains r' where "rd_LPUSH R k v r = (Inr (int (length (rd_LRANGE R k r)) + 1), r')"
    "rd_LRANGE R k r' = v # rd_LRANGE R k r" "rd_TYPE R k r' = TList"
    "rd_PTTL R k r' = (if rd_TYPE R k r = TList then rd_PTTL R k r else - 1)"
    "\<And>k'. k' \<noteq> k \<Longrightarrow> same_key R k' r r'"
  using redis_lawsD(2) [OF assms(1), unfolded law_LPUSH_def, rule_format, of k r v] assms(2) that
  by auto

lemma LTRIM_ok:
  assumes "redis_laws R" and "rd_TYPE R k r = TList" and "0 \<le> a" and "a \<le> b"
  obtains r' where "rd_LTRIM R k a b r = (Inr (), r')"
    "rd_LRANGE R k r' = take (nat (b - a + 1)) (drop (nat a) (rd_LRANGE R k r))"
    "rd_LRANGE R k r' \<noteq> [] \<Longrightarrow> rd_TYPE R k r' = TList \<and> rd_PTTL R k r' = rd_PTTL R k r"
    "rd_LRANGE R k r' = [] \<Longrightarrow> rd_TYPE R k r' = TNone"
    "\<And>k'. k' \<noteq> k \<Longrightarrow> same_key R k' r r'"
  using redis_lawsD(3) [OF assms(1), unfolded law_LTRIM_def, rule_format, OF assms(2-4)] that
  by auto

lemma DEL_gone: "redis_laws R \<Longrightarrow> rd_TYPE R k (snd (rd_DEL R k r)) = TNone"
  by (simp add: redis_laws_def law_DEL_def)

lemma DEL_same: "redis_laws R \<Longrightarrow> k' \<noteq> k \<Longrightarrow> same_key R k' r (snd (rd_DEL R k r))"
  by (simp add: redis_laws_def law_DEL_def)

lemma reads_none:
  assumes "redis_laws R" and "rd_TYPE R k r = TNone"
  shows "rd_PTTL R k r = - 2" and "rd_LRANGE R k r = []"
  using assms unfolding redis_laws_def law_reads_def by auto

lemma reads_list: "redis_laws R \<Longrightarrow> rd_TYPE R k r \<noteq> TList \<Longrightarrow> rd_LRANGE R k r = []"
  by (simp add: redis_laws_def law_reads_def)

lemma BRPOP_none:
  assumes "redis_laws R" and "\<And>k. k \<in> set ks \<Longrightarrow> rd_LRANGE R k r = []"
  shows "rd_BRPOP R ks r = (None, r)"
proof -
  have "filter (\<lambda>k. rd_LRANGE R k r \<noteq> []) ks = []"
    using assms(2) by (simp add: filter_empty_conv)
  then show ?thesis
    using redis_lawsD(5) [OF assms(1), unfolded law_BRPOP_def, rule_format, of ks r] by simp
qed

lemma BRPOP_some:
  assumes "redis_laws R" and "filter (\<lambda>k. rd_LRANGE R k r \<noteq> []) ks = k # rest"
  obtains r' where "rd_BRPOP R ks r = (Some (k, last (rd_LRANGE R k r)), r')"
    "rd_LRANGE R k r' = butlast (rd_LRANGE R k r)"
    "rd_LRANGE R k r' \<noteq> [] \<Longrightarrow> rd_TYPE R k r' = TList \<and> rd_PTTL R k r' = rd_PTTL R k r"
    "rd_LRANGE R k r' = [] \<Longrightarrow> rd_TYPE R k r' = TNone"
    "\<And>k'. k' \<noteq> k \<Longrightarrow> same_key R k' r r'"
  using redis_lawsD(5) [OF assms(1), unfolded law_BRPOP_def, rule_format, of ks r] that
  unfolding assms(2) by auto

lemma elapse_kept: "redis_laws R \<Longrightarrow> 0 \<le> d \<Longrightarrow> rd_PTTL R k r < 0 \<Longrightarrow> same_key R k r (rd_elapse R d r)"
  unfolding redis_laws_def law_elapse_def by blast

lemma elapse_less:
  assumes "redis_laws R" and "0 \<le> d" and "d < rd_PTTL R k r"
  shows "rd_PTTL R k (rd_elapse R d r) = rd_PTTL R k r - d"
    and "rd_TYPE R k (rd_elapse R d r) = rd_TYPE R k r"
  using assms unfolding redis_laws_def law_elapse_def by blast+

lemma elapse_expired:
  "redis_laws R \<Longrightarrow> 0 \<le> d \<Longrightarrow> 0 \<le> rd_PTTL R k r \<Longrightarrow> rd_PTTL R k r \<le> d
   \<Longrightarrow> rd_TYPE R k (rd_elapse R d r) = TNone"
  unfolding redis_laws_def law_elapse_def by blast

section \<open>An instance\<close>

text \<open>
  A redis in memory, which shows that the laws can hold together: a key is absent, or
  holds a string or a list that is not empty, with its time to live if it has one.
\<close>

datatype mem_value = MStr | MList wire "wire list"

type_synonym memdb = "string \<Rightarrow> (mem_value \<times> nat option) option"

fun mem_list :: "mem_value \<Rightarrow> wire list" where
  "mem_list MStr = []"
| "mem_list (MList x xs) = x # xs"

definition mem_get :: "string \<Rightarrow> memdb \<Rightarrow> wire list" where
  "mem_get k r = (case r k of None \<Rightarrow> [] | Some (c, _) \<Rightarrow> mem_list c)"

definition mem_ttl :: "string \<Rightarrow> memdb \<Rightarrow> nat option" where
  "mem_ttl k r = (case r k of None \<Rightarrow> None | Some (_, t) \<Rightarrow> t)"

fun mem_put :: "string \<Rightarrow> wire list \<Rightarrow> nat option \<Rightarrow> memdb \<Rightarrow> memdb" where
  "mem_put k [] t r = r(k := None)"
| "mem_put k (x # xs) t r = r(k \<mapsto> (MList x xs, t))"

definition mem_redis :: "memdb redis" where
  "mem_redis =
     \<lparr>rd_SET_PX = (\<lambda>k v t r. if 0 < t then (Inr (), r(k \<mapsto> (MStr, Some (nat t))))
                             else (Inl (ErrText ''invalid expire time''), r)),
      rd_LPUSH = (\<lambda>k v r. case r k of
          Some (MStr, _) \<Rightarrow> (Inl (ErrText ''wrong kind of value''), r)
        | _ \<Rightarrow> (Inr (int (length (mem_get k r)) + 1), mem_put k (v # mem_get k r) (mem_ttl k r) r)),
      rd_LTRIM = (\<lambda>k a b r.
        (Inr (), mem_put k (take (nat (b - a + 1)) (drop (nat a) (mem_get k r))) (mem_ttl k r) r)),
      rd_DEL = (\<lambda>k r. (if r k = None then 0 else 1, r(k := None))),
      rd_BRPOP = (\<lambda>ks r. case filter (\<lambda>k. mem_get k r \<noteq> []) ks of
          [] \<Rightarrow> (None, r)
        | k # _ \<Rightarrow> (Some (k, last (mem_get k r)), mem_put k (butlast (mem_get k r)) (mem_ttl k r) r)),
      rd_PTTL = (\<lambda>k r. case r k of None \<Rightarrow> - 2 | Some (_, None) \<Rightarrow> - 1 | Some (_, Some t) \<Rightarrow> int t),
      rd_LRANGE = mem_get,
      rd_TYPE = (\<lambda>k r. case r k of None \<Rightarrow> TNone | Some (MStr, _) \<Rightarrow> TString | Some (MList _ _, _) \<Rightarrow> TList),
      rd_elapse = (\<lambda>d r k. case r k of
          Some (c, Some t) \<Rightarrow> if int t \<le> d then None else Some (c, Some (t - nat d))
        | x \<Rightarrow> x)\<rparr>"

lemma mem_cmds:
  "rd_SET_PX mem_redis k v t r =
     (if 0 < t then (Inr (), r(k \<mapsto> (MStr, Some (nat t))))
      else (Inl (ErrText ''invalid expire time''), r))"
  "rd_LPUSH mem_redis k w r =
     (case r k of
        Some (MStr, _) \<Rightarrow> (Inl (ErrText ''wrong kind of value''), r)
      | _ \<Rightarrow> (Inr (int (length (mem_get k r)) + 1), mem_put k (w # mem_get k r) (mem_ttl k r) r))"
  "rd_LTRIM mem_redis k a b r =
     (Inr (), mem_put k (take (nat (b - a + 1)) (drop (nat a) (mem_get k r))) (mem_ttl k r) r)"
  "rd_DEL mem_redis k r = (if r k = None then 0 else 1, r(k := None))"
  "rd_BRPOP mem_redis ks r =
     (case filter (\<lambda>k. mem_get k r \<noteq> []) ks of
        [] \<Rightarrow> (None, r)
      | k # _ \<Rightarrow> (Some (k, last (mem_get k r)), mem_put k (butlast (mem_get k r)) (mem_ttl k r) r))"
  by (simp_all add: mem_redis_def)

lemma mem_reads:
  "rd_PTTL mem_redis k r = (case r k of None \<Rightarrow> - 2 | Some (_, None) \<Rightarrow> - 1 | Some (_, Some t) \<Rightarrow> int t)"
  "rd_LRANGE mem_redis k r = mem_get k r"
  "rd_TYPE mem_redis k r =
     (case r k of None \<Rightarrow> TNone | Some (MStr, _) \<Rightarrow> TString | Some (MList _ _, _) \<Rightarrow> TList)"
  "rd_elapse mem_redis d r k =
     (case r k of
        Some (c, Some t) \<Rightarrow> if int t \<le> d then None else Some (c, Some (t - nat d))
      | x \<Rightarrow> x)"
  by (simp_all add: mem_redis_def)

lemma mem_put_other [simp]: "k' \<noteq> k \<Longrightarrow> mem_put k l t r k' = r k'"
  by (cases l) simp_all

lemma mem_put_get [simp]: "mem_get k (mem_put k l t r) = l"
  by (cases l) (simp_all add: mem_get_def)

lemma mem_same_key: "r' k = r k \<Longrightarrow> same_key mem_redis k r r'"
  by (simp add: same_key_def mem_reads mem_get_def)

lemma mem_put_TYPE: "rd_TYPE mem_redis k (mem_put k l t r) = (if l = [] then TNone else TList)"
  by (cases l) (simp_all add: mem_reads)

lemma mem_put_ttl [simp]: "l \<noteq> [] \<Longrightarrow> mem_ttl k (mem_put k l t r) = t"
  by (cases l) (simp_all add: mem_ttl_def)

lemma mem_TYPE_absent [simp]: "rd_TYPE mem_redis k (r(k := None)) = TNone"
  by (simp add: mem_reads)

lemma mem_PTTL: "mem_get k r \<noteq> [] \<Longrightarrow>
    rd_PTTL mem_redis k r = (case mem_ttl k r of None \<Rightarrow> - 1 | Some n \<Rightarrow> int n)"
  by (auto simp: mem_reads mem_get_def mem_ttl_def split: option.splits)

lemma mem_TYPE: "rd_TYPE mem_redis k r = TList \<longleftrightarrow> mem_get k r \<noteq> []"
  by (auto simp: mem_reads mem_get_def split: option.splits mem_value.splits)

lemma mem_law_SET: "law_SET mem_redis"
  unfolding law_SET_def by (simp add: mem_cmds mem_same_key) (simp add: mem_reads)

lemma mem_law_DEL: "law_DEL mem_redis"
  unfolding law_DEL_def by (simp add: mem_cmds mem_same_key)

lemma mem_law_LPUSH: "law_LPUSH mem_redis"
  unfolding law_LPUSH_def
proof (intro allI)
  fix k v and r :: memdb
  show "if rd_TYPE mem_redis k r = TString then \<exists>e. rd_LPUSH mem_redis k v r = (Inl e, r)
     else \<exists>r'. rd_LPUSH mem_redis k v r = (Inr (int (length (rd_LRANGE mem_redis k r)) + 1), r')
             \<and> rd_LRANGE mem_redis k r' = v # rd_LRANGE mem_redis k r \<and> rd_TYPE mem_redis k r' = TList
             \<and> rd_PTTL mem_redis k r' = (if rd_TYPE mem_redis k r = TList then rd_PTTL mem_redis k r else - 1)
             \<and> (\<forall>k'. k' \<noteq> k \<longrightarrow> same_key mem_redis k' r r')"
  proof (cases "rd_TYPE mem_redis k r")
    case TString
    then show ?thesis by (auto simp: mem_cmds mem_reads split: option.splits mem_value.splits)
  next
    case TList
    then have "rd_LPUSH mem_redis k v r
        = (Inr (int (length (mem_get k r)) + 1), mem_put k (v # mem_get k r) (mem_ttl k r) r)"
      by (auto simp: mem_cmds mem_reads split: option.splits mem_value.splits)
    then show ?thesis
      using TList mem_TYPE [of k r]
      by (simp add: mem_put_TYPE mem_PTTL mem_same_key mem_reads(2) del: mem_put.simps)
  next
    case TNone
    then have "r k = None" by (auto simp: mem_reads split: option.splits mem_value.splits)
    then have "rd_LPUSH mem_redis k v r
        = (Inr (int (length (mem_get k r)) + 1), mem_put k (v # mem_get k r) None r)"
      by (simp add: mem_cmds mem_ttl_def)
    then show ?thesis
      using TNone by (simp add: mem_put_TYPE mem_PTTL mem_same_key mem_reads(2) del: mem_put.simps)
  qed
qed

lemma mem_law_LTRIM: "law_LTRIM mem_redis"
  unfolding law_LTRIM_def
  by (auto simp: mem_cmds(3) mem_reads(2) mem_put_TYPE mem_PTTL mem_TYPE
      intro: mem_same_key)

lemma mem_law_BRPOP: "law_BRPOP mem_redis"
  unfolding law_BRPOP_def
proof (intro allI)
  fix ks and r :: memdb
  show "case filter (\<lambda>k. rd_LRANGE mem_redis k r \<noteq> []) ks of
       [] \<Rightarrow> rd_BRPOP mem_redis ks r = (None, r)
     | k # _ \<Rightarrow>
         \<exists>r'. rd_BRPOP mem_redis ks r = (Some (k, last (rd_LRANGE mem_redis k r)), r')
            \<and> rd_LRANGE mem_redis k r' = butlast (rd_LRANGE mem_redis k r)
            \<and> (rd_LRANGE mem_redis k r' \<noteq> [] \<longrightarrow>
                 rd_TYPE mem_redis k r' = TList \<and> rd_PTTL mem_redis k r' = rd_PTTL mem_redis k r)
            \<and> (rd_LRANGE mem_redis k r' = [] \<longrightarrow> rd_TYPE mem_redis k r' = TNone)
            \<and> (\<forall>k'. k' \<noteq> k \<longrightarrow> same_key mem_redis k' r r')"
  proof (cases "filter (\<lambda>k. mem_get k r \<noteq> []) ks")
    case Nil
    then show ?thesis by (simp add: mem_cmds(5) mem_reads(2))
  next
    case (Cons k xs)
    then have "mem_get k r \<noteq> []" by (auto dest!: Cons_eq_filterD [OF sym])
    with Cons show ?thesis
      by (simp add: mem_cmds(5) mem_reads(2) mem_put_TYPE mem_PTTL mem_same_key del: mem_put.simps)
  qed
qed

lemma mem_law_reads: "law_reads mem_redis"
  by (auto simp: law_reads_def mem_reads mem_get_def split: option.splits mem_value.splits)

lemma mem_law_elapse: "law_elapse mem_redis"
  unfolding law_elapse_def
  by (auto simp: same_key_def mem_reads mem_get_def split: option.splits mem_value.splits)

lemma mem_laws [simp]: "redis_laws mem_redis"
  by (simp add: redis_laws_def mem_law_SET mem_law_LPUSH mem_law_DEL mem_law_LTRIM mem_law_BRPOP
      mem_law_reads mem_law_elapse)

end
