(* ===== verification/Capped_Queue.thy ===== *)
theory Capped_Queue
  imports Juggler_Prelude
begin

text \<open>
  The contract of the queues the brokers keep: named first-in first-out queues with a
  capacity, in a state that other operations change too. The locale \<open>capped_queue\<close> has the
  laws of the operations as its assumptions; inside it, every interleaving of the
  operations is shown to deliver, for each name, exactly what was accepted, in order.
\<close>

section \<open>Interleavings\<close>

datatype ('i, 'k, 'o) qop = Enq 'i | Deq 'k | Pass 'o

text \<open>
  \<open>run_queue\<close> runs a list of operations and returns what was accepted and what was
  delivered, with the name of the queue, in order, and the final state.
\<close>

fun run_queue ::
  "('i \<Rightarrow> 's \<Rightarrow> err option \<times> 's) \<Rightarrow> ('k \<Rightarrow> 's \<Rightarrow> 'p option \<times> 's) \<Rightarrow> ('o \<Rightarrow> 's \<Rightarrow> 's)
     \<Rightarrow> ('i \<Rightarrow> 'k) \<Rightarrow> ('i \<Rightarrow> 'p) \<Rightarrow> ('i, 'k, 'o) qop list \<Rightarrow> 's
     \<Rightarrow> ('k \<times> 'p) list \<times> ('k \<times> 'p) list \<times> 's" where
  "run_queue enq deq other key item [] s = ([], [], s)"
| "run_queue enq deq other key item (Enq i # ops) s =
     (case enq i s of (e, s1) \<Rightarrow>
      case run_queue enq deq other key item ops s1 of (acc, del, s2) \<Rightarrow>
        ((if e = None then (key i, item i) # acc else acc), del, s2))"
| "run_queue enq deq other key item (Deq k # ops) s =
     (case deq k s of (x, s1) \<Rightarrow>
      case run_queue enq deq other key item ops s1 of (acc, del, s2) \<Rightarrow>
        (acc, (case x of None \<Rightarrow> del | Some p \<Rightarrow> (k, p) # del), s2))"
| "run_queue enq deq other key item (Pass c # ops) s =
     run_queue enq deq other key item ops (other c s)"

text \<open>The items of one queue in such a log.\<close>

definition items_of :: "'k \<Rightarrow> ('k \<times> 'p) list \<Rightarrow> 'p list" where
  "items_of k l = map snd (filter (\<lambda>x. fst x = k) l)"

lemma items_of_Nil [simp]: "items_of k [] = []"
  by (simp add: items_of_def)

lemma items_of_Cons [simp]:
  "items_of k ((k', p) # l) = (if k' = k then p # items_of k l else items_of k l)"
  by (simp add: items_of_def)

fun sure_op :: "('i \<Rightarrow> bool) \<Rightarrow> ('o \<Rightarrow> bool) \<Rightarrow> ('i, 'k, 'o) qop \<Rightarrow> bool" where
  "sure_op sure calm (Enq i) = sure i"
| "sure_op sure calm (Deq k) = True"
| "sure_op sure calm (Pass c) = calm c"

section \<open>The contract\<close>

locale capped_queue =
  fixes enq :: "'i \<Rightarrow> 's \<Rightarrow> err option \<times> 's"
    and deq :: "'k \<Rightarrow> 's \<Rightarrow> 'p option \<times> 's"
    and other :: "'o \<Rightarrow> 's \<Rightarrow> 's"
    and key :: "'i \<Rightarrow> 'k"
    and item :: "'i \<Rightarrow> 'p"
    and sure :: "'i \<Rightarrow> bool"
    and calm :: "'o \<Rightarrow> bool"
    and cap :: int
    and queue :: "'s \<Rightarrow> 'k \<Rightarrow> 'p list"
    and invar :: "'s \<Rightarrow> bool"
  assumes enq_invar: "invar s \<Longrightarrow> sure i \<Longrightarrow> enq i s = (reply, s') \<Longrightarrow> invar s'"
    and enq_accepted: "invar s \<Longrightarrow> sure i \<Longrightarrow> enq i s = (None, s')
      \<Longrightarrow> queue s' = (queue s)(key i := queue s (key i) @ [item i])"
    and enq_refused: "invar s \<Longrightarrow> sure i \<Longrightarrow> enq i s = (Some e, s') \<Longrightarrow> queue s' = queue s"
    and deq_next: "invar s \<Longrightarrow> queue s k = x # xs
      \<Longrightarrow> \<exists>s'. deq k s = (Some x, s') \<and> invar s' \<and> queue s' = (queue s)(k := xs)"
    and deq_empty: "invar s \<Longrightarrow> queue s k = [] \<Longrightarrow> deq k s = (None, s)"
    and other_invar: "invar s \<Longrightarrow> calm c \<Longrightarrow> invar (other c s)"
    and other_queue: "invar s \<Longrightarrow> calm c \<Longrightarrow> queue (other c s) = queue s"
    and bounded: "invar s \<Longrightarrow> 0 < cap \<Longrightarrow> int (length (queue s k)) \<le> cap"
begin

lemma run_fifo:
  assumes "invar s" and "list_all (sure_op sure calm) ops"
    and "run_queue enq deq other key item ops s = (acc, del, s')"
  shows "invar s' \<and> queue s k @ items_of k acc = items_of k del @ queue s' k"
  using assms
proof (induction ops arbitrary: s acc del)
  case Nil
  then show ?case by simp
next
  case (Cons a ops)
  show ?case
  proof (cases a)
    case (Enq i)
    obtain e s1 where e: "enq i s = (e, s1)" by fastforce
    obtain acc1 del1 where r: "run_queue enq deq other key item ops s1 = (acc1, del1, s')"
      and eq: "acc = (if e = None then (key i, item i) # acc1 else acc1)" "del = del1"
      using Cons.prems(3) Enq e by (auto split: prod.splits)
    have "sure i" using Cons.prems(2) Enq by simp
    have "invar s1" using enq_invar [OF Cons.prems(1) \<open>sure i\<close> e] .
    then have IH: "invar s' \<and> queue s1 k @ items_of k acc1 = items_of k del1 @ queue s' k"
      using Cons.IH [of s1 acc1 del1] Cons.prems(2) r by simp
    show ?thesis
    proof (cases e)
      case None
      then show ?thesis
        using IH eq enq_accepted [OF Cons.prems(1) \<open>sure i\<close>] e by (auto split: if_splits)
    next
      case (Some x)
      then show ?thesis
        using IH eq enq_refused [OF Cons.prems(1) \<open>sure i\<close>] e by simp
    qed
  next
    case (Deq k')
    show ?thesis
    proof (cases "queue s k'")
      case empty: Nil
      then show ?thesis
        using deq_empty [OF Cons.prems(1) empty] Cons Deq by (auto split: prod.splits)
    next
      case queued: (Cons x xs)
      obtain s1 where d: "deq k' s = (Some x, s1)" "invar s1" "queue s1 = (queue s)(k' := xs)"
        using deq_next [OF Cons.prems(1) queued] by blast
      obtain acc1 del1 where r: "run_queue enq deq other key item ops s1 = (acc1, del1, s')"
        and eq: "acc = acc1" "del = (k', x) # del1"
        using Cons.prems(3) Deq d by (auto split: prod.splits)
      show ?thesis
        using Cons.IH [OF d(2) _ r] Cons.prems(2) d(3) eq queued by (auto split: if_splits)
    qed
  next
    case (Pass c)
    then show ?thesis
      using Cons.IH [of "other c s" acc del] Cons.prems other_invar other_queue by simp
  qed
qed

text \<open>From an empty queue: what was delivered is a prefix of what was accepted, and the
  rest, at most the capacity, is still queued.\<close>

lemma run_delivers_in_order:
  assumes "invar s" and "queue s k = []" and "list_all (sure_op sure calm) ops"
    and "run_queue enq deq other key item ops s = (acc, del, s')"
  shows "items_of k acc = items_of k del @ queue s' k
    \<and> (0 < cap \<longrightarrow> int (length (items_of k acc)) - int (length (items_of k del)) \<le> cap)"
proof -
  have r: "invar s'" "items_of k acc = items_of k del @ queue s' k"
    using run_fifo [OF assms(1,3,4), of k] assms(2) by auto
  then show ?thesis using bounded [OF r(1), of k] by auto
qed

end

end
