(* ===== verification/Redis_Broker.thy ===== *)
theory Redis_Broker
  imports Payload Redis Capped_Queue
begin

text \<open>
  The redis broker (\<^verbatim>\<open>broker/redisbroker/broker.go\<close>): its keys, the Lua scripts it
  runs, the connections it makes cluster-aware, and the registration of calls, results and
  events. A short-lived connection of the pool is the record \<open>rconn\<close>; the database itself
  is passed explicitly. \<open>fault\<close> says what happens to one round trip to redis: nothing, an
  error before the command was executed, or an error after it (the reply was lost).
\<close>

section \<open>Connections\<close>

text \<open>
  \<^verbatim>\<open>redis.Conn\<close>: the commands it offers, its \<^verbatim>\<open>Bind\<close> method when it has one (a
  cluster connection: the error, and the connection bound to a node), and
  \<^verbatim>\<open>redisc.RetryConn\<close>.
\<close>

record 'r rconn =
  rc_cmds :: "'r redis"
  rc_Bind :: "(string list \<Rightarrow> err option \<times> 'r redis) option"
  rc_Retry :: "'r redis \<Rightarrow> int \<Rightarrow> duration \<Rightarrow> 'r redis result"

definition clusterConnMaxAttempts :: int where "clusterConnMaxAttempts = 4"

definition clusterConnTryAgainDelay :: duration where
  "clusterConnTryAgainDelay = 100 * Millisecond"

definition clusterifyConn :: "'r rconn \<Rightarrow> string list \<Rightarrow> 'r redis" where
  "clusterifyConn rc keys =
     (case rc_Bind rc of
        None \<Rightarrow> rc_cmds rc
      | Some bind \<Rightarrow>
          (case bind keys of
             (Some _, c) \<Rightarrow> c
           | (None, c) \<Rightarrow>
               (case rc_Retry rc c clusterConnMaxAttempts clusterConnTryAgainDelay of
                  Inr retry \<Rightarrow> retry
                | Inl _ \<Rightarrow> c)))"

datatype fault = NoFault | NotExecuted err | ReplyLost err

definition roundtrip :: "fault \<Rightarrow> ('r \<Rightarrow> 'a result \<times> 'r) \<Rightarrow> 'r \<Rightarrow> 'a result \<times> 'r" where
  "roundtrip f cmd r =
     (case f of
        NoFault \<Rightarrow> cmd r
      | NotExecuted e \<Rightarrow> (Inl e, r)
      | ReplyLost e \<Rightarrow> (Inl e, snd (cmd r)))"

section \<open>Keys\<close>

definition callKey :: "string \<Rightarrow> string" where
  "callKey uri = ''juggler:calls:{'' @ uri @ ''}''"

definition callTimeoutKey :: "string \<Rightarrow> string \<Rightarrow> string" where
  "callTimeoutKey uri mUUID = ''juggler:calls:timeout:{'' @ uri @ ''}:'' @ mUUID"

definition resKey :: "string \<Rightarrow> string" where
  "resKey cUUID = ''juggler:results:{'' @ cUUID @ ''}''"

definition resTimeoutKey :: "string \<Rightarrow> string \<Rightarrow> string" where
  "resTimeoutKey cUUID mUUID = ''juggler:results:timeout:{'' @ cUUID @ ''}:'' @ mUUID"

section \<open>Scripts\<close>

text \<open>
  The Lua scripts, which redis runs atomically; an error of \<^verbatim>\<open>redis.call\<close> ends the
  script with that error.
\<close>

definition callOrResScript ::
  "'r redis \<Rightarrow> string \<Rightarrow> string \<Rightarrow> int \<Rightarrow> wire \<Rightarrow> int \<Rightarrow> 'r \<Rightarrow> int result \<times> 'r" where
  "callOrResScript R k1 k2 to p limit r =
     (case rd_SET_PX R k1 (Itoa to) to r of
        (Inl e, r) \<Rightarrow> (Inl e, r)
      | (Inr _, r) \<Rightarrow>
          (case rd_LPUSH R k2 p r of
             (Inl e, r) \<Rightarrow> (Inl e, r)
           | (Inr res, r) \<Rightarrow>
               if limit < res \<and> 0 < limit then
                 let diff = res - limit in
                 (case rd_LTRIM R k2 diff (limit + diff) r of
                    (Inl e, r) \<Rightarrow> (Inl e, r)
                  | (Inr _, r) \<Rightarrow> (Inl (ErrText ''list capacity exceeded''), r))
               else (Inr res, r)))"

definition delAndPTTLScript :: "'r redis \<Rightarrow> string \<Rightarrow> 'r \<Rightarrow> int result \<times> 'r" where
  "delAndPTTLScript R k r = (let res = rd_PTTL R k r; (_, r) = rd_DEL R k r in (Inr res, r))"

section \<open>The broker\<close>

record Broker =
  BlockingTimeout :: duration
  CallCap :: int
  ResultCap :: int
  Broker_Vars :: vars

definition DefaultCallTimeout :: duration where
  "DefaultCallTimeout = Minute"

text \<open>The timeout of the expiring key, in milliseconds.\<close>

definition timeout_ms :: "duration \<Rightarrow> int" where
  "timeout_ms timeout =
     (let to = go_div timeout Millisecond in
      if to = 0 then go_div DefaultCallTimeout Millisecond else to)"

definition registerCallOrRes ::
  "'r rconn \<Rightarrow> fault \<Rightarrow> wire \<Rightarrow> duration \<Rightarrow> int \<Rightarrow> string \<Rightarrow> string \<Rightarrow> 'r \<Rightarrow> err option \<times> 'r" where
  "registerCallOrRes pool f pld timeout cap k1 k2 r =
     (case pld of
        None \<Rightarrow> (Some ErrJSON, r)
      | Some p \<Rightarrow>
          let rc = clusterifyConn pool [k1, k2]; to = timeout_ms timeout in
          (case roundtrip f (callOrResScript rc k1 k2 to (Some p) cap) r of
             (Inl e, r) \<Rightarrow> (Some e, r)
           | (Inr _, r) \<Rightarrow> (None, r)))"

definition Broker_Call ::
  "codec \<Rightarrow> 'r rconn \<Rightarrow> Broker \<Rightarrow> fault \<Rightarrow> callPayload \<Rightarrow> duration \<Rightarrow> 'r \<Rightarrow> err option \<times> 'r" where
  "Broker_Call C pool b f cp timeout =
     registerCallOrRes pool f (Some (encode_callPayload C cp)) timeout (CallCap b)
       (callTimeoutKey (cp_URI cp) (uuid_String C (cp_MsgUUID cp))) (callKey (cp_URI cp))"

definition Broker_Result ::
  "codec \<Rightarrow> 'r rconn \<Rightarrow> Broker \<Rightarrow> fault \<Rightarrow> resPayload \<Rightarrow> duration \<Rightarrow> 'r \<Rightarrow> err option \<times> 'r" where
  "Broker_Result C pool b f rp timeout =
     registerCallOrRes pool f (Some (encode_resPayload C rp)) timeout (ResultCap b)
       (resTimeoutKey (uuid_String C (rp_ConnUUID rp)) (uuid_String C (rp_MsgUUID rp)))
       (resKey (uuid_String C (rp_ConnUUID rp)))"

text \<open>
  \<^verbatim>\<open>Publish\<close>: the pub-sub part of redis is a function of its own, \<open>publish\<close>, that
  takes the connection (bound to a random node first, when it can be bound), the channel
  and the text.
\<close>

definition Broker_Publish ::
  "codec \<Rightarrow> 'r rconn \<Rightarrow> ('r redis \<Rightarrow> string \<Rightarrow> wire \<Rightarrow> 'q \<Rightarrow> int result \<times> 'q) \<Rightarrow> fault
     \<Rightarrow> string \<Rightarrow> pubPayload \<Rightarrow> 'q \<Rightarrow> err option \<times> 'q" where
  "Broker_Publish C pool publish f channel pp q =
     (let p = encode_pubPayload C pp;
          rc = (case rc_Bind pool of None \<Rightarrow> rc_cmds pool | Some bind \<Rightarrow> snd (bind [])) in
      case roundtrip f (publish rc channel (Some p)) q of
        (Inl e, q) \<Rightarrow> (Some e, q)
      | (Inr _, q) \<Rightarrow> (None, q))"

section \<open>The scripts on the queues\<close>

text \<open>A key that may hold a queue: no string, and no expiration.\<close>

definition queue_ok :: "'r redis \<Rightarrow> 'r \<Rightarrow> string \<Rightarrow> bool" where
  "queue_ok R r k \<longleftrightarrow> rd_TYPE R k r \<noteq> TString \<and> rd_PTTL R k r < 0"

lemma queue_ok_same: "same_key R k r r' \<Longrightarrow> queue_ok R r' k = queue_ok R r k"
  by (simp add: same_key_def queue_ok_def)

lemma LRANGE_same: "same_key R k r r' \<Longrightarrow> rd_LRANGE R k r' = rd_LRANGE R k r"
  by (simp add: same_key_def)

lemma script_invalid:
  assumes "redis_laws R" and "to \<le> 0"
  obtains e where "callOrResScript R k1 k2 to p cap r = (Inl e, r)"
proof -
  obtain e where "rd_SET_PX R k1 (Itoa to) to r = (Inl e, r)"
    by (rule SET_invalid [OF assms])
  then have "callOrResScript R k1 k2 to p cap r = (Inl e, r)" by (simp add: callOrResScript_def)
  then show thesis by (rule that)
qed

lemma script_pushed:
  assumes laws: "redis_laws R" and ok: "queue_ok R r k2" and ne: "k1 \<noteq> k2" and to: "0 < to"
    and room: "cap \<le> 0 \<or> int (length (rd_LRANGE R k2 r)) < cap"
  obtains r' where
    "callOrResScript R k1 k2 to p cap r = (Inr (int (length (rd_LRANGE R k2 r)) + 1), r')"
    "rd_LRANGE R k2 r' = p # rd_LRANGE R k2 r" "queue_ok R r' k2"
    "rd_PTTL R k1 r' = to" "rd_TYPE R k1 r' = TString"
    "\<And>k. k \<noteq> k1 \<Longrightarrow> k \<noteq> k2 \<Longrightarrow> same_key R k r r'"
proof -
  obtain r1 where r1: "rd_SET_PX R k1 (Itoa to) to r = (Inr (), r1)" "rd_PTTL R k1 r1 = to"
    "rd_TYPE R k1 r1 = TString" "\<And>k'. k' \<noteq> k1 \<Longrightarrow> same_key R k' r r1"
    using SET_ok [OF laws to, of k1 "Itoa to" r] by blast
  have s2: "same_key R k2 r r1" using r1(4) ne by metis
  have ok1: "queue_ok R r1 k2" and l1: "rd_LRANGE R k2 r1 = rd_LRANGE R k2 r"
    using ok queue_ok_same [OF s2] LRANGE_same [OF s2] by auto
  then have t1: "rd_TYPE R k2 r1 \<noteq> TString" by (simp add: queue_ok_def)
  obtain r2 where r2: "rd_LPUSH R k2 p r1 = (Inr (int (length (rd_LRANGE R k2 r1)) + 1), r2)"
    "rd_LRANGE R k2 r2 = p # rd_LRANGE R k2 r1" "rd_TYPE R k2 r2 = TList"
    "rd_PTTL R k2 r2 = (if rd_TYPE R k2 r1 = TList then rd_PTTL R k2 r1 else - 1)"
    "\<And>k'. k' \<noteq> k2 \<Longrightarrow> same_key R k' r1 r2"
    using LPUSH_ok [OF laws t1, of p] by blast
  show thesis
  proof (rule that [of r2])
    show "callOrResScript R k1 k2 to p cap r = (Inr (int (length (rd_LRANGE R k2 r)) + 1), r2)"
      using r1(1) r2(1) room by (auto simp: callOrResScript_def l1)
    show "queue_ok R r2 k2" using r2(3,4) ok1 by (auto simp: queue_ok_def)
    show "rd_PTTL R k1 r2 = to" "rd_TYPE R k1 r2 = TString"
      using r2(5) [OF ne] r1(2,3) by (simp_all add: same_key_def)
    show "same_key R k r r2" if "k \<noteq> k1" "k \<noteq> k2" for k
      using r1(4) [OF that(1)] r2(5) [OF that(2)] by (rule same_key_trans)
    show "rd_LRANGE R k2 r2 = p # rd_LRANGE R k2 r" using r2(2) l1 by simp
  qed
qed

lemma script_limit:
  assumes "callOrResScript R k1 k2 to p 0 r = (Inr n, r')" and "cap < n" and "0 < cap"
    and "rd_LTRIM R k2 (n - cap) n r' = (Inr (), r'')"
  shows "callOrResScript R k1 k2 to p cap r = (Inl (ErrText ''list capacity exceeded''), r'')"
proof -
  obtain x r1 where 1: "rd_SET_PX R k1 (Itoa to) to r = (x, r1)" by fastforce
  obtain y r2 where 2: "rd_LPUSH R k2 p r1 = (y, r2)" by fastforce
  have "x = Inr () \<and> y = Inr n \<and> r2 = r'"
    using assms(1) 1 2 by (cases x; cases y) (simp_all add: callOrResScript_def)
  then show ?thesis using assms(2-4) 1 2 by (simp add: callOrResScript_def)
qed

text \<open>Over capacity: the queue is cut back to its oldest \<open>cap\<close> entries (\<^verbatim>\<open>LPUSH\<close>
  puts the newest first), so that a queue within its capacity is left as it was. The
  expiring key of the refused call stays.\<close>

lemma script_full:
  assumes laws: "redis_laws R" and ok: "queue_ok R r k2" and ne: "k1 \<noteq> k2" and to: "0 < to"
    and full: "0 < cap" "cap \<le> int (length (rd_LRANGE R k2 r))"
  obtains r' where
    "callOrResScript R k1 k2 to p cap r = (Inl (ErrText ''list capacity exceeded''), r')"
    "rd_LRANGE R k2 r' = drop (length (rd_LRANGE R k2 r) - nat cap) (rd_LRANGE R k2 r)"
    "queue_ok R r' k2" "\<And>k. k \<noteq> k1 \<Longrightarrow> k \<noteq> k2 \<Longrightarrow> same_key R k r r'"
proof -
  obtain r2 where r2:
    "callOrResScript R k1 k2 to p 0 r = (Inr (int (length (rd_LRANGE R k2 r)) + 1), r2)"
    "rd_LRANGE R k2 r2 = p # rd_LRANGE R k2 r" "queue_ok R r2 k2"
    "\<And>k. k \<noteq> k1 \<Longrightarrow> k \<noteq> k2 \<Longrightarrow> same_key R k r r2"
    using script_pushed [OF laws ok ne to disjI1 [OF order_refl], of p] by blast
  let ?n = "int (length (rd_LRANGE R k2 r)) + 1"
  have t2: "rd_TYPE R k2 r2 = TList" using reads_list [OF laws, of k2 r2] r2(2) by auto
  obtain r3 where r3: "rd_LTRIM R k2 (?n - cap) ?n r2 = (Inr (), r3)"
    "rd_LRANGE R k2 r3 = take (nat (?n - (?n - cap) + 1)) (drop (nat (?n - cap)) (rd_LRANGE R k2 r2))"
    "rd_LRANGE R k2 r3 \<noteq> [] \<Longrightarrow> rd_TYPE R k2 r3 = TList \<and> rd_PTTL R k2 r3 = rd_PTTL R k2 r2"
    "\<And>k'. k' \<noteq> k2 \<Longrightarrow> same_key R k' r2 r3"
    by (rule LTRIM_ok [OF laws t2, of "?n - cap" ?n]) (use full in auto)
  have n: "nat (?n - cap) = Suc (length (rd_LRANGE R k2 r) - nat cap)" using full by linarith
  have l3: "rd_LRANGE R k2 r3 = drop (length (rd_LRANGE R k2 r) - nat cap) (rd_LRANGE R k2 r)"
    using r3(2) r2(2) full by (simp add: n)
  have "length (rd_LRANGE R k2 r3) = nat cap" using l3 full by simp
  then have "rd_LRANGE R k2 r3 \<noteq> []" using full(1) by auto
  with r3(3) r2(3) have ok3: "queue_ok R r3 k2" by (simp add: queue_ok_def)
  have scr: "callOrResScript R k1 k2 to p cap r = (Inl (ErrText ''list capacity exceeded''), r3)"
    by (rule script_limit [OF r2(1) _ full(1) r3(1)]) (use full in linarith)
  have same: "same_key R k r r3" if "k \<noteq> k1" "k \<noteq> k2" for k
    using r2(4) [OF that] r3(4) [OF that(2)] by (rule same_key_trans)
  show thesis by (rule that [OF scr l3 ok3 same])
qed

section \<open>Keys: names and hash slots\<close>

text \<open>
  The hash tag of a key, as the redis cluster specification defines it: what is between
  the first \<^verbatim>\<open>{\<close> and the first \<^verbatim>\<open>}\<close> after it when that is not empty, and
  the whole key otherwise. The specification says that keys with the same hash tag are in
  the same slot.
\<close>

definition hash_tag :: "string \<Rightarrow> string" where
  "hash_tag k =
     (case dropWhile (\<lambda>c. c \<noteq> CHR ''{'') k of
        [] \<Rightarrow> k
      | _ # rest \<Rightarrow>
          let tag = takeWhile (\<lambda>c. c \<noteq> CHR ''}'') rest in
          if tag = [] \<or> CHR ''}'' \<notin> set rest then k else tag)"

definition law_slot :: "(string \<Rightarrow> nat) \<Rightarrow> bool" where
  "law_slot slot \<longleftrightarrow> (\<forall>k k'. hash_tag k = hash_tag k' \<longrightarrow> slot k = slot k')"

definition same_slot :: "(string \<Rightarrow> nat) \<Rightarrow> string list \<Rightarrow> bool" where
  "same_slot slot ks \<longleftrightarrow> (\<forall>k \<in> set ks. \<forall>k' \<in> set ks. slot k = slot k')"

text \<open>A name that makes a hash tag: not empty, and not starting with a closing brace.\<close>

definition tags :: "string \<Rightarrow> bool" where
  "tags s \<longleftrightarrow> s \<noteq> [] \<and> hd s \<noteq> CHR ''}''"

lemma hash_tag_braces:
  assumes "tags s" and "CHR ''{'' \<notin> set pre"
  shows "hash_tag (pre @ CHR ''{'' # s @ CHR ''}'' # rest) = takeWhile (\<lambda>c. c \<noteq> CHR ''}'') s"
proof -
  have "dropWhile (\<lambda>c. c \<noteq> CHR ''{'') (pre @ CHR ''{'' # s @ CHR ''}'' # rest)
      = CHR ''{'' # s @ CHR ''}'' # rest"
    using assms(2) by (simp add: dropWhile_append)
  moreover have "takeWhile (\<lambda>c. c \<noteq> CHR ''}'') (s @ CHR ''}'' # rest)
      = takeWhile (\<lambda>c. c \<noteq> CHR ''}'') s"
    by (simp add: takeWhile_tail)
  moreover have "takeWhile (\<lambda>c. c \<noteq> CHR ''}'') s \<noteq> []"
    using assms(1) by (cases s) (auto simp: tags_def)
  ultimately show ?thesis by (simp add: hash_tag_def)
qed

lemma hash_tag_call:
  assumes "tags uri"
  shows "hash_tag (callTimeoutKey uri u) = hash_tag (callKey uri)"
  using hash_tag_braces [OF assms, of "''juggler:calls:timeout:''" "'':'' @ u"]
    hash_tag_braces [OF assms, of "''juggler:calls:''" "[]"]
  by (simp add: callKey_def callTimeoutKey_def)

lemma hash_tag_res:
  assumes "tags c"
  shows "hash_tag (resTimeoutKey c u) = hash_tag (resKey c)"
  using hash_tag_braces [OF assms, of "''juggler:results:timeout:''" "'':'' @ u"]
    hash_tag_braces [OF assms, of "''juggler:results:''" "[]"]
  by (simp add: resKey_def resTimeoutKey_def)

text \<open>The keys of the lists of calls and of results, and those of the expirations.\<close>

definition list_key :: "string \<Rightarrow> bool" where
  "list_key k \<longleftrightarrow> (\<exists>s. k = callKey s \<or> k = resKey s)"

lemma list_key_simps [simp]: "list_key (callKey s)" "list_key (resKey s)"
  by (auto simp: list_key_def)

lemma not_list_key [simp]: "\<not> list_key (callTimeoutKey s u)" "\<not> list_key (resTimeoutKey s u)"
  by (auto simp: list_key_def callKey_def resKey_def callTimeoutKey_def resTimeoutKey_def)

lemma key_inject [simp]:
  "callKey s = callKey s' \<longleftrightarrow> s = s'" "resKey s = resKey s' \<longleftrightarrow> s = s'"
  "callKey s \<noteq> resKey s'" "resKey s' \<noteq> callKey s"
  by (auto simp: callKey_def resKey_def)

lemma timeout_key_inject:
  assumes "length u = length u'"
  shows "callTimeoutKey s u = callTimeoutKey s' u' \<longleftrightarrow> s = s' \<and> u = u'"
    and "resTimeoutKey s u = resTimeoutKey s' u' \<longleftrightarrow> s = s' \<and> u = u'"
    and "callTimeoutKey s u \<noteq> resTimeoutKey s' u'"
  using assms by (auto simp: callTimeoutKey_def resTimeoutKey_def append_eq_append_conv)

section \<open>What a pool provides\<close>

text \<open>
  A pool serves a redis: a plain connection is one to it; a cluster connection can be
  bound to the node of keys that are in one slot and made to follow redirections, and then
  is one to it.
\<close>

definition serves :: "(string \<Rightarrow> nat) \<Rightarrow> 'r rconn \<Rightarrow> 'r redis \<Rightarrow> bool" where
  "serves slot rc R \<longleftrightarrow>
     (case rc_Bind rc of
        None \<Rightarrow> rc_cmds rc = R
      | Some bind \<Rightarrow> \<forall>ks. same_slot slot ks \<longrightarrow>
          (\<exists>c. bind ks = (None, c) \<and> (\<forall>n d. rc_Retry rc c n d = Inr R)))"

text \<open>The keys that a call or a result uses are reachable on one connection.\<close>

definition keys_ok :: "'r rconn \<Rightarrow> string \<Rightarrow> bool" where
  "keys_ok rc s \<longleftrightarrow> rc_Bind rc = None \<or> tags s"

lemma clusterify_plain: "serves slot rc R \<Longrightarrow> rc_Bind rc = None \<Longrightarrow> clusterifyConn rc ks = R"
  by (simp add: serves_def clusterifyConn_def)

lemma clusterify_bound:
  assumes "serves slot rc R" and "same_slot slot ks"
  shows "clusterifyConn rc ks = R"
  using assms by (auto simp: serves_def clusterifyConn_def split: option.splits)

lemma clusterify_call:
  assumes "law_slot slot" and "serves slot rc R" and "keys_ok rc uri"
  shows "clusterifyConn rc [callTimeoutKey uri u, callKey uri] = R"
proof (cases "rc_Bind rc")
  case None
  then show ?thesis using clusterify_plain [OF assms(2)] by simp
next
  case (Some bind)
  with assms(3) have "tags uri" by (simp add: keys_ok_def)
  then have "hash_tag (callTimeoutKey uri u) = hash_tag (callKey uri)" by (rule hash_tag_call)
  with assms(1) have "slot (callTimeoutKey uri u) = slot (callKey uri)"
    unfolding law_slot_def by blast
  then have "same_slot slot [callTimeoutKey uri u, callKey uri]" by (simp add: same_slot_def)
  then show ?thesis by (rule clusterify_bound [OF assms(2)])
qed

lemma clusterify_res:
  assumes "law_slot slot" and "serves slot rc R" and "keys_ok rc c"
  shows "clusterifyConn rc [resTimeoutKey c u, resKey c] = R"
proof (cases "rc_Bind rc")
  case None
  then show ?thesis using clusterify_plain [OF assms(2)] by simp
next
  case (Some bind)
  with assms(3) have "tags c" by (simp add: keys_ok_def)
  then have "hash_tag (resTimeoutKey c u) = hash_tag (resKey c)" by (rule hash_tag_res)
  with assms(1) have "slot (resTimeoutKey c u) = slot (resKey c)"
    unfolding law_slot_def by blast
  then have "same_slot slot [resTimeoutKey c u, resKey c]" by (simp add: same_slot_def)
  then show ?thesis by (rule clusterify_bound [OF assms(2)])
qed

lemma clusterify_one: "serves slot rc R \<Longrightarrow> clusterifyConn rc [k] = R"
  by (rule clusterify_bound) (simp_all add: same_slot_def)

section \<open>The invariant of the database\<close>

definition broker_invar :: "(string \<Rightarrow> nat) \<Rightarrow> 'r rconn \<Rightarrow> 'r redis \<Rightarrow> 'r \<Rightarrow> bool" where
  "broker_invar slot rc R r \<longleftrightarrow>
     redis_laws R \<and> law_slot slot \<and> serves slot rc R \<and> (\<forall>k. list_key k \<longrightarrow> queue_ok R r k)"

lemma broker_invarD:
  assumes "broker_invar slot rc R r"
  shows "redis_laws R" "law_slot slot" "serves slot rc R" "\<And>k. list_key k \<Longrightarrow> queue_ok R r k"
  using assms by (simp_all add: broker_invar_def)

lemma broker_invar_step:
  assumes "broker_invar slot rc R r" and "\<And>k. list_key k \<Longrightarrow> queue_ok R r' k"
  shows "broker_invar slot rc R r'"
  using assms by (simp add: broker_invar_def)

lemma invar_frame:
  assumes "broker_invar slot rc R r" and "\<not> list_key k1" and "queue_ok R r' k2"
    and "\<And>k. k \<noteq> k1 \<Longrightarrow> k \<noteq> k2 \<Longrightarrow> same_key R k r r'"
  shows "broker_invar slot rc R r'
    \<and> (\<forall>k. list_key k \<longrightarrow> k \<noteq> k2 \<longrightarrow> rd_LRANGE R k r' = rd_LRANGE R k r)"
proof -
  have same: "same_key R k r r'" if "list_key k" "k \<noteq> k2" for k
    using assms(2,4) that by metis
  have "queue_ok R r' k" if "list_key k" for k
    using assms(3) queue_ok_same [OF same [OF that]] broker_invarD(4) [OF assms(1) that]
    by (cases "k = k2") simp_all
  then have "broker_invar slot rc R r'" by (rule broker_invar_step [OF assms(1)])
  then show ?thesis using LRANGE_same [OF same] by simp
qed

text \<open>What a registration does to the queues: the other queues are left as they are, a
  refused payload leaves a queue within its capacity as it is, an accepted one is put at
  the head, and that only happens below the capacity.\<close>

definition registered :: "'r redis \<Rightarrow> string \<Rightarrow> wire \<Rightarrow> int \<Rightarrow> bool \<Rightarrow> 'r \<Rightarrow> 'r \<Rightarrow> bool" where
  "registered R k2 p cap accepted r r' \<longleftrightarrow>
     (\<forall>k. list_key k \<longrightarrow> k \<noteq> k2 \<longrightarrow> rd_LRANGE R k r' = rd_LRANGE R k r)
     \<and> (if accepted
        then rd_LRANGE R k2 r' = p # rd_LRANGE R k2 r
             \<and> (0 < cap \<longrightarrow> int (length (rd_LRANGE R k2 r)) < cap)
        else (0 < cap \<longrightarrow> int (length (rd_LRANGE R k2 r)) \<le> cap)
             \<longrightarrow> rd_LRANGE R k2 r' = rd_LRANGE R k2 r)"

lemma registered_refl: "registered R k2 p cap False r r"
  by (simp add: registered_def)

lemma script_registered:
  assumes inv: "broker_invar slot rc R r" and k: "list_key k2" "\<not> list_key k1"
    and scr: "callOrResScript R k1 k2 to p cap r = (res, r')"
  shows "broker_invar slot rc R r' \<and> registered R k2 p cap (\<not> isl res) r r'"
proof -
  note laws = broker_invarD(1) [OF inv] and ok = broker_invarD(4) [OF inv k(1)]
  have ne: "k1 \<noteq> k2" using k by auto
  consider "to \<le> 0" | "0 < to" "cap \<le> 0 \<or> int (length (rd_LRANGE R k2 r)) < cap"
    | "0 < to" "0 < cap" "cap \<le> int (length (rd_LRANGE R k2 r))" by linarith
  then show ?thesis
  proof cases
    case 1
    obtain e where "callOrResScript R k1 k2 to p cap r = (Inl e, r)"
      by (rule script_invalid [OF laws 1])
    then show ?thesis using scr inv registered_refl by simp
  next
    case 2
    obtain r2 where s: "callOrResScript R k1 k2 to p cap r
        = (Inr (int (length (rd_LRANGE R k2 r)) + 1), r2)"
      "rd_LRANGE R k2 r2 = p # rd_LRANGE R k2 r" "queue_ok R r2 k2"
      "\<And>k. k \<noteq> k1 \<Longrightarrow> k \<noteq> k2 \<Longrightarrow> same_key R k r r2"
      using script_pushed [OF laws ok ne 2] by blast
    show ?thesis
      using invar_frame [OF inv k(2) s(3,4)] scr s(1,2) 2(2) by (auto simp: registered_def)
  next
    case 3
    obtain r2 where s: "callOrResScript R k1 k2 to p cap r
        = (Inl (ErrText ''list capacity exceeded''), r2)"
      "rd_LRANGE R k2 r2 = drop (length (rd_LRANGE R k2 r) - nat cap) (rd_LRANGE R k2 r)"
      "queue_ok R r2 k2" "\<And>k. k \<noteq> k1 \<Longrightarrow> k \<noteq> k2 \<Longrightarrow> same_key R k r r2"
      using script_full [OF laws ok ne 3] by blast
    show ?thesis
      using invar_frame [OF inv k(2) s(3,4)] scr s(1,2) 3(2) by (auto simp: registered_def)
  qed
qed

lemma register_registered:
  assumes inv: "broker_invar slot pool R r" and k: "list_key k2" "\<not> list_key k1"
    and conn: "clusterifyConn pool [k1, k2] = R"
    and reg: "registerCallOrRes pool f (Some p) timeout cap k1 k2 r = (reply, r')"
  shows "broker_invar slot pool R r' \<and> (\<exists>accepted. registered R k2 (Some p) cap accepted r r'
           \<and> (reply = None \<longrightarrow> accepted) \<and> (accepted \<longrightarrow> reply = None \<or> (\<exists>e. f = ReplyLost e)))"
proof -
  obtain res r2 where scr: "callOrResScript R k1 k2 (timeout_ms timeout) (Some p) cap r = (res, r2)"
    by fastforce
  note s = script_registered [OF inv k scr]
  show ?thesis
  proof (cases f)
    case NoFault
    then have "(reply = None \<longleftrightarrow> \<not> isl res) \<and> r' = r2"
      using reg scr conn by (cases res) (auto simp: registerCallOrRes_def roundtrip_def)
    then show ?thesis using s by (intro conjI exI [of _ "\<not> isl res"]) auto
  next
    case (NotExecuted e)
    then have "reply \<noteq> None \<and> r' = r" using reg by (auto simp: registerCallOrRes_def roundtrip_def)
    then show ?thesis using inv registered_refl by (intro conjI exI [of _ False]) auto
  next
    case (ReplyLost e)
    then have "reply \<noteq> None \<and> r' = r2"
      using reg scr conn by (auto simp: registerCallOrRes_def roundtrip_def)
    then show ?thesis using s ReplyLost by (intro conjI exI [of _ "\<not> isl res"]) auto
  qed
qed

lemma BRPOP_effect:
  assumes inv: "broker_invar slot rc R r" and ks: "\<And>k. k \<in> set ks \<Longrightarrow> list_key k"
    and pop: "rd_BRPOP R ks r = (x, r')"
  shows "broker_invar slot rc R r'
    \<and> (case x of
         None \<Rightarrow> r' = r \<and> (\<forall>k \<in> set ks. rd_LRANGE R k r = [])
       | Some (k, v) \<Rightarrow> k \<in> set ks \<and> rd_LRANGE R k r = rd_LRANGE R k r' @ [v]
           \<and> (\<forall>k'. k' \<noteq> k \<longrightarrow> rd_LRANGE R k' r' = rd_LRANGE R k' r))"
proof (cases "filter (\<lambda>k. rd_LRANGE R k r \<noteq> []) ks")
  case Nil
  then have none: "\<And>k. k \<in> set ks \<Longrightarrow> rd_LRANGE R k r = []" by (auto simp: filter_empty_conv)
  have "rd_BRPOP R ks r = (None, r)"
    by (rule BRPOP_none [OF broker_invarD(1) [OF inv] none])
  then show ?thesis using pop inv none by simp
next
  case (Cons k rest)
  then have k: "k \<in> set ks" "rd_LRANGE R k r \<noteq> []"
    by (auto dest!: Cons_eq_filterD [OF sym])
  obtain r2 where p: "rd_BRPOP R ks r = (Some (k, last (rd_LRANGE R k r)), r2)"
    "rd_LRANGE R k r2 = butlast (rd_LRANGE R k r)"
    "rd_LRANGE R k r2 \<noteq> [] \<Longrightarrow> rd_TYPE R k r2 = TList \<and> rd_PTTL R k r2 = rd_PTTL R k r"
    "rd_LRANGE R k r2 = [] \<Longrightarrow> rd_TYPE R k r2 = TNone"
    "\<And>k'. k' \<noteq> k \<Longrightarrow> same_key R k' r r2"
    by (rule BRPOP_some [OF broker_invarD(1) [OF inv] Cons]) blast
  have "queue_ok R r2 k"
    using p(3,4) reads_none(1) [OF broker_invarD(1) [OF inv], of k r2] broker_invarD(4) [OF inv ks [OF k(1)]]
    by (cases "rd_LRANGE R k r2 = []") (simp_all add: queue_ok_def)
  then have "broker_invar slot rc R r2"
    using invar_frame [OF inv, of "callTimeoutKey [] []" r2 k] p(5) by simp
  then show ?thesis using p(1,2) pop k LRANGE_same [OF p(5)] by auto
qed

text \<open>The oldest entry of one queue, as a poll of that queue alone takes it.\<close>

definition brpop :: "'r redis \<Rightarrow> string \<Rightarrow> 'r \<Rightarrow> wire option \<times> 'r" where
  "brpop R k r = (case rd_BRPOP R [k] r of (x, r') \<Rightarrow> (map_option snd x, r'))"

lemma brpop_effect:
  assumes inv: "broker_invar slot rc R r" and k: "list_key k" and pop: "brpop R k r = (x, r')"
  shows "broker_invar slot rc R r' \<and> (\<forall>k'. k' \<noteq> k \<longrightarrow> rd_LRANGE R k' r' = rd_LRANGE R k' r)
    \<and> (case x of None \<Rightarrow> r' = r \<and> rd_LRANGE R k r = []
       | Some v \<Rightarrow> rd_LRANGE R k r = rd_LRANGE R k r' @ [v])"
proof -
  obtain y where y: "rd_BRPOP R [k] r = (y, r')" "x = map_option snd y"
    using pop by (auto simp: brpop_def split: prod.splits)
  have "k' = k" if "k' \<in> set [k]" for k' using that by simp
  then show ?thesis using BRPOP_effect [OF inv _ y(1)] k y(2) by (auto split: option.splits)
qed

lemma delAndPTTL_effect:
  assumes inv: "broker_invar slot rc R r" and k: "\<not> list_key k"
  shows "broker_invar slot rc R (snd (delAndPTTLScript R k r))"
    and "list_key k' \<Longrightarrow> rd_LRANGE R k' (snd (delAndPTTLScript R k r)) = rd_LRANGE R k' r"
proof -
  have d: "snd (delAndPTTLScript R k r) = snd (rd_DEL R k r)"
    by (simp add: delAndPTTLScript_def split: prod.splits)
  have same: "same_key R k' r (snd (rd_DEL R k r))" if "list_key k'" for k'
    using DEL_same [OF broker_invarD(1) [OF inv]] that k by metis
  show "broker_invar slot rc R (snd (delAndPTTLScript R k r))"
    unfolding d using broker_invar_step [OF inv] queue_ok_same [OF same] broker_invarD(4) [OF inv]
    by simp
  show "list_key k' \<Longrightarrow> rd_LRANGE R k' (snd (delAndPTTLScript R k r)) = rd_LRANGE R k' r"
    unfolding d by (rule LRANGE_same [OF same])
qed

lemma elapse_effect:
  assumes inv: "broker_invar slot rc R r" and d: "0 \<le> d"
  shows "broker_invar slot rc R (rd_elapse R d r)"
    and "list_key k \<Longrightarrow> rd_LRANGE R k (rd_elapse R d r) = rd_LRANGE R k r"
proof -
  have same: "same_key R k r (rd_elapse R d r)" if "list_key k" for k
    using elapse_kept [OF broker_invarD(1) [OF inv] d] broker_invarD(4) [OF inv that]
    by (simp add: queue_ok_def)
  show "broker_invar slot rc R (rd_elapse R d r)"
    using broker_invar_step [OF inv] queue_ok_same [OF same] broker_invarD(4) [OF inv] by simp
  show "list_key k \<Longrightarrow> rd_LRANGE R k (rd_elapse R d r) = rd_LRANGE R k r"
    by (rule LRANGE_same [OF same])
qed

section \<open>The queues of calls and of results\<close>

text \<open>
  The other operations on the database while a queue is used: time, the read of an
  expiration, and the operations on the queues of the other kind.
\<close>

datatype background =
    Elapse int
  | CheckTTL string
  | RegisterCall fault callPayload duration
  | RegisterRes fault resPayload duration
  | PopCall string
  | PopRes string

fun background_step ::
  "codec \<Rightarrow> 'r rconn \<Rightarrow> 'r redis \<Rightarrow> Broker \<Rightarrow> background \<Rightarrow> 'r \<Rightarrow> 'r" where
  "background_step C pool R b (Elapse d) r = rd_elapse R d r"
| "background_step C pool R b (CheckTTL k) r = snd (delAndPTTLScript R k r)"
| "background_step C pool R b (RegisterCall f cp t) r = snd (Broker_Call C pool b f cp t r)"
| "background_step C pool R b (RegisterRes f rp t) r = snd (Broker_Result C pool b f rp t r)"
| "background_step C pool R b (PopCall uri) r = snd (brpop R (callKey uri) r)"
| "background_step C pool R b (PopRes c) r = snd (brpop R (resKey c) r)"

fun calm_for_calls :: "codec \<Rightarrow> 'r rconn \<Rightarrow> background \<Rightarrow> bool" where
  "calm_for_calls C pool (Elapse d) = (0 \<le> d)"
| "calm_for_calls C pool (CheckTTL k) = (\<not> list_key k)"
| "calm_for_calls C pool (RegisterRes f rp t) = keys_ok pool (uuid_String C (rp_ConnUUID rp))"
| "calm_for_calls C pool (PopRes c) = True"
| "calm_for_calls C pool _ = False"

fun calm_for_results :: "codec \<Rightarrow> 'r rconn \<Rightarrow> background \<Rightarrow> bool" where
  "calm_for_results C pool (Elapse d) = (0 \<le> d)"
| "calm_for_results C pool (CheckTTL k) = (\<not> list_key k)"
| "calm_for_results C pool (RegisterCall f cp t) = keys_ok pool (cp_URI cp)"
| "calm_for_results C pool (PopCall uri) = True"
| "calm_for_results C pool _ = False"

text \<open>A registration whose reply is not lost, with keys that one connection reaches.\<close>

definition sure_call :: "'r rconn \<Rightarrow> fault \<times> callPayload \<times> duration \<Rightarrow> bool" where
  "sure_call pool = (\<lambda>(f, cp, t). (\<forall>e. f \<noteq> ReplyLost e) \<and> keys_ok pool (cp_URI cp))"

definition sure_res :: "codec \<Rightarrow> 'r rconn \<Rightarrow> fault \<times> resPayload \<times> duration \<Rightarrow> bool" where
  "sure_res C pool =
     (\<lambda>(f, rp, t). (\<forall>e. f \<noteq> ReplyLost e) \<and> keys_ok pool (uuid_String C (rp_ConnUUID rp)))"

definition call_queue :: "'r redis \<Rightarrow> 'r \<Rightarrow> string \<Rightarrow> wire list" where
  "call_queue R r uri = rev (rd_LRANGE R (callKey uri) r)"

definition res_queue :: "'r redis \<Rightarrow> 'r \<Rightarrow> string \<Rightarrow> wire list" where
  "res_queue R r c = rev (rd_LRANGE R (resKey c) r)"

definition call_invar :: "(string \<Rightarrow> nat) \<Rightarrow> 'r rconn \<Rightarrow> 'r redis \<Rightarrow> Broker \<Rightarrow> 'r \<Rightarrow> bool" where
  "call_invar slot pool R b r \<longleftrightarrow> broker_invar slot pool R r
     \<and> (0 < CallCap b \<longrightarrow> (\<forall>uri. int (length (call_queue R r uri)) \<le> CallCap b))"

definition res_invar :: "(string \<Rightarrow> nat) \<Rightarrow> 'r rconn \<Rightarrow> 'r redis \<Rightarrow> Broker \<Rightarrow> 'r \<Rightarrow> bool" where
  "res_invar slot pool R b r \<longleftrightarrow> broker_invar slot pool R r
     \<and> (0 < ResultCap b \<longrightarrow> (\<forall>c. int (length (res_queue R r c)) \<le> ResultCap b))"

lemma Call_effect:
  assumes inv: "broker_invar slot pool R r" and ok: "keys_ok pool (cp_URI cp)"
    and c: "Broker_Call C pool b f cp t r = (reply, r')"
  shows "broker_invar slot pool R r'" and "res_queue R r' = res_queue R r"
    and "\<exists>accepted. registered R (callKey (cp_URI cp)) (Some (encode_callPayload C cp)) (CallCap b)
            accepted r r'
          \<and> (reply = None \<longrightarrow> accepted) \<and> (accepted \<longrightarrow> reply = None \<or> (\<exists>e. f = ReplyLost e))"
proof -
  note reg = register_registered [OF inv list_key_simps(1) not_list_key(1)
      clusterify_call [OF broker_invarD(2,3) [OF inv] ok] c [unfolded Broker_Call_def]]
  then show "broker_invar slot pool R r'"
    and *: "\<exists>accepted. registered R (callKey (cp_URI cp)) (Some (encode_callPayload C cp)) (CallCap b)
            accepted r r'
          \<and> (reply = None \<longrightarrow> accepted) \<and> (accepted \<longrightarrow> reply = None \<or> (\<exists>e. f = ReplyLost e))"
    by blast+
  from * show "res_queue R r' = res_queue R r"
    by (auto simp: registered_def res_queue_def fun_eq_iff)
qed

lemma Result_effect:
  assumes inv: "broker_invar slot pool R r" and ok: "keys_ok pool (uuid_String C (rp_ConnUUID rp))"
    and c: "Broker_Result C pool b f rp t r = (reply, r')"
  shows "broker_invar slot pool R r'" and "call_queue R r' = call_queue R r"
    and "\<exists>accepted. registered R (resKey (uuid_String C (rp_ConnUUID rp)))
            (Some (encode_resPayload C rp)) (ResultCap b) accepted r r'
          \<and> (reply = None \<longrightarrow> accepted) \<and> (accepted \<longrightarrow> reply = None \<or> (\<exists>e. f = ReplyLost e))"
proof -
  note reg = register_registered [OF inv list_key_simps(2) not_list_key(2)
      clusterify_res [OF broker_invarD(2,3) [OF inv] ok] c [unfolded Broker_Result_def]]
  then show "broker_invar slot pool R r'"
    and *: "\<exists>accepted. registered R (resKey (uuid_String C (rp_ConnUUID rp)))
            (Some (encode_resPayload C rp)) (ResultCap b) accepted r r'
          \<and> (reply = None \<longrightarrow> accepted) \<and> (accepted \<longrightarrow> reply = None \<or> (\<exists>e. f = ReplyLost e))"
    by blast+
  from * show "call_queue R r' = call_queue R r"
    by (auto simp: registered_def call_queue_def fun_eq_iff)
qed

lemma Call_queue:
  assumes inv: "call_invar slot pool R b r" and sure: "sure_call pool (f, cp, t)"
    and c: "Broker_Call C pool b f cp t r = (reply, r')"
  shows "call_invar slot pool R b r'"
    and "call_queue R r' = (if reply = None
           then (call_queue R r)(cp_URI cp := call_queue R r (cp_URI cp) @ [Some (encode_callPayload C cp)])
           else call_queue R r)"
proof -
  have binv: "broker_invar slot pool R r"
    and len: "0 < CallCap b \<Longrightarrow> int (length (call_queue R r uri)) \<le> CallCap b" for uri
    using inv by (auto simp: call_invar_def)
  have ok: "keys_ok pool (cp_URI cp)" and nf: "\<And>e. f \<noteq> ReplyLost e"
    using sure by (auto simp: sure_call_def)
  obtain acc where reg: "registered R (callKey (cp_URI cp)) (Some (encode_callPayload C cp)) (CallCap b)
      acc r r'" and acc: "acc \<longleftrightarrow> reply = None"
    using Call_effect(3) [OF binv ok c] nf by blast
  show q: "call_queue R r' = (if reply = None
           then (call_queue R r)(cp_URI cp := call_queue R r (cp_URI cp) @ [Some (encode_callPayload C cp)])
           else call_queue R r)"
  proof (rule ext)
    fix uri
    show "call_queue R r' uri = (if reply = None
           then (call_queue R r)(cp_URI cp := call_queue R r (cp_URI cp) @ [Some (encode_callPayload C cp)])
           else call_queue R r) uri"
      by (cases "uri = cp_URI cp"; cases "reply = None")
        (use reg acc len [of "cp_URI cp"] in \<open>simp_all add: registered_def call_queue_def\<close>)
  qed
  have "int (length (call_queue R r (cp_URI cp))) < CallCap b" if "reply = None" "0 < CallCap b"
    using reg acc that by (simp add: registered_def call_queue_def)
  then show "call_invar slot pool R b r'"
    using q len Call_effect(1) [OF binv ok c] by (auto simp: call_invar_def)
qed

lemma Result_queue:
  assumes inv: "res_invar slot pool R b r" and sure: "sure_res C pool (f, rp, t)"
    and c: "Broker_Result C pool b f rp t r = (reply, r')"
  shows "res_invar slot pool R b r'"
    and "res_queue R r' = (if reply = None
           then (res_queue R r)(uuid_String C (rp_ConnUUID rp) :=
                  res_queue R r (uuid_String C (rp_ConnUUID rp)) @ [Some (encode_resPayload C rp)])
           else res_queue R r)"
proof -
  have binv: "broker_invar slot pool R r"
    and len: "0 < ResultCap b \<Longrightarrow> int (length (res_queue R r k)) \<le> ResultCap b" for k
    using inv by (auto simp: res_invar_def)
  have ok: "keys_ok pool (uuid_String C (rp_ConnUUID rp))" and nf: "\<And>e. f \<noteq> ReplyLost e"
    using sure by (auto simp: sure_res_def)
  obtain acc where reg: "registered R (resKey (uuid_String C (rp_ConnUUID rp)))
      (Some (encode_resPayload C rp)) (ResultCap b) acc r r'" and acc: "acc \<longleftrightarrow> reply = None"
    using Result_effect(3) [OF binv ok c] nf by blast
  show q: "res_queue R r' = (if reply = None
           then (res_queue R r)(uuid_String C (rp_ConnUUID rp) :=
                  res_queue R r (uuid_String C (rp_ConnUUID rp)) @ [Some (encode_resPayload C rp)])
           else res_queue R r)"
  proof (rule ext)
    fix k
    show "res_queue R r' k = (if reply = None
           then (res_queue R r)(uuid_String C (rp_ConnUUID rp) :=
                  res_queue R r (uuid_String C (rp_ConnUUID rp)) @ [Some (encode_resPayload C rp)])
           else res_queue R r) k"
      by (cases "k = uuid_String C (rp_ConnUUID rp)"; cases "reply = None")
        (use reg acc len [of "uuid_String C (rp_ConnUUID rp)"] in
          \<open>simp_all add: registered_def res_queue_def\<close>)
  qed
  have "int (length (res_queue R r (uuid_String C (rp_ConnUUID rp)))) < ResultCap b"
    if "reply = None" "0 < ResultCap b"
    using reg acc that by (simp add: registered_def res_queue_def)
  then show "res_invar slot pool R b r'"
    using q len Result_effect(1) [OF binv ok c] by (auto simp: res_invar_def)
qed

lemma pop_queue:
  assumes inv: "broker_invar slot pool R r"
  shows "brpop R (callKey uri) r = (x, r') \<Longrightarrow> broker_invar slot pool R r' \<and> res_queue R r' = res_queue R r
      \<and> call_queue R r' = (call_queue R r)(uri := tl (call_queue R r uri))
      \<and> x = (case call_queue R r uri of [] \<Rightarrow> None | v # _ \<Rightarrow> Some v) \<and> (x = None \<longrightarrow> r' = r)"
    and "brpop R (resKey c) r = (x, r') \<Longrightarrow> broker_invar slot pool R r' \<and> call_queue R r' = call_queue R r
      \<and> res_queue R r' = (res_queue R r)(c := tl (res_queue R r c))
      \<and> x = (case res_queue R r c of [] \<Rightarrow> None | v # _ \<Rightarrow> Some v) \<and> (x = None \<longrightarrow> r' = r)"
  using brpop_effect [OF inv list_key_simps(1)] brpop_effect [OF inv list_key_simps(2)]
  by (fastforce simp: call_queue_def res_queue_def fun_eq_iff split: option.splits)+

lemma background_calls:
  assumes inv: "broker_invar slot pool R r" and calm: "calm_for_calls C pool c"
  shows "broker_invar slot pool R (background_step C pool R b c r)
    \<and> call_queue R (background_step C pool R b c r) = call_queue R r"
proof (cases c)
  case (Elapse d)
  then show ?thesis using elapse_effect [OF inv, of d] calm by (auto simp: call_queue_def)
next
  case (CheckTTL k)
  then show ?thesis using delAndPTTL_effect [OF inv, of k] calm by (auto simp: call_queue_def)
next
  case (RegisterRes f rp t)
  then show ?thesis
    using calm Result_effect(1,2) [OF inv, of C rp b f t "fst (Broker_Result C pool b f rp t r)"]
    by simp
next
  case (PopRes k)
  then show ?thesis using pop_queue(2) [OF inv, of k "fst (brpop R (resKey k) r)"] by simp
qed (use calm in simp_all)

lemma background_results:
  assumes inv: "broker_invar slot pool R r" and calm: "calm_for_results C pool c"
  shows "broker_invar slot pool R (background_step C pool R b c r)
    \<and> res_queue R (background_step C pool R b c r) = res_queue R r"
proof (cases c)
  case (Elapse d)
  then show ?thesis using elapse_effect [OF inv, of d] calm by (auto simp: res_queue_def)
next
  case (CheckTTL k)
  then show ?thesis using delAndPTTL_effect [OF inv, of k] calm by (auto simp: res_queue_def)
next
  case (RegisterCall f cp t)
  then show ?thesis
    using calm Call_effect(1,2) [OF inv, of cp C b f t "fst (Broker_Call C pool b f cp t r)"]
    by simp
next
  case (PopCall uri)
  then show ?thesis using pop_queue(1) [OF inv, of uri "fst (brpop R (callKey uri) r)"] by simp
qed (use calm in simp_all)

text \<open>The operations in the form of the contract, and that they satisfy it.\<close>

type_synonym call_request = "fault \<times> callPayload \<times> duration"
type_synonym res_request = "fault \<times> resPayload \<times> duration"

definition call_enq :: "codec \<Rightarrow> 'r rconn \<Rightarrow> Broker \<Rightarrow> call_request \<Rightarrow> 'r \<Rightarrow> err option \<times> 'r" where
  "call_enq C pool b = (\<lambda>(f, cp, t). Broker_Call C pool b f cp t)"

definition res_enq :: "codec \<Rightarrow> 'r rconn \<Rightarrow> Broker \<Rightarrow> res_request \<Rightarrow> 'r \<Rightarrow> err option \<times> 'r" where
  "res_enq C pool b = (\<lambda>(f, rp, t). Broker_Result C pool b f rp t)"

definition call_name :: "call_request \<Rightarrow> string" where
  "call_name = (\<lambda>(f, cp, t). cp_URI cp)"

definition res_name :: "codec \<Rightarrow> res_request \<Rightarrow> string" where
  "res_name C = (\<lambda>(f, rp, t). uuid_String C (rp_ConnUUID rp))"

definition call_item :: "codec \<Rightarrow> call_request \<Rightarrow> wire" where
  "call_item C = (\<lambda>(f, cp, t). Some (encode_callPayload C cp))"

definition res_item :: "codec \<Rightarrow> res_request \<Rightarrow> wire" where
  "res_item C = (\<lambda>(f, rp, t). Some (encode_resPayload C rp))"

interpretation calls_q: capped_queue "call_enq C pool b" "\<lambda>uri. brpop R (callKey uri)"
  "background_step C pool R b" call_name "call_item C" "sure_call pool" "calm_for_calls C pool"
  "CallCap b" "call_queue R" "call_invar slot pool R b"
  for C :: codec and pool :: "'r rconn" and R b slot
proof (unfold_locales, goal_cases)
  case (1 s i reply s')
  then show ?case by (cases i) (auto simp: call_enq_def intro: Call_queue(1))
next
  case (2 s i s')
  then show ?case
    by (cases i) (auto simp: call_enq_def call_name_def call_item_def dest: Call_queue(2))
next
  case (3 s i e s')
  then show ?case by (cases i) (auto simp: call_enq_def dest: Call_queue(2))
next
  case (4 s k x xs)
  then show ?case
    using pop_queue(1) [of slot pool R s k "fst (brpop R (callKey k) s)" "snd (brpop R (callKey k) s)"]
    by (cases "brpop R (callKey k) s") (auto simp: call_invar_def dest: spec [of _ k])
next
  case (5 s k)
  then show ?case
    using pop_queue(1) [of slot pool R s k "fst (brpop R (callKey k) s)" "snd (brpop R (callKey k) s)"]
    by (cases "brpop R (callKey k) s") (auto simp: call_invar_def)
next
  case (6 s c)
  then show ?case using background_calls [of slot pool R s C c b] by (simp add: call_invar_def)
next
  case (7 s c)
  then show ?case using background_calls [of slot pool R s C c b] by (simp add: call_invar_def)
next
  case (8 s k)
  then show ?case by (simp add: call_invar_def)
qed

interpretation results_q: capped_queue "res_enq C pool b" "\<lambda>c. brpop R (resKey c)"
  "background_step C pool R b" "res_name C" "res_item C" "sure_res C pool" "calm_for_results C pool"
  "ResultCap b" "res_queue R" "res_invar slot pool R b"
  for C :: codec and pool :: "'r rconn" and R b slot
proof (unfold_locales, goal_cases)
  case (1 s i reply s')
  then show ?case by (cases i) (auto simp: res_enq_def intro: Result_queue(1))
next
  case (2 s i s')
  then show ?case
    by (cases i) (auto simp: res_enq_def res_name_def res_item_def dest: Result_queue(2))
next
  case (3 s i e s')
  then show ?case by (cases i) (auto simp: res_enq_def dest: Result_queue(2))
next
  case (4 s k x xs)
  then show ?case
    using pop_queue(2) [of slot pool R s k "fst (brpop R (resKey k) s)" "snd (brpop R (resKey k) s)"]
    by (cases "brpop R (resKey k) s") (auto simp: res_invar_def dest: spec [of _ k])
next
  case (5 s k)
  then show ?case
    using pop_queue(2) [of slot pool R s k "fst (brpop R (resKey k) s)" "snd (brpop R (resKey k) s)"]
    by (cases "brpop R (resKey k) s") (auto simp: res_invar_def)
next
  case (6 s c)
  then show ?case using background_results [of slot pool R s C c b] by (simp add: res_invar_def)
next
  case (7 s c)
  then show ?case using background_results [of slot pool R s C c b] by (simp add: res_invar_def)
next
  case (8 s k)
  then show ?case by (simp add: res_invar_def)
qed

section \<open>Registration: outcome and expiration\<close>

lemma timeout_ms_eq:
  "timeout_ms t = (if \<bar>t\<bar> < Millisecond then 60000 else go_div t Millisecond)"
proof -
  have "go_div DefaultCallTimeout Millisecond = 60000" by code_simp
  then show ?thesis
    using go_div_eq_0_iff [of Millisecond t] by (simp add: timeout_ms_def Millisecond_def)
qed

lemma timeout_ms_pos_iff: "0 < timeout_ms t \<longleftrightarrow> - Millisecond < t"
  using go_div_pos_iff [of Millisecond t] by (auto simp: timeout_ms_eq Millisecond_def)

lemma timeout_ms_bounds: "Millisecond \<le> t \<Longrightarrow> timeout_ms t = t div Millisecond"
  by (simp add: timeout_ms_eq go_div_nonneg Millisecond_def)

lemma register_outcome:
  assumes inv: "broker_invar slot pool R r" and k: "list_key k2" "\<not> list_key k1"
    and conn: "clusterifyConn pool [k1, k2] = R"
    and reg: "registerCallOrRes pool NoFault (Some p) t cap k1 k2 r = (reply, r')"
  shows "reply = None \<longleftrightarrow>
           0 < timeout_ms t \<and> (cap \<le> 0 \<or> int (length (rd_LRANGE R k2 r)) < cap)"
    and "reply = None \<Longrightarrow> rd_PTTL R k1 r' = timeout_ms t"
    and "0 < timeout_ms t \<Longrightarrow> reply \<noteq> None \<Longrightarrow> reply = Some (ErrText ''list capacity exceeded'')"
    and "timeout_ms t \<le> 0 \<Longrightarrow> r' = r"
proof -
  note laws = broker_invarD(1) [OF inv] and ok = broker_invarD(4) [OF inv k(1)]
  have ne: "k1 \<noteq> k2" using k by auto
  obtain res r2 where scr: "callOrResScript R k1 k2 (timeout_ms t) (Some p) cap r = (res, r2)"
    by fastforce
  have rr: "r' = r2" "reply = (case res of Inl e \<Rightarrow> Some e | Inr _ \<Rightarrow> None)"
    using reg scr conn by (cases res; simp add: registerCallOrRes_def roundtrip_def)+
  consider "timeout_ms t \<le> 0"
    | "0 < timeout_ms t" "cap \<le> 0 \<or> int (length (rd_LRANGE R k2 r)) < cap"
    | "0 < timeout_ms t" "0 < cap" "cap \<le> int (length (rd_LRANGE R k2 r))" by linarith
  then have "(reply = None \<longleftrightarrow>
        0 < timeout_ms t \<and> (cap \<le> 0 \<or> int (length (rd_LRANGE R k2 r)) < cap))
      \<and> (reply = None \<longrightarrow> rd_PTTL R k1 r' = timeout_ms t)
      \<and> (0 < timeout_ms t \<longrightarrow> reply \<noteq> None \<longrightarrow> reply = Some (ErrText ''list capacity exceeded''))
      \<and> (timeout_ms t \<le> 0 \<longrightarrow> r' = r)"
  proof cases
    case 1
    obtain e where "callOrResScript R k1 k2 (timeout_ms t) (Some p) cap r = (Inl e, r)"
      by (rule script_invalid [OF laws 1])
    then show ?thesis using scr rr 1 by simp
  next
    case 2
    show ?thesis
      by (rule script_pushed [OF laws ok ne 2, of "Some p"]) (use scr rr 2 in simp)
  next
    case 3
    show ?thesis
      by (rule script_full [OF laws ok ne 3, of "Some p"]) (use scr rr 3 in simp)
  qed
  then show "reply = None \<longleftrightarrow>
           0 < timeout_ms t \<and> (cap \<le> 0 \<or> int (length (rd_LRANGE R k2 r)) < cap)"
    and "reply = None \<Longrightarrow> rd_PTTL R k1 r' = timeout_ms t"
    and "0 < timeout_ms t \<Longrightarrow> reply \<noteq> None \<Longrightarrow> reply = Some (ErrText ''list capacity exceeded'')"
    and "timeout_ms t \<le> 0 \<Longrightarrow> r' = r"
    by blast+
qed

section \<open>Properties\<close>

text \<open>
  C11. Calls are queued in order and none is lost or duplicated: from an empty queue of a
  URI, under any interleaving of registrations of calls for any URIs, reads of the queues,
  passing time, reads of expirations and traffic on the results, the calls read for the URI
  are the first of those the broker accepted for it, in order; the rest are queued, at most
  \<open>CallCap\<close> of them when there is a capacity. (A registration whose reply is lost on the
  way is left out: its caller sees an error while the call may be queued.)
\<close>

theorem calls_in_order:
  assumes "call_invar slot pool R b r" and "call_queue R r uri = []"
    and "list_all (sure_op (sure_call pool) (calm_for_calls C pool)) ops"
    and "run_queue (call_enq C pool b) (\<lambda>uri. brpop R (callKey uri)) (background_step C pool R b)
           call_name (call_item C) ops r = (acc, del, r')"
  shows "items_of uri acc = items_of uri del @ call_queue R r' uri
    \<and> (0 < CallCap b \<longrightarrow>
         int (length (items_of uri acc)) - int (length (items_of uri del)) \<le> CallCap b)"
  using calls_q.run_delivers_in_order [OF assms] .

definition example_pool :: "memdb rconn" where
  "example_pool = \<lparr>rc_cmds = mem_redis, rc_Bind = None, rc_Retry = (\<lambda>c _ _. Inr c)\<rparr>"

definition example_broker :: Broker where
  "example_broker = \<lparr>BlockingTimeout = 0, CallCap = 2, ResultCap = 2, Broker_Vars = None\<rparr>"

definition example_callPayload :: callPayload where
  "example_callPayload =
     \<lparr>cp_ConnUUID = example_uuid, cp_MsgUUID = example_uuid, cp_URI = ''test.echo'',
      cp_Args = Some (JStr ''hi''), cp_TTLAfterRead = 0, cp_ReadTimestamp = 0\<rparr>"

definition example_resPayload :: resPayload where
  "example_resPayload =
     \<lparr>rp_ConnUUID = example_uuid, rp_MsgUUID = example_uuid, rp_URI = ''test.echo'',
      rp_Args = Some (JStr ''hi'')\<rparr>"

lemma example_broker_invar: "broker_invar (\<lambda>_. 0) example_pool mem_redis (\<lambda>_. None)"
  by (simp add: broker_invar_def law_slot_def serves_def example_pool_def queue_ok_def mem_reads)

lemma example_keys_ok [simp]: "keys_ok example_pool s"
  by (simp add: keys_ok_def example_pool_def)

lemma example_empty [simp]:
  "call_queue mem_redis (\<lambda>_. None) uri = []" "res_queue mem_redis (\<lambda>_. None) uri = []"
  by (simp_all add: call_queue_def res_queue_def mem_reads mem_get_def)

lemma example_invars:
  "call_invar (\<lambda>_. 0) example_pool mem_redis b (\<lambda>_. None)"
  "res_invar (\<lambda>_. 0) example_pool mem_redis b (\<lambda>_. None)"
  by (simp_all add: call_invar_def res_invar_def example_broker_invar)

definition example_calls :: "(call_request, string, background) qop list" where
  "example_calls =
     [Enq (NoFault, example_callPayload, Second), Pass (Elapse 10), Deq ''test.echo'',
      Enq (NotExecuted (ErrText ''closed''), example_callPayload, 0)]"

theorem calls_in_order_witness:
  "case run_queue (call_enq example_codec example_pool example_broker)
       (\<lambda>uri. brpop mem_redis (callKey uri))
       (background_step example_codec example_pool mem_redis example_broker)
       call_name (call_item example_codec) example_calls (\<lambda>_. None) of
     (acc, del, r') \<Rightarrow> length acc = 1 \<and> length del = 1 \<and>
       items_of ''test.echo'' acc = items_of ''test.echo'' del @ call_queue mem_redis r' ''test.echo''"
proof -
  have sure: "list_all (sure_op (sure_call example_pool) (calm_for_calls example_codec example_pool))
      example_calls"
    by (simp add: example_calls_def sure_call_def)
  have "case run_queue (call_enq example_codec example_pool example_broker)
       (\<lambda>uri. brpop mem_redis (callKey uri))
       (background_step example_codec example_pool mem_redis example_broker)
       call_name (call_item example_codec) example_calls (\<lambda>_. None) of
     (acc, del, r') \<Rightarrow> length acc = 1 \<and> length del = 1"
    by code_simp
  then show ?thesis using calls_in_order [OF example_invars(1) example_empty(1) sure]
    by (auto split: prod.splits)
qed

text \<open>
  C12. The same for results, per calling connection: the results read for a connection are
  the first of those accepted for it, in order, and at most \<open>ResultCap\<close> wait when there is
  a capacity, under any interleaving with the traffic on the calls and with passing time.
\<close>

theorem results_in_order:
  assumes "res_invar slot pool R b r" and "res_queue R r c = []"
    and "list_all (sure_op (sure_res C pool) (calm_for_results C pool)) ops"
    and "run_queue (res_enq C pool b) (\<lambda>c. brpop R (resKey c)) (background_step C pool R b)
           (res_name C) (res_item C) ops r = (acc, del, r')"
  shows "items_of c acc = items_of c del @ res_queue R r' c
    \<and> (0 < ResultCap b \<longrightarrow>
         int (length (items_of c acc)) - int (length (items_of c del)) \<le> ResultCap b)"
  using results_q.run_delivers_in_order [OF assms] .

definition example_results :: "(res_request, string, background) qop list" where
  "example_results =
     [Enq (NoFault, example_resPayload, Second), Pass (PopCall ''test.echo''), Deq example_uuid]"

theorem results_in_order_witness:
  "case run_queue (res_enq example_codec example_pool example_broker)
       (\<lambda>c. brpop mem_redis (resKey c))
       (background_step example_codec example_pool mem_redis example_broker)
       (res_name example_codec) (res_item example_codec) example_results (\<lambda>_. None) of
     (acc, del, r') \<Rightarrow> length acc = 1 \<and> length del = 1 \<and>
       items_of example_uuid acc = items_of example_uuid del @ res_queue mem_redis r' example_uuid"
proof -
  have sure: "list_all (sure_op (sure_res example_codec example_pool)
      (calm_for_results example_codec example_pool)) example_results"
    by (simp add: example_results_def sure_res_def)
  have "case run_queue (res_enq example_codec example_pool example_broker)
       (\<lambda>c. brpop mem_redis (resKey c))
       (background_step example_codec example_pool mem_redis example_broker)
       (res_name example_codec) (res_item example_codec) example_results (\<lambda>_. None) of
     (acc, del, r') \<Rightarrow> length acc = 1 \<and> length del = 1"
    by code_simp
  then show ?thesis using results_in_order [OF example_invars(2) example_empty(2) sure]
    by (auto split: prod.splits)
qed


lemma example_payload_simps [simp]:
  "cp_URI example_callPayload = ''test.echo''" "cp_MsgUUID example_callPayload = example_uuid"
  "uuid_String example_codec u = u"
  by (simp_all add: example_callPayload_def example_codec_def)




text \<open>An empty URI makes no hash tag: the two keys of such a call have each their own.\<close>

lemma empty_uri_hash_tags: "hash_tag (callTimeoutKey '''' u) \<noteq> hash_tag (callKey '''')"
  by (simp add: hash_tag_def callTimeoutKey_def callKey_def)

end
