(* ===== verification/Stream_Spec.thy ===== *)
theory Stream_Spec
  imports Juggler_Prelude "HOL-Library.Multiset"
begin

text \<open>
  What the three connections of the brokers promise of the channel they return: the
  abstract system of a loop that takes raw values and starts a goroutine for each, which
  drops its value or sends one payload on the channel; the loop ends on an error, waits for
  the goroutines and closes the channel. \<open>stream_impl\<close> is the locale of the connections
  that refine it.
\<close>

section \<open>The abstract system\<close>

text \<open>The loop has not been started, polls, waits for the goroutines (\<^verbatim>\<open>wg.Wait\<close>), or
  has closed the channel.\<close>

datatype loop = NotStarted | Polling | Draining | Finished

record ('v, 'p) stream =
  st_loop :: loop
  st_raw :: "'v list"
  st_ready :: "'p list"
  st_done :: nat
  st_err :: "err option"

text \<open>
  \<open>st_raw\<close>, \<open>st_ready\<close> and \<open>st_done\<close> are the goroutines that hold a raw value, that are
  blocked sending a payload, and that have sent it and not yet called \<^verbatim>\<open>wg.Done\<close>.
\<close>

datatype ('v, 'p) slabel =
    Start
  | Pop 'v
  | Quiet
  | Fail err
  | Drop 'v
  | Ready 'v 'p
  | Recv 'p
  | Count
  | CloseChan
  | SendOnClosed

inductive stream_step ::
  "('v, 'p) stream \<Rightarrow> ('v, 'p) slabel \<Rightarrow> ('v, 'p) stream \<Rightarrow> bool" where
  start: "st_loop s = NotStarted \<Longrightarrow> stream_step s Start (s\<lparr>st_loop := Polling\<rparr>)"
| pop: "st_loop s = Polling \<Longrightarrow> stream_step s (Pop v) (s\<lparr>st_raw := st_raw s @ [v]\<rparr>)"
| quiet: "stream_step s Quiet s"
| fail: "st_loop s = Polling \<Longrightarrow> stream_step s (Fail e) (s\<lparr>st_loop := Draining, st_err := Some e\<rparr>)"
| drop: "st_raw s = xs @ v # ys \<Longrightarrow> stream_step s (Drop v) (s\<lparr>st_raw := xs @ ys\<rparr>)"
| ready: "st_raw s = xs @ v # ys
    \<Longrightarrow> stream_step s (Ready v p) (s\<lparr>st_raw := xs @ ys, st_ready := st_ready s @ [p]\<rparr>)"
| recv: "st_loop s \<noteq> Finished \<Longrightarrow> st_ready s = xs @ p # ys
    \<Longrightarrow> stream_step s (Recv p) (s\<lparr>st_ready := xs @ ys, st_done := Suc (st_done s)\<rparr>)"
| count: "st_done s = Suc n \<Longrightarrow> stream_step s Count (s\<lparr>st_done := n\<rparr>)"
| close: "st_loop s = Draining \<Longrightarrow> st_raw s = [] \<Longrightarrow> st_ready s = [] \<Longrightarrow> st_done s = 0
    \<Longrightarrow> stream_step s CloseChan (s\<lparr>st_loop := Finished\<rparr>)"
| panic: "st_loop s = Finished \<Longrightarrow> st_ready s \<noteq> [] \<Longrightarrow> stream_step s SendOnClosed s"

inductive_cases stream_stepE: "stream_step s l s'"

definition stream_init :: "('v, 'p) stream" where
  "stream_init = \<lparr>st_loop = NotStarted, st_raw = [], st_ready = [], st_done = 0, st_err = None\<rparr>"

text \<open>The executions of a labelled step relation.\<close>

inductive steps :: "('s \<Rightarrow> 'l \<Rightarrow> 's \<Rightarrow> bool) \<Rightarrow> 's \<Rightarrow> 'l list \<Rightarrow> 's \<Rightarrow> bool" for step where
  steps_Nil: "steps step s [] s"
| steps_snoc: "steps step s ls s' \<Longrightarrow> step s' l s'' \<Longrightarrow> steps step s (ls @ [l]) s''"

lemma steps_trans: "steps step s' ls' s'' \<Longrightarrow> steps step s ls s' \<Longrightarrow> steps step s (ls @ ls') s''"
  by (induction s' ls' s'' rule: steps.induct) (auto intro: steps.intros simp flip: append_assoc)

lemma steps_one: "step s l s' \<Longrightarrow> steps step s [l] s'"
  using steps_snoc [OF steps_Nil] by fastforce

section \<open>What was taken, dropped and delivered\<close>

fun popped :: "('v, 'p) slabel \<Rightarrow> 'v list" where
  "popped (Pop v) = [v]"
| "popped _ = []"

fun dropped :: "('v, 'p) slabel \<Rightarrow> 'v list" where
  "dropped (Drop v) = [v]"
| "dropped _ = []"

fun readied :: "('v, 'p) slabel \<Rightarrow> ('v \<times> 'p) list" where
  "readied (Ready v p) = [(v, p)]"
| "readied _ = []"

fun received :: "('v, 'p) slabel \<Rightarrow> 'p list" where
  "received (Recv p) = [p]"
| "received _ = []"

definition all_of :: "('l \<Rightarrow> 'a list) \<Rightarrow> 'l list \<Rightarrow> 'a multiset" where
  "all_of f ls = mset (concat (map f ls))"

lemma all_of_Nil [simp]: "all_of f [] = {#}"
  by (simp add: all_of_def)

lemma all_of_snoc [simp]: "all_of f (ls @ [l]) = all_of f ls + mset (f l)"
  by (simp add: all_of_def)

text \<open>The invariant of the abstract system, with its trace.\<close>

definition stream_inv :: "('v, 'p) slabel list \<Rightarrow> ('v, 'p) stream \<Rightarrow> bool" where
  "stream_inv ls s \<longleftrightarrow>
     all_of popped ls = all_of dropped ls + image_mset fst (all_of readied ls) + mset (st_raw s)
     \<and> image_mset snd (all_of readied ls) = all_of received ls + mset (st_ready s)
     \<and> (st_loop s = NotStarted \<longrightarrow> st_raw s = [] \<and> st_ready s = [] \<and> st_done s = 0)
     \<and> (st_loop s = Finished \<longrightarrow> st_raw s = [] \<and> st_ready s = [] \<and> st_done s = 0)
     \<and> (st_err s \<noteq> None \<longleftrightarrow> st_loop s \<in> {Draining, Finished})
     \<and> SendOnClosed \<notin> set ls"

lemma stream_inv_init: "stream_inv [] stream_init"
  by (simp add: stream_inv_def stream_init_def)

lemma stream_inv_step:
  assumes "stream_inv ls s" and "stream_step s l s'"
  shows "stream_inv (ls @ [l]) s'"
  using assms(2,1) by cases (auto simp: stream_inv_def)

lemma stream_inv_steps: "steps stream_step s0 ls s \<Longrightarrow> s0 = stream_init \<Longrightarrow> stream_inv ls s"
  by (induction s0 ls s rule: steps.induct) (auto intro: stream_inv_init stream_inv_step)

text \<open>A closed channel stays closed, and nothing is taken or received after that.\<close>

lemma Finished_step:
  assumes "stream_inv ls s" and "st_loop s = Finished" and "stream_step s l s'"
  shows "s' = s \<and> l = Quiet"
  using assms(3,1,2) by cases (auto simp: stream_inv_def)

text \<open>The work left to the goroutines once the loop has ended.\<close>

definition pending_work :: "('v, 'p) stream \<Rightarrow> nat" where
  "pending_work s =
     3 * length (st_raw s) + 2 * length (st_ready s) + st_done s + (if st_loop s = Draining then 1 else 0)"

lemma Draining_step:
  assumes "st_loop s = Draining" and "stream_step s l s'" and "l \<noteq> Quiet"
  shows "pending_work s' < pending_work s \<and> st_loop s' \<in> {Draining, Finished}"
  using assms(2,1,3) by cases (auto simp: pending_work_def)

section \<open>The contract\<close>

text \<open>
  An implementation: a labelled step relation, its initial states, and a view of its states
  as abstract ones under which every step is an abstract step with the same label, and such
  that something can be done as long as the channel is waiting to be closed.
\<close>

locale stream_impl =
  fixes step :: "'s \<Rightarrow> ('v, 'p) slabel \<Rightarrow> 's \<Rightarrow> bool"
    and init :: "'s \<Rightarrow> bool"
    and view :: "'s \<Rightarrow> ('v, 'p) stream"
  assumes view_init: "init s \<Longrightarrow> view s = stream_init"
    and view_step: "step s l s' \<Longrightarrow> stream_step (view s) l (view s')"
    and progress: "st_loop (view s) = Draining \<Longrightarrow> \<exists>l s'. step s l s' \<and> l \<noteq> Quiet"
begin

lemma view_steps: "steps step s ls s' \<Longrightarrow> steps stream_step (view s) ls (view s')"
  by (induction s ls s' rule: steps.induct) (auto intro: steps.intros view_step)

lemma impl_inv: "init s \<Longrightarrow> steps step s ls s' \<Longrightarrow> stream_inv ls (view s')"
  by (rule stream_inv_steps [OF view_steps view_init])

text \<open>Nothing is lost, made up or sent twice, and nothing is sent on the closed channel.\<close>

lemma conserved:
  assumes "init s" and "steps step s ls s'"
  shows "all_of popped ls
      = all_of dropped ls + image_mset fst (all_of readied ls) + mset (st_raw (view s'))
    \<and> image_mset snd (all_of readied ls) = all_of received ls + mset (st_ready (view s'))
    \<and> SendOnClosed \<notin> set ls"
  using impl_inv [OF assms] by (simp add: stream_inv_def)

lemma closed_channel:
  assumes "init s" and "steps step s ls s'" and "st_loop (view s') = Finished"
  shows "all_of popped ls = all_of dropped ls + image_mset fst (all_of readied ls)
    \<and> all_of received ls = image_mset snd (all_of readied ls)
    \<and> st_err (view s') \<noteq> None \<and> (\<forall>l s''. step s' l s'' \<longrightarrow> l = Quiet \<and> view s'' = view s')"
  using impl_inv [OF assms(1,2)] assms(3) Finished_step [OF impl_inv [OF assms(1,2)] assms(3) view_step]
  by (simp add: stream_inv_def)

lemma drains:
  assumes "st_loop (view s) = Draining" and "step s l s'" and "l \<noteq> Quiet"
  shows "pending_work (view s') < pending_work (view s)
    \<and> st_loop (view s') \<in> {Draining, Finished}"
  using Draining_step [OF assms(1) view_step [OF assms(2)] assms(3)] .

lemma can_close:
  assumes "st_loop (view s) = Draining"
  shows "\<exists>ls s'. steps step s ls s' \<and> st_loop (view s') = Finished \<and> Quiet \<notin> set ls
    \<and> length ls \<le> pending_work (view s)"
  using assms
proof (induction "pending_work (view s)" arbitrary: s rule: less_induct)
  case less
  obtain l s1 where s1: "step s l s1" "l \<noteq> Quiet" using progress [OF less.prems] by blast
  note d = drains [OF less.prems s1]
  show ?case
  proof (cases "st_loop (view s1) = Finished")
    case True
    with s1 d show ?thesis by (intro exI [of _ "[l]"] exI [of _ s1]) (auto intro: steps_one)
  next
    case False
    with d have "st_loop (view s1) = Draining" by simp
    then obtain ls s' where ls: "steps step s1 ls s'" "st_loop (view s') = Finished" "Quiet \<notin> set ls"
      "length ls \<le> pending_work (view s1)"
      using less.hyps d by blast
    have "steps step s ([l] @ ls) s'"
      by (rule steps_trans [OF ls(1)]) (rule steps_one, rule s1(1))
    with s1 d ls show ?thesis by (intro exI [of _ "l # ls"] exI [of _ s']) auto
  qed
qed

end

end
