(* ===== verification/Broker_Conns.thy ===== *)
theory Broker_Conns
  imports Redis_Broker Stream_Spec
begin

text \<open>
  The long-lived connections of the redis broker: \<^verbatim>\<open>broker/redisbroker/calls.go\<close>,
  \<^verbatim>\<open>results.go\<close> and \<^verbatim>\<open>pubsub.go\<close>. Each is a record (with the goroutines it has
  started) and a step relation that interleaves the poll loop, the goroutines, the
  receivers of the channel and the rest of the world, which may change the database in any
  way between two steps. The connection the loop polls on and the pool the goroutines use
  are parameters. All three refine the streams of \<open>Stream_Spec\<close>.
\<close>

section \<open>Calls\<close>

record callsConn =
  cc_uris :: "string list"
  cc_timeout :: duration
  cc_vars :: vars
  cc_loop :: loop
  cc_raw :: "wire list"
  cc_ready :: "callPayload list"
  cc_done :: nat
  cc_err :: "err option"

definition NewCallsConn :: "Broker \<Rightarrow> err option \<Rightarrow> string list \<Rightarrow> callsConn result" where
  "NewCallsConn b dial_err uris =
     (case dial_err of
        Some e \<Rightarrow> Inl e
      | None \<Rightarrow> Inr \<lparr>cc_uris = uris, cc_timeout = BlockingTimeout b, cc_vars = Broker_Vars b,
                    cc_loop = NotStarted, cc_raw = [], cc_ready = [], cc_done = 0, cc_err = None\<rparr>)"

definition CallsErr :: "callsConn \<Rightarrow> err option" where
  "CallsErr c = cc_err c"

text \<open>The arguments of the poll: the keys of the URIs, and the timeout in seconds.\<close>

definition calls_keys :: "callsConn \<Rightarrow> string list" where
  "calls_keys c = map callKey (cc_uris c)"

definition calls_poll_args :: "callsConn \<Rightarrow> string list \<times> int" where
  "calls_poll_args c = (calls_keys c, go_div (cc_timeout c) Second)"

definition unmarshalBRPOPValue :: "(json \<Rightarrow> 'p option) \<Rightarrow> wire \<Rightarrow> 'p option" where
  "unmarshalBRPOPValue decode p = (case p of None \<Rightarrow> None | Some j \<Rightarrow> decode j)"

text \<open>
  \<^verbatim>\<open>sendCall\<close> up to the send on the channel: the payload to send, or none when it is
  dropped. \<open>now\<close> is the clock.
\<close>

definition sendCall ::
  "codec \<Rightarrow> 'r rconn \<Rightarrow> fault \<Rightarrow> int \<Rightarrow> wire \<Rightarrow> vars \<Rightarrow> 'r \<Rightarrow> callPayload option \<times> vars \<times> 'r" where
  "sendCall C pool f now v vars r =
     (case unmarshalBRPOPValue (decode_callPayload C) v of
        None \<Rightarrow> (None, vars_add ''FailedCallPayloadUnmarshals'' 1 vars, r)
      | Some cp \<Rightarrow>
          let k = callTimeoutKey (cp_URI cp) (uuid_String C (cp_MsgUUID cp));
              rc = clusterifyConn pool [k] in
          (case roundtrip f (delAndPTTLScript rc k) r of
             (Inl _, r) \<Rightarrow> (None, vars_add ''FailedPTTLCalls'' 1 vars, r)
           | (Inr pttl, r) \<Rightarrow>
               if pttl \<le> 0 then (None, vars_add ''ExpiredCalls'' 1 vars, r)
               else (Some (cp\<lparr>cp_ReadTimestamp := now,
                              cp_TTLAfterRead := i64 (pttl * Millisecond)\<rparr>), vars, r)))"

inductive calls_step ::
  "codec \<Rightarrow> 'r rconn \<Rightarrow> 'r rconn \<Rightarrow> callsConn \<times> 'r \<Rightarrow> (wire, callPayload) slabel
     \<Rightarrow> callsConn \<times> 'r \<Rightarrow> bool"
  for C conn pool where
  calls_first: "cc_loop c = NotStarted
    \<Longrightarrow> calls_step C conn pool (c, r) Start (c\<lparr>cc_loop := Polling\<rparr>, r)"
| calls_value: "cc_loop c = Polling
    \<Longrightarrow> rd_BRPOP (clusterifyConn conn (calls_keys c)) (calls_keys c) r = (Some (k, v), r')
    \<Longrightarrow> calls_step C conn pool (c, r) (Pop v) (c\<lparr>cc_raw := cc_raw c @ [v]\<rparr>, r')"
| calls_nil: "cc_loop c = Polling
    \<Longrightarrow> rd_BRPOP (clusterifyConn conn (calls_keys c)) (calls_keys c) r = (None, r')
    \<Longrightarrow> calls_step C conn pool (c, r) Quiet (c, r')"
| calls_error: "cc_loop c = Polling
    \<Longrightarrow> r' = r \<or> r' = snd (rd_BRPOP (clusterifyConn conn (calls_keys c)) (calls_keys c) r)
    \<Longrightarrow> calls_step C conn pool (c, r) (Fail e) (c\<lparr>cc_loop := Draining, cc_err := Some e\<rparr>, r')"
| calls_drop: "cc_raw c = xs @ v # ys \<Longrightarrow> sendCall C pool f now v (cc_vars c) r = (None, vars, r')
    \<Longrightarrow> calls_step C conn pool (c, r) (Drop v) (c\<lparr>cc_raw := xs @ ys, cc_vars := vars\<rparr>, r')"
| calls_ready: "cc_raw c = xs @ v # ys \<Longrightarrow> sendCall C pool f now v (cc_vars c) r = (Some cp, vars, r')
    \<Longrightarrow> calls_step C conn pool (c, r) (Ready v cp)
          (c\<lparr>cc_raw := xs @ ys, cc_vars := vars, cc_ready := cc_ready c @ [cp]\<rparr>, r')"
| calls_recv: "cc_loop c \<noteq> Finished \<Longrightarrow> cc_ready c = xs @ cp # ys
    \<Longrightarrow> calls_step C conn pool (c, r) (Recv cp)
          (c\<lparr>cc_ready := xs @ ys, cc_done := Suc (cc_done c)\<rparr>, r)"
| calls_count: "cc_done c = Suc n
    \<Longrightarrow> calls_step C conn pool (c, r) Count
          (c\<lparr>cc_done := n, cc_vars := vars_add ''Calls'' 1 (cc_vars c)\<rparr>, r)"
| calls_close: "cc_loop c = Draining \<Longrightarrow> cc_raw c = [] \<Longrightarrow> cc_ready c = [] \<Longrightarrow> cc_done c = 0
    \<Longrightarrow> calls_step C conn pool (c, r) CloseChan (c\<lparr>cc_loop := Finished\<rparr>, r)"
| calls_panic: "cc_loop c = Finished \<Longrightarrow> cc_ready c \<noteq> []
    \<Longrightarrow> calls_step C conn pool (c, r) SendOnClosed (c, r)"
| calls_world: "calls_step C conn pool (c, r) Quiet (c, r')"

definition calls_view :: "callsConn \<times> 'r \<Rightarrow> (wire, callPayload) stream" where
  "calls_view s =
     \<lparr>st_loop = cc_loop (fst s), st_raw = cc_raw (fst s), st_ready = cc_ready (fst s),
      st_done = cc_done (fst s), st_err = cc_err (fst s)\<rparr>"

definition calls_init :: "Broker \<Rightarrow> string list \<Rightarrow> callsConn \<times> 'r \<Rightarrow> bool" where
  "calls_init b uris s \<longleftrightarrow> NewCallsConn b None uris = Inr (fst s)"

lemma calls_progress:
  assumes "cc_loop c = Draining"
  shows "\<exists>l s'. calls_step C conn pool (c, r) l s' \<and> l \<noteq> Quiet"
proof -
  consider v xs where "cc_raw c = [] @ v # xs" | p xs where "cc_ready c = [] @ p # xs"
    | n where "cc_done c = Suc n" | "cc_raw c = []" "cc_ready c = []" "cc_done c = 0"
    by (metis append_Nil list.exhaust not0_implies_Suc)
  then show ?thesis
  proof cases
    case (1 v xs)
    obtain x vars r' where "sendCall C pool NoFault 0 v (cc_vars c) r = (x, vars, r')"
      by (cases "sendCall C pool NoFault 0 v (cc_vars c) r") auto
    with 1 show ?thesis
      by (cases x) (blast intro: calls_step.calls_drop calls_step.calls_ready slabel.distinct)+
  next
    case (2 p xs)
    then show ?thesis using assms calls_step.calls_recv [of c "[]" p xs C conn pool r] by auto
  next
    case (3 n)
    then show ?thesis by (blast intro: calls_step.calls_count slabel.distinct)
  next
    case 4
    then show ?thesis using assms by (blast intro: calls_step.calls_close slabel.distinct)
  qed
qed

interpretation calls_conn: stream_impl "calls_step C conn pool" "calls_init b uris" calls_view
  for C and conn :: "'r rconn" and pool b uris
proof
  show "calls_view s = stream_init" if "calls_init b uris s" for s :: "callsConn \<times> 'r"
    using that by (auto simp: calls_init_def NewCallsConn_def calls_view_def stream_init_def
        dest: sym [of _ "fst s"])
  show "stream_step (calls_view s) l (calls_view s')" if "calls_step C conn pool s l s'" for s l s'
    using that
  proof cases
    case (calls_value c r k v r')
    then show ?thesis using stream_step.pop [of "calls_view s" v] by (simp add: calls_view_def)
  next
    case (calls_drop c xs v ys f now r vars r')
    then show ?thesis
      using stream_step.drop [of "calls_view s" xs v ys] by (simp add: calls_view_def)
  next
    case (calls_ready c xs v ys f now r cp vars r')
    then show ?thesis
      using stream_step.ready [of "calls_view s" xs v ys cp] by (simp add: calls_view_def)
  next
    case (calls_recv c xs cp ys r)
    then show ?thesis
      using stream_step.recv [of "calls_view s" xs cp ys] by (simp add: calls_view_def)
  next
    case (calls_error c r' r e)
    then show ?thesis using stream_step.fail [of "calls_view s" e] by (simp add: calls_view_def)
  next
    case (calls_count c n r)
    then show ?thesis using stream_step.count [of "calls_view s" n] by (simp add: calls_view_def)
  next
    case (calls_first c r)
    then show ?thesis using stream_step.start [of "calls_view s"] by (simp add: calls_view_def)
  next
    case (calls_close c r)
    then show ?thesis using stream_step.close [of "calls_view s"] by (simp add: calls_view_def)
  qed (auto simp: calls_view_def intro: stream_step.intros)
  show "\<exists>l s'. calls_step C conn pool s l s' \<and> l \<noteq> Quiet" if "st_loop (calls_view s) = Draining" for s
    using that calls_progress [of "fst s" C conn pool "snd s"] by (simp add: calls_view_def)
qed

section \<open>Results\<close>

record resultsConn =
  rsc_connUUID :: uuid
  rsc_timeout :: duration
  rsc_vars :: vars
  rsc_loop :: loop
  rsc_raw :: "wire list"
  rsc_ready :: "resPayload list"
  rsc_done :: nat
  rsc_err :: "err option"

definition NewResultsConn :: "Broker \<Rightarrow> err option \<Rightarrow> uuid \<Rightarrow> resultsConn result" where
  "NewResultsConn b dial_err connUUID =
     (case dial_err of
        Some e \<Rightarrow> Inl e
      | None \<Rightarrow> Inr \<lparr>rsc_connUUID = connUUID, rsc_timeout = BlockingTimeout b,
                    rsc_vars = Broker_Vars b, rsc_loop = NotStarted, rsc_raw = [], rsc_ready = [],
                    rsc_done = 0, rsc_err = None\<rparr>)"

definition ResultsErr :: "resultsConn \<Rightarrow> err option" where
  "ResultsErr c = rsc_err c"

definition results_key :: "codec \<Rightarrow> resultsConn \<Rightarrow> string" where
  "results_key C c = resKey (uuid_String C (rsc_connUUID c))"

definition results_poll_args :: "codec \<Rightarrow> resultsConn \<Rightarrow> string \<times> int" where
  "results_poll_args C c = (results_key C c, go_div (rsc_timeout c) Second)"

text \<open>\<^verbatim>\<open>sendResult\<close> up to the send on the channel.\<close>

definition sendResult ::
  "codec \<Rightarrow> 'r rconn \<Rightarrow> fault \<Rightarrow> wire \<Rightarrow> vars \<Rightarrow> 'r \<Rightarrow> resPayload option \<times> vars \<times> 'r" where
  "sendResult C pool f v vars r =
     (case unmarshalBRPOPValue (decode_resPayload C) v of
        None \<Rightarrow> (None, vars_add ''FailedResPayloadUnmarshals'' 1 vars, r)
      | Some rp \<Rightarrow>
          let k = resTimeoutKey (uuid_String C (rp_ConnUUID rp)) (uuid_String C (rp_MsgUUID rp));
              rc = clusterifyConn pool [k] in
          (case roundtrip f (delAndPTTLScript rc k) r of
             (Inl _, r) \<Rightarrow> (None, vars_add ''FailedPTTLResults'' 1 vars, r)
           | (Inr pttl, r) \<Rightarrow>
               if pttl \<le> 0 then (None, vars_add ''ExpiredResults'' 1 vars, r)
               else (Some rp, vars, r)))"

inductive results_step ::
  "codec \<Rightarrow> 'r rconn \<Rightarrow> 'r rconn \<Rightarrow> resultsConn \<times> 'r \<Rightarrow> (wire, resPayload) slabel
     \<Rightarrow> resultsConn \<times> 'r \<Rightarrow> bool"
  for C conn pool where
  results_first: "rsc_loop c = NotStarted
    \<Longrightarrow> results_step C conn pool (c, r) Start (c\<lparr>rsc_loop := Polling\<rparr>, r)"
| results_value: "rsc_loop c = Polling
    \<Longrightarrow> rd_BRPOP (clusterifyConn conn [results_key C c]) [results_key C c] r = (Some (k, v), r')
    \<Longrightarrow> results_step C conn pool (c, r) (Pop v) (c\<lparr>rsc_raw := rsc_raw c @ [v]\<rparr>, r')"
| results_nil: "rsc_loop c = Polling
    \<Longrightarrow> rd_BRPOP (clusterifyConn conn [results_key C c]) [results_key C c] r = (None, r')
    \<Longrightarrow> results_step C conn pool (c, r) Quiet (c, r')"
| results_error: "rsc_loop c = Polling
    \<Longrightarrow> r' = r \<or> r' = snd (rd_BRPOP (clusterifyConn conn [results_key C c]) [results_key C c] r)
    \<Longrightarrow> results_step C conn pool (c, r) (Fail e) (c\<lparr>rsc_loop := Draining, rsc_err := Some e\<rparr>, r')"
| results_drop: "rsc_raw c = xs @ v # ys \<Longrightarrow> sendResult C pool f v (rsc_vars c) r = (None, vars, r')
    \<Longrightarrow> results_step C conn pool (c, r) (Drop v) (c\<lparr>rsc_raw := xs @ ys, rsc_vars := vars\<rparr>, r')"
| results_ready: "rsc_raw c = xs @ v # ys \<Longrightarrow> sendResult C pool f v (rsc_vars c) r = (Some rp, vars, r')
    \<Longrightarrow> results_step C conn pool (c, r) (Ready v rp)
          (c\<lparr>rsc_raw := xs @ ys, rsc_vars := vars, rsc_ready := rsc_ready c @ [rp]\<rparr>, r')"
| results_recv: "rsc_loop c \<noteq> Finished \<Longrightarrow> rsc_ready c = xs @ rp # ys
    \<Longrightarrow> results_step C conn pool (c, r) (Recv rp)
          (c\<lparr>rsc_ready := xs @ ys, rsc_done := Suc (rsc_done c)\<rparr>, r)"
| results_count: "rsc_done c = Suc n
    \<Longrightarrow> results_step C conn pool (c, r) Count
          (c\<lparr>rsc_done := n, rsc_vars := vars_add ''Results'' 1 (rsc_vars c)\<rparr>, r)"
| results_close: "rsc_loop c = Draining \<Longrightarrow> rsc_raw c = [] \<Longrightarrow> rsc_ready c = [] \<Longrightarrow> rsc_done c = 0
    \<Longrightarrow> results_step C conn pool (c, r) CloseChan (c\<lparr>rsc_loop := Finished\<rparr>, r)"
| results_panic: "rsc_loop c = Finished \<Longrightarrow> rsc_ready c \<noteq> []
    \<Longrightarrow> results_step C conn pool (c, r) SendOnClosed (c, r)"
| results_world: "results_step C conn pool (c, r) Quiet (c, r')"

definition results_view :: "resultsConn \<times> 'r \<Rightarrow> (wire, resPayload) stream" where
  "results_view s =
     \<lparr>st_loop = rsc_loop (fst s), st_raw = rsc_raw (fst s), st_ready = rsc_ready (fst s),
      st_done = rsc_done (fst s), st_err = rsc_err (fst s)\<rparr>"

definition results_init :: "Broker \<Rightarrow> uuid \<Rightarrow> resultsConn \<times> 'r \<Rightarrow> bool" where
  "results_init b u s \<longleftrightarrow> NewResultsConn b None u = Inr (fst s)"

lemma results_progress:
  assumes "rsc_loop c = Draining"
  shows "\<exists>l s'. results_step C conn pool (c, r) l s' \<and> l \<noteq> Quiet"
proof -
  consider v xs where "rsc_raw c = [] @ v # xs" | p xs where "rsc_ready c = [] @ p # xs"
    | n where "rsc_done c = Suc n" | "rsc_raw c = []" "rsc_ready c = []" "rsc_done c = 0"
    by (metis append_Nil list.exhaust not0_implies_Suc)
  then show ?thesis
  proof cases
    case (1 v xs)
    obtain x vars r' where "sendResult C pool NoFault v (rsc_vars c) r = (x, vars, r')"
      by (cases "sendResult C pool NoFault v (rsc_vars c) r") auto
    with 1 show ?thesis
      by (cases x) (blast intro: results_step.results_drop results_step.results_ready slabel.distinct)+
  next
    case (2 p xs)
    then show ?thesis using assms results_step.results_recv [of c "[]" p xs C conn pool r] by auto
  next
    case (3 n)
    then show ?thesis by (blast intro: results_step.results_count slabel.distinct)
  next
    case 4
    then show ?thesis using assms by (blast intro: results_step.results_close slabel.distinct)
  qed
qed

interpretation results_conn: stream_impl "results_step C conn pool" "results_init b u" results_view
  for C and conn :: "'r rconn" and pool b u
proof
  show "results_view s = stream_init" if "results_init b u s" for s :: "resultsConn \<times> 'r"
    using that by (auto simp: results_init_def NewResultsConn_def results_view_def stream_init_def
        dest: sym [of _ "fst s"])
  show "stream_step (results_view s) l (results_view s')" if "results_step C conn pool s l s'" for s l s'
    using that
  proof cases
    case (results_value c r k v r')
    then show ?thesis using stream_step.pop [of "results_view s" v] by (simp add: results_view_def)
  next
    case (results_drop c xs v ys f r vars r')
    then show ?thesis
      using stream_step.drop [of "results_view s" xs v ys] by (simp add: results_view_def)
  next
    case (results_ready c xs v ys f r rp vars r')
    then show ?thesis
      using stream_step.ready [of "results_view s" xs v ys rp] by (simp add: results_view_def)
  next
    case (results_recv c xs rp ys r)
    then show ?thesis
      using stream_step.recv [of "results_view s" xs rp ys] by (simp add: results_view_def)
  next
    case (results_error c r' r e)
    then show ?thesis using stream_step.fail [of "results_view s" e] by (simp add: results_view_def)
  next
    case (results_count c n r)
    then show ?thesis using stream_step.count [of "results_view s" n] by (simp add: results_view_def)
  next
    case (results_first c r)
    then show ?thesis using stream_step.start [of "results_view s"] by (simp add: results_view_def)
  next
    case (results_close c r)
    then show ?thesis using stream_step.close [of "results_view s"] by (simp add: results_view_def)
  qed (auto simp: results_view_def intro: stream_step.intros)
  show "\<exists>l s'. results_step C conn pool s l s' \<and> l \<noteq> Quiet"
    if "st_loop (results_view s) = Draining" for s
    using that results_progress [of "fst s" C conn pool "snd s"] by (simp add: results_view_def)
qed

section \<open>Events\<close>

text \<open>
  \<^verbatim>\<open>redis.PubSubConn\<close> of the redis library is a parameter: the four commands, on a state
  \<open>'q\<close> of the subscriptions, and what \<^verbatim>\<open>Receive\<close> returns.
\<close>

record 'q redisPubSub =
  ps_Subscribe :: "string \<Rightarrow> 'q \<Rightarrow> err option \<times> 'q"
  ps_Unsubscribe :: "string \<Rightarrow> 'q \<Rightarrow> err option \<times> 'q"
  ps_PSubscribe :: "string \<Rightarrow> 'q \<Rightarrow> err option \<times> 'q"
  ps_PUnsubscribe :: "string \<Rightarrow> 'q \<Rightarrow> err option \<times> 'q"

datatype notification =
    Message string wire
  | PMessage string string wire
  | Subscription
  | Error err

record pubSubConn =
  psc_vars :: vars
  psc_loop :: loop
  psc_raw :: "(string \<times> string \<times> wire) list"
  psc_ready :: "evntPayload list"
  psc_done :: nat
  psc_err :: "err option"

definition NewPubSubConn :: "Broker \<Rightarrow> err option \<Rightarrow> pubSubConn result" where
  "NewPubSubConn b dial_err =
     (case dial_err of
        Some e \<Rightarrow> Inl e
      | None \<Rightarrow> Inr \<lparr>psc_vars = Broker_Vars b, psc_loop = NotStarted, psc_raw = [], psc_ready = [],
                    psc_done = 0, psc_err = None\<rparr>)"

definition EventsErr :: "pubSubConn \<Rightarrow> err option" where
  "EventsErr c = psc_err c"

definition subUnsub :: "'q redisPubSub \<Rightarrow> string \<Rightarrow> bool \<Rightarrow> bool \<Rightarrow> 'q \<Rightarrow> err option \<times> 'q" where
  "subUnsub P ch pat sub =
     (if pat \<and> sub then ps_PSubscribe P
      else if pat \<and> \<not> sub then ps_PUnsubscribe P
      else if \<not> pat \<and> sub then ps_Subscribe P
      else ps_Unsubscribe P) ch"

definition pubSubConn_Subscribe :: "'q redisPubSub \<Rightarrow> string \<Rightarrow> bool \<Rightarrow> 'q \<Rightarrow> err option \<times> 'q" where
  "pubSubConn_Subscribe P channel pattern = subUnsub P channel pattern True"

definition pubSubConn_Unsubscribe :: "'q redisPubSub \<Rightarrow> string \<Rightarrow> bool \<Rightarrow> 'q \<Rightarrow> err option \<times> 'q" where
  "pubSubConn_Unsubscribe P channel pattern = subUnsub P channel pattern False"

definition newEvntPayload :: "codec \<Rightarrow> string \<Rightarrow> string \<Rightarrow> wire \<Rightarrow> evntPayload option" where
  "newEvntPayload C channel pattern pld =
     (case pld of
        None \<Rightarrow> None
      | Some j \<Rightarrow>
          map_option (\<lambda>pp. \<lparr>ep_MsgUUID = pp_MsgUUID pp, ep_Channel = channel, ep_Pattern = pattern,
                           ep_Args = pp_Args pp\<rparr>)
            (decode_pubPayload C j))"

text \<open>\<^verbatim>\<open>sendEvent\<close> up to the send on the channel.\<close>

definition sendEvent ::
  "codec \<Rightarrow> string \<times> string \<times> wire \<Rightarrow> vars \<Rightarrow> evntPayload option \<times> vars" where
  "sendEvent C v vars =
     (case v of (channel, pattern, pld) \<Rightarrow>
        (case newEvntPayload C channel pattern pld of
           None \<Rightarrow> (None, vars_add ''FailedEvntPayloadUnmarshals'' 1 vars)
         | Some ep \<Rightarrow> (Some ep, vars)))"

text \<open>What the loop of \<^verbatim>\<open>listen\<close> hands to a goroutine for a notification.\<close>

fun event_value :: "notification \<Rightarrow> (string \<times> string \<times> wire) option" where
  "event_value (Message channel data) = Some (channel, '''', data)"
| "event_value (PMessage pattern channel data) = Some (channel, pattern, data)"
| "event_value _ = None"

inductive events_step ::
  "codec \<Rightarrow> pubSubConn \<Rightarrow> (string \<times> string \<times> wire, evntPayload) slabel \<Rightarrow> pubSubConn \<Rightarrow> bool"
  for C where
  events_first: "psc_loop c = NotStarted \<Longrightarrow> events_step C c Start (c\<lparr>psc_loop := Polling\<rparr>)"
| events_value: "psc_loop c = Polling \<Longrightarrow> event_value n = Some v
    \<Longrightarrow> events_step C c (Pop v) (c\<lparr>psc_raw := psc_raw c @ [v]\<rparr>)"
| events_other: "psc_loop c = Polling \<Longrightarrow> events_step C c Quiet c"
| events_error: "psc_loop c = Polling
    \<Longrightarrow> events_step C c (Fail e) (c\<lparr>psc_loop := Draining, psc_err := Some e\<rparr>)"
| events_drop: "psc_raw c = xs @ v # ys \<Longrightarrow> sendEvent C v (psc_vars c) = (None, vars)
    \<Longrightarrow> events_step C c (Drop v) (c\<lparr>psc_raw := xs @ ys, psc_vars := vars\<rparr>)"
| events_ready: "psc_raw c = xs @ v # ys \<Longrightarrow> sendEvent C v (psc_vars c) = (Some ep, vars)
    \<Longrightarrow> events_step C c (Ready v ep)
          (c\<lparr>psc_raw := xs @ ys, psc_vars := vars, psc_ready := psc_ready c @ [ep]\<rparr>)"
| events_recv: "psc_loop c \<noteq> Finished \<Longrightarrow> psc_ready c = xs @ ep # ys
    \<Longrightarrow> events_step C c (Recv ep) (c\<lparr>psc_ready := xs @ ys, psc_done := Suc (psc_done c)\<rparr>)"
| events_count: "psc_done c = Suc n
    \<Longrightarrow> events_step C c Count (c\<lparr>psc_done := n, psc_vars := vars_add ''Events'' 1 (psc_vars c)\<rparr>)"
| events_close: "psc_loop c = Draining \<Longrightarrow> psc_raw c = [] \<Longrightarrow> psc_ready c = [] \<Longrightarrow> psc_done c = 0
    \<Longrightarrow> events_step C c CloseChan (c\<lparr>psc_loop := Finished\<rparr>)"
| events_panic: "psc_loop c = Finished \<Longrightarrow> psc_ready c \<noteq> [] \<Longrightarrow> events_step C c SendOnClosed c"

definition events_view :: "pubSubConn \<Rightarrow> (string \<times> string \<times> wire, evntPayload) stream" where
  "events_view c =
     \<lparr>st_loop = psc_loop c, st_raw = psc_raw c, st_ready = psc_ready c, st_done = psc_done c,
      st_err = psc_err c\<rparr>"

definition events_init :: "Broker \<Rightarrow> pubSubConn \<Rightarrow> bool" where
  "events_init b c \<longleftrightarrow> NewPubSubConn b None = Inr c"

lemma events_progress:
  assumes "psc_loop c = Draining"
  shows "\<exists>l s'. events_step C c l s' \<and> l \<noteq> Quiet"
proof -
  consider v xs where "psc_raw c = [] @ v # xs" | p xs where "psc_ready c = [] @ p # xs"
    | n where "psc_done c = Suc n" | "psc_raw c = []" "psc_ready c = []" "psc_done c = 0"
    by (metis append_Nil list.exhaust not0_implies_Suc)
  then show ?thesis
  proof cases
    case (1 v xs)
    obtain x vars where "sendEvent C v (psc_vars c) = (x, vars)"
      by (cases "sendEvent C v (psc_vars c)") auto
    with 1 show ?thesis
      by (cases x) (blast intro: events_step.events_drop events_step.events_ready slabel.distinct)+
  next
    case (2 p xs)
    then show ?thesis using assms events_step.events_recv [of c "[]" p xs C] by auto
  next
    case (3 n)
    then show ?thesis by (blast intro: events_step.events_count slabel.distinct)
  next
    case 4
    then show ?thesis using assms by (blast intro: events_step.events_close slabel.distinct)
  qed
qed

interpretation events_conn: stream_impl "events_step C" "events_init b" events_view
  for C b
proof
  show "events_view s = stream_init" if "events_init b s" for s
    using that by (auto simp: events_init_def NewPubSubConn_def events_view_def stream_init_def)
  show "stream_step (events_view s) l (events_view s')" if "events_step C s l s'" for s l s'
    using that
  proof cases
    case (events_value n v)
    then show ?thesis using stream_step.pop [of "events_view s" v] by (simp add: events_view_def)
  next
    case (events_drop xs v ys vars)
    then show ?thesis
      using stream_step.drop [of "events_view s" xs v ys] by (simp add: events_view_def)
  next
    case (events_ready xs v ys ep vars)
    then show ?thesis
      using stream_step.ready [of "events_view s" xs v ys ep] by (simp add: events_view_def)
  next
    case (events_recv xs ep ys)
    then show ?thesis
      using stream_step.recv [of "events_view s" xs ep ys] by (simp add: events_view_def)
  next
    case (events_error e)
    then show ?thesis using stream_step.fail [of "events_view s" e] by (simp add: events_view_def)
  next
    case (events_count n)
    then show ?thesis using stream_step.count [of "events_view s" n] by (simp add: events_view_def)
  next
    case events_first
    then show ?thesis using stream_step.start [of "events_view s"] by (simp add: events_view_def)
  next
    case events_close
    then show ?thesis using stream_step.close [of "events_view s"] by (simp add: events_view_def)
  qed (auto simp: events_view_def intro: stream_step.intros)
  show "\<exists>l s'. events_step C s l s' \<and> l \<noteq> Quiet" if "st_loop (events_view s) = Draining" for s
    using that events_progress [of s C] by (simp add: events_view_def)
qed

section \<open>Expiration\<close>

lemma PTTL_after_elapse:
  assumes "redis_laws R" and "0 \<le> d" and "0 < rd_PTTL R k r"
  shows "rd_PTTL R k (rd_elapse R d r) = (if d < rd_PTTL R k r then rd_PTTL R k r - d else - 2)"
  using elapse_less(1) [OF assms(1,2)] reads_none(1) [OF assms(1) elapse_expired [OF assms(1,2)]] assms(3)
  by auto

lemma delAndPTTL_reply: "fst (delAndPTTLScript R k r) = Inr (rd_PTTL R k r)"
  by (simp add: delAndPTTLScript_def split: prod.splits)

lemma sendCall_stored:
  assumes "uuid_roundtrips C" and "wf_callPayload cp" and "serves slot pool R"
  shows "fst (sendCall C pool NoFault now (Some (encode_callPayload C cp)) vars r) =
    (let pttl = rd_PTTL R (callTimeoutKey (cp_URI cp) (uuid_String C (cp_MsgUUID cp))) r in
     if pttl \<le> 0 then None
     else Some (cp\<lparr>cp_ReadTimestamp := now, cp_TTLAfterRead := i64 (pttl * Millisecond)\<rparr>))"
proof -
  let ?k = "callTimeoutKey (cp_URI cp) (uuid_String C (cp_MsgUUID cp))"
  obtain r' where "delAndPTTLScript R ?k r = (Inr (rd_PTTL R ?k r), r')"
    using delAndPTTL_reply [of R ?k r] by (metis prod.collapse)
  then show ?thesis
    using decode_callPayload_encode [OF assms(1,2)] clusterify_one [OF assms(3), of ?k]
    by (simp add: sendCall_def unmarshalBRPOPValue_def roundtrip_def stored_call_def Let_def)
qed

lemma sendResult_stored:
  assumes "uuid_roundtrips C" and "wf_resPayload rp" and "serves slot pool R"
  shows "fst (sendResult C pool NoFault (Some (encode_resPayload C rp)) vars r) =
    (if rd_PTTL R (resTimeoutKey (uuid_String C (rp_ConnUUID rp)) (uuid_String C (rp_MsgUUID rp))) r \<le> 0
     then None else Some rp)"
proof -
  let ?k = "resTimeoutKey (uuid_String C (rp_ConnUUID rp)) (uuid_String C (rp_MsgUUID rp))"
  obtain r' where "delAndPTTLScript R ?k r = (Inr (rd_PTTL R ?k r), r')"
    using delAndPTTL_reply [of R ?k r] by (metis prod.collapse)
  then show ?thesis
    using decode_resPayload_encode [OF assms(1,2)] clusterify_one [OF assms(3), of ?k]
    by (simp add: sendResult_def unmarshalBRPOPValue_def roundtrip_def Let_def)
qed

lemma ttl_in_i64: "in_i64 t \<Longrightarrow> 0 \<le> d \<Longrightarrow> d < timeout_ms t \<Longrightarrow> - Millisecond < t
    \<Longrightarrow> in_i64 ((timeout_ms t - d) * Millisecond)"
proof -
  assume a: "in_i64 t" "0 \<le> d" "d < timeout_ms t" "- Millisecond < t"
  have "timeout_ms t * Millisecond \<le> max (60000 * Millisecond) t"
  proof (cases "\<bar>t\<bar> < Millisecond")
    case True
    then show ?thesis by (simp add: timeout_ms_eq)
  next
    case False
    then have "timeout_ms t = t div Millisecond"
      using a(4) by (intro timeout_ms_bounds) linarith
    moreover have "t div Millisecond * Millisecond \<le> t"
      by (simp add: Millisecond_def)
    ultimately show ?thesis by simp
  qed
  then have "(timeout_ms t - d) * Millisecond \<le> max (60000 * Millisecond) t"
    using a(2) by (simp add: Millisecond_def)
  moreover have "0 \<le> (timeout_ms t - d) * Millisecond" using a(3) by (simp add: Millisecond_def)
  ultimately show ?thesis
    using a(1) by (auto simp: in_i64_def Millisecond_def max_def split: if_splits)
qed

section \<open>Properties\<close>

text \<open>
  C13. A call lives for its timeout and no longer: a call the broker has accepted and whose
  payload is read \<open>d\<close> milliseconds later is handed to the callee, unchanged but for the
  time of the read and the time to live, which is exactly what is left of the timeout in
  whole milliseconds (no overflow), when there is any left, and is dropped otherwise.
\<close>

theorem registered_call_delivered:
  assumes inv: "broker_invar slot pool R r" and ok: "keys_ok pool (cp_URI cp)"
    and uuid: "uuid_roundtrips C" and wf: "wf_callPayload cp" and t: "in_i64 t"
    and call: "Broker_Call C pool b NoFault cp t r = (None, r1)" and d: "0 \<le> d"
  shows "fst (sendCall C pool NoFault now (Some (encode_callPayload C cp)) vars (rd_elapse R d r1)) =
    (if d < timeout_ms t
     then Some (cp\<lparr>cp_ReadTimestamp := now, cp_TTLAfterRead := (timeout_ms t - d) * Millisecond\<rparr>)
     else None)"
proof -
  note out = register_outcome [OF inv list_key_simps(1) not_list_key(1)
      clusterify_call [OF broker_invarD(2,3) [OF inv] ok] call [unfolded Broker_Call_def]]
  let ?k = "callTimeoutKey (cp_URI cp) (uuid_String C (cp_MsgUUID cp))"
  have pos: "0 < timeout_ms t" and ttl: "rd_PTTL R ?k r1 = timeout_ms t" using out(1,2) by auto
  have "rd_PTTL R ?k (rd_elapse R d r1) = (if d < timeout_ms t then timeout_ms t - d else - 2)"
    using PTTL_after_elapse [OF broker_invarD(1) [OF inv] d, of ?k r1] ttl pos by simp
  then show ?thesis
    using sendCall_stored [OF uuid wf broker_invarD(3) [OF inv], of now vars "rd_elapse R d r1"]
      ttl_in_i64 [OF t d] pos timeout_ms_pos_iff [of t] by (simp add: Let_def)
qed

theorem registered_call_delivered_witness:
  "fst (sendCall example_codec example_pool NoFault 7
     (Some (encode_callPayload example_codec example_callPayload)) None
     (rd_elapse mem_redis 400
       (snd (Broker_Call example_codec example_pool example_broker NoFault example_callPayload Second
         (\<lambda>_. None)))))
   = Some (example_callPayload\<lparr>cp_ReadTimestamp := 7, cp_TTLAfterRead := 600 * Millisecond\<rparr>)"
proof -
  have "fst (Broker_Call example_codec example_pool example_broker NoFault example_callPayload Second
      (\<lambda>_. None)) = None"
    by code_simp
  then obtain r1 where c: "Broker_Call example_codec example_pool example_broker NoFault
      example_callPayload Second (\<lambda>_. None) = (None, r1)"
    by (metis prod.collapse)
  have "wf_callPayload example_callPayload" "in_i64 Second" "timeout_ms Second = 1000" by code_simp+
  then show ?thesis
    using registered_call_delivered [OF example_broker_invar example_keys_ok uuid_roundtrips_example
        _ _ c, of 400 7 None] c
    by simp
qed

text \<open>
  C14. The same for a result: one the broker has accepted and whose payload is read \<open>d\<close>
  milliseconds later is sent on, unchanged, when that is within its timeout, and dropped
  otherwise.
\<close>

theorem registered_result_delivered:
  assumes inv: "broker_invar slot pool R r" and ok: "keys_ok pool (uuid_String C (rp_ConnUUID rp))"
    and uuid: "uuid_roundtrips C" and wf: "wf_resPayload rp"
    and res: "Broker_Result C pool b NoFault rp t r = (None, r1)" and d: "0 \<le> d"
  shows "fst (sendResult C pool NoFault (Some (encode_resPayload C rp)) vars (rd_elapse R d r1)) =
    (if d < timeout_ms t then Some rp else None)"
proof -
  note out = register_outcome [OF inv list_key_simps(2) not_list_key(2)
      clusterify_res [OF broker_invarD(2,3) [OF inv] ok] res [unfolded Broker_Result_def]]
  let ?k = "resTimeoutKey (uuid_String C (rp_ConnUUID rp)) (uuid_String C (rp_MsgUUID rp))"
  have pos: "0 < timeout_ms t" and ttl: "rd_PTTL R ?k r1 = timeout_ms t" using out(1,2) by auto
  have "rd_PTTL R ?k (rd_elapse R d r1) = (if d < timeout_ms t then timeout_ms t - d else - 2)"
    using PTTL_after_elapse [OF broker_invarD(1) [OF inv] d, of ?k r1] ttl pos by simp
  then show ?thesis
    using sendResult_stored [OF uuid wf broker_invarD(3) [OF inv], of vars "rd_elapse R d r1"]
    by simp
qed

theorem registered_result_delivered_witness:
  "fst (sendResult example_codec example_pool NoFault
     (Some (encode_resPayload example_codec example_resPayload)) None
     (rd_elapse mem_redis 1000
       (snd (Broker_Result example_codec example_pool example_broker NoFault example_resPayload Second
         (\<lambda>_. None))))) = None"
proof -
  have "fst (Broker_Result example_codec example_pool example_broker NoFault example_resPayload Second
      (\<lambda>_. None)) = None"
    by code_simp
  then obtain r1 where c: "Broker_Result example_codec example_pool example_broker NoFault
      example_resPayload Second (\<lambda>_. None) = (None, r1)"
    by (metis prod.collapse)
  have "wf_resPayload example_resPayload" "timeout_ms Second = 1000" by code_simp+
  then show ?thesis
    using registered_result_delivered [OF example_broker_invar example_keys_ok uuid_roundtrips_example
        _ c, of 1000 None] c
    by simp
qed

text \<open>
  C15. The channel of calls: in every execution of a calls connection, with its goroutines,
  its receivers and the rest of the world interleaved in any way, nothing is ever sent on
  the closed channel; and once the channel is closed, every value taken from redis was
  either dropped or turned into one payload that was received, once; the error that ended
  the loop is set; and nothing happens to the connection any more.
\<close>

theorem calls_channel:
  assumes "calls_init b uris s" and "steps (calls_step C conn pool) s ls (c, r)"
  shows "SendOnClosed \<notin> set ls
    \<and> (cc_loop c = Finished \<longrightarrow>
         all_of popped ls = all_of dropped ls + image_mset fst (all_of readied ls)
         \<and> all_of received ls = image_mset snd (all_of readied ls) \<and> CallsErr c \<noteq> None
         \<and> (\<forall>l s'. calls_step C conn pool (c, r) l s' \<longrightarrow> l = Quiet \<and> calls_view s' = calls_view (c, r)))"
  using calls_conn.conserved [OF assms] calls_conn.closed_channel [OF assms]
  by (auto simp: calls_view_def CallsErr_def)

definition example_callsConn :: callsConn where
  "example_callsConn =
     \<lparr>cc_uris = [''test.echo''], cc_timeout = 0, cc_vars = None, cc_loop = NotStarted, cc_raw = [],
      cc_ready = [], cc_done = 0, cc_err = None\<rparr>"

lemma example_calls_run:
  "\<exists>ls c r. steps (calls_step example_codec example_pool example_pool) (example_callsConn, \<lambda>_. None) ls
       (c, r) \<and> cc_loop c = Finished \<and> ls = [Start, Quiet, Pop None, Fail ErrJSON, Drop None, CloseChan]"
proof -
  define c where "c = example_callsConn\<lparr>cc_loop := Polling\<rparr>"
  define r where "r = mem_put (callKey ''test.echo'') [None] None (\<lambda>_. None)"
  define r' where "r' = snd (rd_BRPOP mem_redis [callKey ''test.echo''] r)"
  let ?step = "calls_step example_codec example_pool example_pool"
  have pop: "rd_BRPOP mem_redis [callKey ''test.echo''] r = (Some (callKey ''test.echo'', None), r')"
    by (simp add: r_def r'_def mem_cmds(5) del: mem_put.simps)
  have conn: "clusterifyConn example_pool ks = mem_redis" for ks
    by (simp add: clusterifyConn_def example_pool_def)
  have 1: "?step (example_callsConn, \<lambda>_. None) Start (c, \<lambda>_. None)"
    unfolding c_def by (rule calls_step.calls_first) (simp add: example_callsConn_def)
  have 2: "?step (c, \<lambda>_. None) Quiet (c, r)" by (rule calls_step.calls_world)
  have 3: "?step (c, r) (Pop None) (c\<lparr>cc_raw := [None]\<rparr>, r')"
    using calls_step.calls_value [of c example_pool r "callKey ''test.echo''" None r' example_codec example_pool]
    by (simp add: c_def example_callsConn_def calls_keys_def conn pop)
  have 4: "?step (c\<lparr>cc_raw := [None]\<rparr>, r') (Fail ErrJSON)
      (c\<lparr>cc_raw := [None], cc_loop := Draining, cc_err := Some ErrJSON\<rparr>, r')"
    using calls_step.calls_error [of "c\<lparr>cc_raw := [None]\<rparr>" r' r' example_pool example_codec example_pool ErrJSON]
    by (simp add: c_def example_callsConn_def)
  have 5: "?step (c\<lparr>cc_raw := [None], cc_loop := Draining, cc_err := Some ErrJSON\<rparr>, r') (Drop None)
      (c\<lparr>cc_raw := [], cc_loop := Draining, cc_err := Some ErrJSON\<rparr>, r')"
    using calls_step.calls_drop [of "c\<lparr>cc_raw := [None], cc_loop := Draining, cc_err := Some ErrJSON\<rparr>"
        "[]" None "[]" example_codec example_pool NoFault 0 r' None r' example_pool]
    by (simp add: c_def example_callsConn_def sendCall_def unmarshalBRPOPValue_def)
  have 6: "?step (c\<lparr>cc_raw := [], cc_loop := Draining, cc_err := Some ErrJSON\<rparr>, r') CloseChan
      (c\<lparr>cc_raw := [], cc_loop := Finished, cc_err := Some ErrJSON\<rparr>, r')"
    using calls_step.calls_close [of "c\<lparr>cc_raw := [], cc_loop := Draining, cc_err := Some ErrJSON\<rparr>"
        example_codec example_pool example_pool r']
    by (simp add: c_def example_callsConn_def)
  note run = steps_snoc [OF steps_snoc [OF steps_snoc [OF steps_snoc [OF steps_snoc [OF
    steps_snoc [OF steps_Nil [of ?step]]]]]]]
  show ?thesis
    using run [OF 1 2 3 4 5 6] by (intro exI conjI, assumption) simp_all
qed

theorem calls_channel_witness:
  "\<exists>ls c r. steps (calls_step example_codec example_pool example_pool) (example_callsConn, \<lambda>_. None) ls
       (c, r) \<and> all_of popped ls = {#None#} \<and> CallsErr c \<noteq> None"
proof -
  obtain ls c r where run: "steps (calls_step example_codec example_pool example_pool)
      (example_callsConn, \<lambda>_. None) ls (c, r)" "cc_loop c = Finished"
    and ls: "ls = [Start, Quiet, Pop None, Fail ErrJSON, Drop None, CloseChan]"
    using example_calls_run by blast
  have "calls_init example_broker [''test.echo''] (example_callsConn, \<lambda>_. None)"
    by (simp add: calls_init_def NewCallsConn_def example_broker_def example_callsConn_def)
  from calls_channel [OF this run(1)] run(2) have "CallsErr c \<noteq> None" by blast
  moreover have "all_of popped ls = {#None#}" by (simp add: ls all_of_def)
  ultimately show ?thesis using run(1) by blast
qed

text \<open>
  The channel of results: the same contract as that of calls, for every execution of a
  results connection.
\<close>

theorem results_channel:
  assumes "results_init b u s" and "steps (results_step C conn pool) s ls (c, r)"
  shows "SendOnClosed \<notin> set ls
    \<and> (rsc_loop c = Finished \<longrightarrow>
         all_of popped ls = all_of dropped ls + image_mset fst (all_of readied ls)
         \<and> all_of received ls = image_mset snd (all_of readied ls) \<and> ResultsErr c \<noteq> None
         \<and> (\<forall>l s'. results_step C conn pool (c, r) l s'
              \<longrightarrow> l = Quiet \<and> results_view s' = results_view (c, r)))"
  using results_conn.conserved [OF assms] results_conn.closed_channel [OF assms]
  by (auto simp: results_view_def ResultsErr_def)

definition example_resultsConn :: resultsConn where
  "example_resultsConn =
     \<lparr>rsc_connUUID = example_uuid, rsc_timeout = 0, rsc_vars = None, rsc_loop = NotStarted,
      rsc_raw = [], rsc_ready = [], rsc_done = 0, rsc_err = None\<rparr>"

lemma example_results_run:
  fixes r :: memdb
  shows "\<exists>c. steps (results_step example_codec example_pool example_pool) (example_resultsConn, r)
       [Start, Fail ErrJSON, CloseChan] (c, r) \<and> rsc_loop c = Finished"
proof -
  let ?step = "results_step example_codec example_pool example_pool"
  let ?c = "example_resultsConn\<lparr>rsc_loop := Polling\<rparr>"
  let ?d = "?c\<lparr>rsc_loop := Draining, rsc_err := Some ErrJSON\<rparr>"
  have 1: "?step (example_resultsConn, r) Start (?c, r)"
    by (rule results_step.results_first) (simp add: example_resultsConn_def)
  have 2: "?step (?c, r) (Fail ErrJSON) (?d, r)"
    by (rule results_step.results_error) simp_all
  have 3: "?step (?d, r) CloseChan (?d\<lparr>rsc_loop := Finished\<rparr>, r)"
    by (rule results_step.results_close) (simp_all add: example_resultsConn_def)
  note run = steps_snoc [OF steps_snoc [OF steps_snoc [OF steps_Nil [of ?step]]]]
  have "rsc_loop (?d\<lparr>rsc_loop := Finished\<rparr>) = Finished" by simp
  with run [OF 1 2 3] show ?thesis by (simp only: append.simps) blast
qed

text \<open>The error of a connection is visible before its channel is closed, while its goroutines
  finish.\<close>

lemma error_before_close:
  fixes r :: memdb
  shows "\<exists>ls c. steps (results_step example_codec example_pool example_pool) (example_resultsConn, r) ls (c, r)
    \<and> ResultsErr c = Some ErrJSON \<and> rsc_loop c = Draining \<and> CloseChan \<notin> set ls"
proof -
  let ?step = "results_step example_codec example_pool example_pool"
  let ?c = "example_resultsConn\<lparr>rsc_loop := Polling\<rparr>"
  let ?d = "?c\<lparr>rsc_loop := Draining, rsc_err := Some ErrJSON\<rparr>"
  have 1: "?step (example_resultsConn, r) Start (?c, r)"
    by (rule results_step.results_first) (simp add: example_resultsConn_def)
  have 2: "?step (?c, r) (Fail ErrJSON) (?d, r)"
    by (rule results_step.results_error) simp_all
  have "steps ?step (example_resultsConn, r) [Start, Fail ErrJSON] (?d, r)"
    using steps_snoc [OF steps_snoc [OF steps_Nil [of ?step] 1] 2] by simp
  then show ?thesis
    by (intro exI [of _ "[Start, Fail ErrJSON]"] exI [of _ ?d]) (simp add: ResultsErr_def)
qed

theorem results_channel_witness:
  "\<exists>ls c r. steps (results_step example_codec example_pool example_pool) (example_resultsConn, \<lambda>_. None)
       ls (c, r) \<and> rsc_loop c = Finished \<and> all_of received ls = {#} \<and> ResultsErr c \<noteq> None"
proof -
  obtain c where run: "steps (results_step example_codec example_pool example_pool)
      (example_resultsConn, \<lambda>_. None) [Start, Fail ErrJSON, CloseChan] (c, \<lambda>_. None)"
    "rsc_loop c = Finished"
    using example_results_run by blast
  have "results_init example_broker example_uuid (example_resultsConn, (\<lambda>_. None) :: memdb)"
    by (simp add: results_init_def NewResultsConn_def example_broker_def example_resultsConn_def)
  from results_channel [OF this run(1)] run(2) have "ResultsErr c \<noteq> None" by blast
  moreover have "all_of received [Start, Fail ErrJSON, CloseChan :: (wire, resPayload) slabel] = {#}"
    by (simp add: all_of_def)
  ultimately show ?thesis using run by blast
qed

text \<open>
  The channel of events: the same contract, for every execution of a pub-sub connection,
  the values being the messages redis pushes with their channel and pattern.
\<close>

theorem events_channel:
  assumes "events_init b s" and "steps (events_step C) s ls c"
  shows "SendOnClosed \<notin> set ls
    \<and> (psc_loop c = Finished \<longrightarrow>
         all_of popped ls = all_of dropped ls + image_mset fst (all_of readied ls)
         \<and> all_of received ls = image_mset snd (all_of readied ls) \<and> EventsErr c \<noteq> None
         \<and> (\<forall>l s'. events_step C c l s' \<longrightarrow> l = Quiet \<and> events_view s' = events_view c))"
  using events_conn.conserved [OF assms] events_conn.closed_channel [OF assms]
  by (auto simp: events_view_def EventsErr_def)

definition example_event :: "string \<times> string \<times> wire" where
  "example_event =
     (''news'', '''', Some (encode_pubPayload example_codec
        \<lparr>pp_MsgUUID = example_uuid, pp_Args = Some (JStr ''hi'')\<rparr>))"

definition example_evntPayload :: evntPayload where
  "example_evntPayload =
     \<lparr>ep_MsgUUID = example_uuid, ep_Channel = ''news'', ep_Pattern = '''', ep_Args = Some (JStr ''hi'')\<rparr>"

lemma example_event_sent: "sendEvent example_codec example_event None = (Some example_evntPayload, None)"
  using decode_pubPayload_encode [OF uuid_roundtrips_example,
      of "\<lparr>pp_MsgUUID = example_uuid, pp_Args = Some (JStr ''hi'')\<rparr>"]
  by (simp add: sendEvent_def newEvntPayload_def example_event_def example_evntPayload_def wf_uuid_def
      example_uuid_def)

lemma example_events_run:
  "\<exists>c. steps (events_step example_codec)
       \<lparr>psc_vars = None, psc_loop = NotStarted, psc_raw = [], psc_ready = [], psc_done = 0, psc_err = None\<rparr>
       [Start, Pop example_event, Ready example_event example_evntPayload, Fail ErrJSON,
        Recv example_evntPayload, Count, CloseChan] c \<and> psc_loop c = Finished"
proof -
  let ?step = "events_step example_codec"
  define c :: pubSubConn where "c =
    \<lparr>psc_vars = None, psc_loop = NotStarted, psc_raw = [], psc_ready = [], psc_done = 0, psc_err = None\<rparr>"
  let ?p = "c\<lparr>psc_loop := Polling\<rparr>" and ?d = "c\<lparr>psc_loop := Draining, psc_err := Some ErrJSON\<rparr>"
  have 1: "?step c Start ?p" by (rule events_step.events_first) (simp add: c_def)
  have 2: "?step ?p (Pop example_event) (?p\<lparr>psc_raw := [example_event]\<rparr>)"
    using events_step.events_value [of ?p "Message ''news'' (snd (snd example_event))" example_event]
    by (simp add: c_def example_event_def)
  have 3: "?step (?p\<lparr>psc_raw := [example_event]\<rparr>) (Ready example_event example_evntPayload)
      (?p\<lparr>psc_ready := [example_evntPayload]\<rparr>)"
    using events_step.events_ready [of "?p\<lparr>psc_raw := [example_event]\<rparr>" "[]" example_event "[]"
        example_codec example_evntPayload None] example_event_sent
    by (simp add: c_def)
  have 4: "?step (?p\<lparr>psc_ready := [example_evntPayload]\<rparr>) (Fail ErrJSON)
      (?d\<lparr>psc_ready := [example_evntPayload]\<rparr>)"
    using events_step.events_error [of "?p\<lparr>psc_ready := [example_evntPayload]\<rparr>" example_codec ErrJSON]
    by (simp add: c_def)
  have 5: "?step (?d\<lparr>psc_ready := [example_evntPayload]\<rparr>) (Recv example_evntPayload) (?d\<lparr>psc_done := 1\<rparr>)"
    using events_step.events_recv [of "?d\<lparr>psc_ready := [example_evntPayload]\<rparr>" "[]" example_evntPayload "[]"]
    by (simp add: c_def)
  have 6: "?step (?d\<lparr>psc_done := 1\<rparr>) Count ?d"
    using events_step.events_count [of "?d\<lparr>psc_done := 1\<rparr>" 0] by (simp add: c_def)
  have 7: "?step ?d CloseChan (?d\<lparr>psc_loop := Finished\<rparr>)"
    by (rule events_step.events_close) (simp_all add: c_def)
  note run = steps_snoc [OF steps_snoc [OF steps_snoc [OF steps_snoc [OF steps_snoc [OF
    steps_snoc [OF steps_snoc [OF steps_Nil [of ?step]]]]]]]]
  have "psc_loop (?d\<lparr>psc_loop := Finished\<rparr>) = Finished" by simp
  with run [OF 1 2 3 4 5 6 7] show ?thesis unfolding c_def by (simp only: append.simps) blast
qed

theorem events_channel_witness:
  "\<exists>ls c. steps (events_step example_codec)
       \<lparr>psc_vars = None, psc_loop = NotStarted, psc_raw = [], psc_ready = [], psc_done = 0, psc_err = None\<rparr>
       ls c \<and> all_of popped ls = {#example_event#} \<and> all_of received ls = {#example_evntPayload#}
     \<and> EventsErr c \<noteq> None"
proof -
  obtain c where run: "steps (events_step example_codec)
       \<lparr>psc_vars = None, psc_loop = NotStarted, psc_raw = [], psc_ready = [], psc_done = 0, psc_err = None\<rparr>
       [Start, Pop example_event, Ready example_event example_evntPayload, Fail ErrJSON,
        Recv example_evntPayload, Count, CloseChan] c" "psc_loop c = Finished"
    using example_events_run by blast
  have "events_init example_broker
      \<lparr>psc_vars = None, psc_loop = NotStarted, psc_raw = [], psc_ready = [], psc_done = 0, psc_err = None\<rparr>"
    by (simp add: events_init_def NewPubSubConn_def example_broker_def)
  from events_channel [OF this run(1)] run(2) have "EventsErr c \<noteq> None" by blast
  moreover have "all_of popped [Start, Pop example_event, Ready example_event example_evntPayload,
      Fail ErrJSON, Recv example_evntPayload, Count, CloseChan] = {#example_event#}"
    "all_of received [Start, Pop example_event, Ready example_event example_evntPayload, Fail ErrJSON,
      Recv example_evntPayload, Count, CloseChan] = {#example_evntPayload#}"
    by (simp_all add: all_of_def)
  ultimately show ?thesis using run(1) by blast
qed

text \<open>
  C17. The channels do get closed: when the loop of a connection has ended, whatever its
  goroutines are at, every step of them (a check, a receive, the end of a goroutine) leaves
  less work, and a number of such steps bounded by that work closes the channel.
\<close>

theorem conns_can_close:
  shows "(cc_loop c = Draining \<longrightarrow>
       (\<exists>ls s'. steps (calls_step C conn pool) (c, r) ls s' \<and> cc_loop (fst s') = Finished
          \<and> length ls \<le> pending_work (calls_view (c, r)))
       \<and> (\<forall>l s'. calls_step C conn pool (c, r) l s' \<longrightarrow> l \<noteq> Quiet
            \<longrightarrow> pending_work (calls_view s') < pending_work (calls_view (c, r))))
    \<and> (rsc_loop rs = Draining \<longrightarrow>
       (\<exists>ls s'. steps (results_step C conn pool) (rs, r) ls s' \<and> rsc_loop (fst s') = Finished
          \<and> length ls \<le> pending_work (results_view (rs, r))))
    \<and> (psc_loop ps = Draining \<longrightarrow>
       (\<exists>ls s'. steps (events_step C) ps ls s' \<and> psc_loop s' = Finished
          \<and> length ls \<le> pending_work (events_view ps)))"
  using calls_conn.can_close [of "(c, r)" C conn pool] calls_conn.drains [of "(c, r)" C conn pool]
    results_conn.can_close [of "(rs, r)" C conn pool] events_conn.can_close [of ps C]
  by (fastforce simp: calls_view_def results_view_def events_view_def)

theorem conns_can_close_witness:
  "\<exists>ls s'. steps (events_step example_codec)
       \<lparr>psc_vars = None, psc_loop = Draining, psc_raw = [example_event], psc_ready = [], psc_done = 0,
        psc_err = Some ErrJSON\<rparr> ls s'
     \<and> psc_loop s' = Finished \<and> length ls \<le> 4"
  using conns_can_close [of example_callsConn example_codec example_pool example_pool "\<lambda>_. None"
      example_resultsConn
      "\<lparr>psc_vars = None, psc_loop = Draining, psc_raw = [example_event], psc_ready = [], psc_done = 0,
        psc_err = Some ErrJSON\<rparr>"]
  by (simp add: events_view_def pending_work_def)

end
