(* ===== verification/Callee.thy ===== *)
theory Callee
  imports Payload
begin

text \<open>
  The callee (\<^verbatim>\<open>callee/callee.go\<close>): the execution of a call and the storing of its
  result, and the loop that listens for calls. The broker it stores results in is the
  argument \<open>store\<close> (the method \<^verbatim>\<open>CalleeBroker.Result\<close>, over a state of the broker). A
  thunk is the user's function: what \<^verbatim>\<open>json.Marshal\<close> makes of its value, its error if
  it has one, and how long it took.
\<close>

section \<open>Thunks\<close>

text \<open>An error is a \<^verbatim>\<open>json.Marshaler\<close>, with what it encodes to, or a plain error with
  its text.\<close>

datatype thunk_err = PlainErr string | MarshalerErr "json option"

record thunk_result =
  tr_value :: "json option"
  tr_err :: "thunk_err option"
  tr_elapsed :: duration

type_synonym Thunk = "callPayload \<Rightarrow> thunk_result"

type_synonym 'b store = "resPayload \<Rightarrow> duration \<Rightarrow> 'b \<Rightarrow> err option \<times> 'b"

section \<open>Storing a result\<close>

definition result_value :: "json option \<Rightarrow> thunk_err option \<Rightarrow> json option" where
  "result_value v e =
     (case e of
        None \<Rightarrow> v
      | Some (MarshalerErr ms) \<Rightarrow> ms
      | Some (PlainErr m) \<Rightarrow> Some (ErrResult m))"

definition result_payload :: "callPayload \<Rightarrow> json \<Rightarrow> resPayload" where
  "result_payload cp b =
     \<lparr>rp_ConnUUID = cp_ConnUUID cp, rp_MsgUUID = cp_MsgUUID cp, rp_URI = cp_URI cp, rp_Args = Some b\<rparr>"

definition storeResult ::
  "'b store \<Rightarrow> callPayload \<Rightarrow> json option \<Rightarrow> thunk_err option \<Rightarrow> duration \<Rightarrow> 'b \<Rightarrow> err option \<times> 'b" where
  "storeResult store cp v e timeout s =
     (case result_value v e of
        None \<Rightarrow> (Some ErrJSON, s)
      | Some b \<Rightarrow> store (result_payload cp b) timeout s)"

definition InvokeAndStoreResult ::
  "'b store \<Rightarrow> callPayload \<Rightarrow> Thunk \<Rightarrow> 'b \<Rightarrow> err option \<times> 'b" where
  "InvokeAndStoreResult store cp fn s =
     (let ttl = cp_TTLAfterRead cp;
          r = fn cp;
          remain = i64 (ttl - tr_elapsed r) in
      if 0 < remain then storeResult store cp (tr_value r) (tr_err r) remain s
      else (Some ErrCallExpired, s))"

section \<open>Listening\<close>

text \<open>
  The loop over the calls that the connection delivers; a call for a URI that has no thunk
  is one of a nil function.
\<close>

fun listen_loop ::
  "'b store \<Rightarrow> (string \<times> Thunk) list \<Rightarrow> callPayload list \<Rightarrow> 'b \<Rightarrow> panic + 'b" where
  "listen_loop store m [] s = Inr s"
| "listen_loop store m (cp # cps) s =
     (case map_of m (cp_URI cp) of
        None \<Rightarrow> Inl nil_dereference
      | Some fn \<Rightarrow> listen_loop store m cps (snd (InvokeAndStoreResult store cp fn s)))"

text \<open>
  \<^verbatim>\<open>Listen\<close>: \<open>connect\<close> is \<^verbatim>\<open>NewCallsConn\<close> for some URIs; its connection is given by
  the calls it delivers and the error that ends it.
\<close>

definition Listen ::
  "'b store \<Rightarrow> (string list \<Rightarrow> err + callPayload list \<times> err option) \<Rightarrow> (string \<times> Thunk) list \<Rightarrow> 'b
     \<Rightarrow> panic + err option \<times> 'b" where
  "Listen store connect m s =
     (if m = [] then Inr (None, s)
      else case connect (map fst m) of
             Inl e \<Rightarrow> Inr (Some e, s)
           | Inr (cps, e) \<Rightarrow> map_sum id (Pair e) (listen_loop store m cps s))"

section \<open>Lemmas\<close>

text \<open>The abstract effect of a call: the result to store and its timeout, if any.\<close>

definition call_result :: "callPayload \<Rightarrow> Thunk \<Rightarrow> (resPayload \<times> duration) option" where
  "call_result cp fn =
     (let r = fn cp; remain = cp_TTLAfterRead cp - tr_elapsed r in
      if remain \<le> 0 then None
      else map_option (\<lambda>b. (result_payload cp b, remain)) (result_value (tr_value r) (tr_err r)))"

definition fits :: "callPayload \<Rightarrow> Thunk \<Rightarrow> bool" where
  "fits cp fn \<longleftrightarrow> in_i64 (cp_TTLAfterRead cp) \<and> 0 \<le> tr_elapsed (fn cp) \<and> in_i64 (tr_elapsed (fn cp))
     \<and> - (2 ^ 63) \<le> cp_TTLAfterRead cp - tr_elapsed (fn cp)"

lemma invoke_result:
  assumes "fits cp fn"
  shows "snd (InvokeAndStoreResult store cp fn s) =
    (case call_result cp fn of None \<Rightarrow> s | Some (rp, t) \<Rightarrow> snd (store rp t s))"
proof -
  have "in_i64 (cp_TTLAfterRead cp - tr_elapsed (fn cp))"
    using assms by (simp add: fits_def in_i64_def)
  then show ?thesis
    by (auto simp: InvokeAndStoreResult_def call_result_def storeResult_def Let_def split: option.splits)
qed

text \<open>The results of a sequence of calls, in order.\<close>

definition call_results :: "(string \<times> Thunk) list \<Rightarrow> callPayload list \<Rightarrow> (resPayload \<times> duration) list" where
  "call_results m cps =
     concat (map (\<lambda>cp. case map_of m (cp_URI cp) of
                          None \<Rightarrow> []
                        | Some fn \<Rightarrow> (case call_result cp fn of None \<Rightarrow> [] | Some x \<Rightarrow> [x])) cps)"

definition store_all :: "'b store \<Rightarrow> (resPayload \<times> duration) list \<Rightarrow> 'b \<Rightarrow> 'b" where
  "store_all store rs s = fold (\<lambda>(rp, t) s. snd (store rp t s)) rs s"

lemma listen_loop_results:
  assumes "\<And>cp. cp \<in> set cps \<Longrightarrow> \<exists>fn. map_of m (cp_URI cp) = Some fn \<and> fits cp fn"
  shows "listen_loop store m cps s = Inr (store_all store (call_results m cps) s)"
  using assms
proof (induction cps arbitrary: s)
  case Nil
  show ?case by (simp add: store_all_def call_results_def)
next
  case (Cons cp cps)
  obtain fn where fn: "map_of m (cp_URI cp) = Some fn" "fits cp fn" using Cons.prems by auto
  have IH: "listen_loop store m cps s' = Inr (store_all store (call_results m cps) s')" for s'
    using Cons.IH Cons.prems by simp
  show ?case
    using fn IH invoke_result [OF fn(2), of store s]
    by (auto simp: store_all_def call_results_def split: option.splits)
qed

section \<open>Properties\<close>


definition example_cp :: callPayload where
  "example_cp =
     \<lparr>cp_ConnUUID = example_uuid, cp_MsgUUID = example_uuid, cp_URI = ''test.echo'', cp_Args = None,
      cp_TTLAfterRead = Second, cp_ReadTimestamp = 0\<rparr>"

definition example_thunk :: Thunk where
  "example_thunk cp = \<lparr>tr_value = None, tr_err = Some (PlainErr ''no''), tr_elapsed = Millisecond\<rparr>"


text \<open>
  C28. Listening: when every call delivered is for a URI that has a thunk, the loop does not
  panic, runs the calls in the order of delivery, stores their results in that order
  whatever the errors of storing them, and returns the error that ended the connection.
  Nothing is done when there are no URIs or when connecting fails, and that error is returned.
\<close>

theorem listen_stores_all:
  assumes "m \<noteq> []" and "connect (map fst m) = Inr (cps, e)"
    and "\<And>cp. cp \<in> set cps \<Longrightarrow> \<exists>fn. map_of m (cp_URI cp) = Some fn \<and> fits cp fn"
  shows "Listen store connect m s = Inr (e, store_all store (call_results m cps) s)
    \<and> map (rp_MsgUUID \<circ> fst) (call_results m cps)
        = map cp_MsgUUID (filter (\<lambda>cp. call_result cp (the (map_of m (cp_URI cp))) \<noteq> None) cps)"
proof -
  have "map (rp_MsgUUID \<circ> fst) (call_results m cps)
      = map cp_MsgUUID (filter (\<lambda>cp. call_result cp (the (map_of m (cp_URI cp))) \<noteq> None) cps)"
    using assms(3)
  proof (induction cps)
    case (Cons cp cps)
    then obtain fn where "map_of m (cp_URI cp) = Some fn" by auto
    with Cons show ?case
      by (auto simp: call_results_def call_result_def result_payload_def Let_def split: option.splits
          if_splits)
  qed (simp add: call_results_def)
  moreover have "listen_loop store m cps s = Inr (store_all store (call_results m cps) s)"
    by (rule listen_loop_results) (rule assms(3))
  ultimately show ?thesis
    using assms(1,2) by (simp add: Listen_def)
qed

theorem listen_stores_all_witness:
  "Listen (\<lambda>rp t s. (None, s @ [rp_MsgUUID rp])) (\<lambda>_. Inr ([example_cp], Some ErrJSON))
     [(''test.echo'', example_thunk)] [] = Inr (Some ErrJSON, [example_uuid])"
proof -
  have "fits example_cp example_thunk"
    by (simp add: fits_def example_cp_def example_thunk_def in_i64_def Second_def Millisecond_def)
  then have "\<exists>fn. map_of [(''test.echo'', example_thunk)] (cp_URI cp) = Some fn \<and> fits cp fn"
    if "cp \<in> set [example_cp]" for cp
    using that by (simp add: example_cp_def)
  from listen_stores_all [where m = "[(''test.echo'', example_thunk)]" and cps = "[example_cp]"
      and connect = "\<lambda>_. Inr ([example_cp], Some ErrJSON)" and e = "Some ErrJSON"
      and store = "\<lambda>rp t s. (None, s @ [rp_MsgUUID rp])" and s = "[]", OF _ _ this]
  show ?thesis
    by (simp add: store_all_def call_results_def call_result_def result_payload_def result_value_def
        example_cp_def example_thunk_def Second_def Millisecond_def Let_def)
qed

end
