(* ===== verification/Client.thy ===== *)
theory Client
  imports Redis_Broker Wswriter "HOL-Library.Multiset" "HOL-Library.Sublist"
begin

text \<open>
  The client (\<^verbatim>\<open>client/client.go\<close>). The operations are functions on the record
  \<open>Client\<close>; \<open>client_step\<close> interleaves them: a request is checked and made, then written,
  and a call is only then registered as pending; the loop that receives messages, the
  goroutines that wait for the expiration of the calls and the closing of the client run
  beside it. Each step is one critical section of the code (under \<^verbatim>\<open>mu\<close> or under the
  write lock).
\<close>

section \<open>The state\<close>

text \<open>\<^verbatim>\<open>Exp\<close>, and the messages that the handler is given.\<close>

record exp =
  exp_Meta :: meta
  exp_For :: uuid
  exp_URI :: string
  exp_Args :: raw

datatype client_msg = Received msg | Expired exp

text \<open>What the client runs on: the codec, the text the encoder writes, the websocket with
  its \<^verbatim>\<open>SetReadLimit\<close> and \<^verbatim>\<open>Close\<close>, the registry of types and the type registered for
  \<^verbatim>\<open>EXP\<close>.\<close>

record 'c client_env =
  ce_codec :: codec
  ce_text :: "json \<Rightarrow> string"
  ce_ws :: "'c websocket"
  ce_SetReadLimit :: "int \<Rightarrow> 'c \<Rightarrow> 'c"
  ce_CloseConn :: "'c \<Rightarrow> err option \<times> 'c"
  ce_registry :: registry
  ce_ExpMsg :: msg_type

text \<open>
  \<open>cl_lk\<close> is \<^verbatim>\<open>wmu\<close> with the websocket connection, \<open>cl_stop\<close> says that the channel
  \<^verbatim>\<open>stop\<close> is closed, \<open>cl_handler\<close> that the handler is not nil. \<open>cl_handled\<close> is
  auxiliary: the messages given to the handler.
\<close>

record 'c Client =
  cl_lk :: "'c locked"
  cl_callTimeout :: duration
  cl_handler :: bool
  cl_readTimeout :: duration
  cl_writeTimeout :: duration
  cl_acquireWriteLockTimeout :: duration
  cl_writeLimit :: int
  cl_stop :: bool
  cl_results :: "string set"
  cl_err :: "err option"
  cl_handled :: "client_msg list"

section \<open>Options and creation\<close>

definition SetCallTimeout :: "duration \<Rightarrow> 'c Client \<Rightarrow> 'c Client" where
  "SetCallTimeout timeout c = c\<lparr>cl_callTimeout := timeout\<rparr>"

definition SetHandler :: "bool \<Rightarrow> 'c Client \<Rightarrow> 'c Client" where
  "SetHandler h c = c\<lparr>cl_handler := h\<rparr>"

definition SetReadTimeout :: "duration \<Rightarrow> 'c Client \<Rightarrow> 'c Client" where
  "SetReadTimeout timeout c = c\<lparr>cl_readTimeout := timeout\<rparr>"

definition SetWriteTimeout :: "duration \<Rightarrow> 'c Client \<Rightarrow> 'c Client" where
  "SetWriteTimeout timeout c = c\<lparr>cl_writeTimeout := timeout\<rparr>"

definition SetAcquireWriteLockTimeout :: "duration \<Rightarrow> 'c Client \<Rightarrow> 'c Client" where
  "SetAcquireWriteLockTimeout timeout c = c\<lparr>cl_acquireWriteLockTimeout := timeout\<rparr>"

definition SetReadLimit :: "'c client_env \<Rightarrow> int \<Rightarrow> 'c Client \<Rightarrow> 'c Client" where
  "SetReadLimit E limit c =
     c\<lparr>cl_lk := (cl_lk c)\<lparr>lk_conn := ce_SetReadLimit E limit (lk_conn (cl_lk c))\<rparr>\<rparr>"

definition SetWriteLimit :: "int \<Rightarrow> 'c Client \<Rightarrow> 'c Client" where
  "SetWriteLimit limit c = c\<lparr>cl_writeLimit := limit\<rparr>"

definition options :: "'c client_env \<Rightarrow> ('c Client \<Rightarrow> 'c Client) set" where
  "options E =
     range SetCallTimeout \<union> range SetHandler \<union> range SetReadTimeout \<union> range SetWriteTimeout
     \<union> range SetAcquireWriteLockTimeout \<union> range (SetReadLimit E) \<union> range SetWriteLimit"

definition New :: "'c \<Rightarrow> ('c Client \<Rightarrow> 'c Client) list \<Rightarrow> 'c Client" where
  "New conn opts =
     fold (\<lambda>opt c. opt c) opts
       \<lparr>cl_lk = \<lparr>lk_tokens = 1, lk_conn = conn\<rparr>, cl_callTimeout = 0, cl_handler = False,
        cl_readTimeout = 0, cl_writeTimeout = 0, cl_acquireWriteLockTimeout = 0, cl_writeLimit = 0,
        cl_stop = False, cl_results = {}, cl_err = None, cl_handled = []\<rparr>"

text \<open>\<^verbatim>\<open>Dial\<close>, over the outcome of the dialer.\<close>

definition Dial :: "'c result \<Rightarrow> ('c Client \<Rightarrow> 'c Client) list \<Rightarrow> 'c Client result" where
  "Dial dialed opts = (case dialed of Inl e \<Rightarrow> Inl e | Inr conn \<Rightarrow> Inr (New conn opts))"

section \<open>Pending calls and expiration\<close>

definition addPending :: "string \<Rightarrow> 'c Client \<Rightarrow> 'c Client" where
  "addPending key c = c\<lparr>cl_results := insert key (cl_results c)\<rparr>"

definition deletePending :: "string \<Rightarrow> 'c Client \<Rightarrow> bool \<times> 'c Client" where
  "deletePending key c = (key \<in> cl_results c, c\<lparr>cl_results := cl_results c - {key}\<rparr>)"

definition newExp :: "msg_type \<Rightarrow> uuid \<Rightarrow> call \<Rightarrow> exp" where
  "newExp t u m =
     \<lparr>exp_Meta = NewMeta t u, exp_For = msg_UUID (Call m), exp_URI = call_URI m,
      exp_Args = call_Args m\<rparr>"

text \<open>A \<^verbatim>\<open>go\<close> statement that calls the handler panics at once when it is nil.\<close>

definition go_handle :: "client_msg \<Rightarrow> 'c Client \<Rightarrow> panic + 'c Client" where
  "go_handle m c =
     (if cl_handler c then Inr (c\<lparr>cl_handled := cl_handled c @ [m]\<rparr>) else Inl nil_dereference)"

definition call_key :: "'c client_env \<Rightarrow> call \<Rightarrow> string" where
  "call_key E m = uuid_String (ce_codec E) (msg_UUID (Call m))"

text \<open>How long the goroutine of a call waits, and what it does after the wait: \<open>stopped\<close>
  is the case of its \<^verbatim>\<open>select\<close>.\<close>

definition expire_wait :: "duration \<Rightarrow> duration" where
  "expire_wait timeout = (if timeout \<le> 0 then DefaultCallTimeout else timeout)"

definition handleExpiredCall ::
  "'c client_env \<Rightarrow> uuid \<Rightarrow> bool \<Rightarrow> call \<Rightarrow> 'c Client \<Rightarrow> panic + 'c Client" where
  "handleExpiredCall E u stopped m c =
     (if stopped then Inr c
      else case deletePending (call_key E m) c of (ok, c) \<Rightarrow>
        if ok then go_handle (Expired (newExp (ce_ExpMsg E) u m)) c else Inr c)"

section \<open>Receiving\<close>

text \<open>One message of the loop.\<close>

definition handleMessage :: "'c client_env \<Rightarrow> wire \<Rightarrow> 'c Client \<Rightarrow> panic + 'c Client" where
  "handleMessage E r c =
     (case UnmarshalResponse (ce_codec E) (ce_registry E) r of
        Inl _ \<Rightarrow> Inr c
      | Inr m \<Rightarrow>
          (case m of
             Res x \<Rightarrow>
               (case deletePending (uuid_String (ce_codec E) (res_For x)) c of (ok, c) \<Rightarrow>
                  if \<not> ok then Inr c else go_handle (Received m) c)
           | Nack x \<Rightarrow>
               go_handle (Received m)
                 (if nack_ForType x = CallMsg
                  then snd (deletePending (uuid_String (ce_codec E) (nack_For x)) c) else c)
           | _ \<Rightarrow> go_handle (Received m) c))"

definition read_failed :: "err \<Rightarrow> 'c Client \<Rightarrow> 'c Client" where
  "read_failed e c =
     c\<lparr>cl_err := (case cl_err c of None \<Rightarrow> Some e | Some e' \<Rightarrow> Some e'), cl_stop := True\<rparr>"

text \<open>The loop over the messages received until \<^verbatim>\<open>NextReader\<close> fails with an error.\<close>

fun handleMessages :: "'c client_env \<Rightarrow> wire list \<Rightarrow> err \<Rightarrow> 'c Client \<Rightarrow> panic + 'c Client" where
  "handleMessages E [] e c = Inr (read_failed e c)"
| "handleMessages E (r # rs) e c =
     (case handleMessage E r c of
        Inl p \<Rightarrow> Inl p
      | Inr c' \<Rightarrow> handleMessages E rs e c')"

section \<open>Requests\<close>

definition client_writeMsg :: "'c client_env \<Rightarrow> bool \<Rightarrow> msg \<Rightarrow> 'c Client \<Rightarrow> panic + err option \<times> 'c locked" where
  "client_writeMsg E acq m c =
     writeText (ce_ws E) acq (cl_acquireWriteLockTimeout c) (cl_writeTimeout c) (cl_writeLimit c)
       (map_option (ce_text E) (encode_msg (ce_codec E) m)) (cl_lk c)"

definition client_doWrite :: "'c client_env \<Rightarrow> bool \<Rightarrow> msg \<Rightarrow> 'c Client \<Rightarrow> panic + err option \<times> 'c Client" where
  "client_doWrite E acq m c =
     (case client_writeMsg E acq m c of
        Inl p \<Rightarrow> Inl p
      | Inr (e, lk) \<Rightarrow>
          let c = c\<lparr>cl_lk := lk\<rparr> in
          Inr (e, if (e = Some ErrWriteLimitExceeded \<or> e = Some ErrWriteLockTimeout) \<and> cl_err c = None
                  then c\<lparr>cl_err := e\<rparr> else c))"

text \<open>What each request does before it writes: the check of the error, and the message.\<close>

definition Call_msg :: "uuid \<Rightarrow> string \<Rightarrow> json option \<Rightarrow> duration \<Rightarrow> 'c Client \<Rightarrow> (msg \<times> duration) result" where
  "Call_msg u uri v timeout c =
     (case cl_err c of
        Some e \<Rightarrow> Inl e
      | None \<Rightarrow>
          let timeout = (if timeout \<le> 0 then cl_callTimeout c else timeout) in
          case NewCall u uri v timeout of Inl e \<Rightarrow> Inl e | Inr m \<Rightarrow> Inr (Call m, timeout))"

definition Sub_msg :: "uuid \<Rightarrow> string \<Rightarrow> bool \<Rightarrow> 'c Client \<Rightarrow> (msg \<times> duration) result" where
  "Sub_msg u channel pattern c =
     (case cl_err c of Some e \<Rightarrow> Inl e | None \<Rightarrow> Inr (Sub (NewSub u channel pattern), 0))"

definition Unsb_msg :: "uuid \<Rightarrow> string \<Rightarrow> bool \<Rightarrow> 'c Client \<Rightarrow> (msg \<times> duration) result" where
  "Unsb_msg u channel pattern c =
     (case cl_err c of Some e \<Rightarrow> Inl e | None \<Rightarrow> Inr (Unsb (NewUnsb u channel pattern), 0))"

definition Pub_msg :: "uuid \<Rightarrow> string \<Rightarrow> json option \<Rightarrow> 'c Client \<Rightarrow> (msg \<times> duration) result" where
  "Pub_msg u channel v c =
     (case cl_err c of
        Some e \<Rightarrow> Inl e
      | None \<Rightarrow> (case NewPub u channel v of Inl e \<Rightarrow> Inl e | Inr m \<Rightarrow> Inr (Pub m, 0)))"

text \<open>What follows the write: a call is registered and its goroutine started, with the time
  it waits.\<close>

definition after_write :: "'c client_env \<Rightarrow> msg \<Rightarrow> duration \<Rightarrow> 'c Client \<Rightarrow> 'c Client \<times> (call \<times> duration) option" where
  "after_write E m timeout c =
     (case m of
        Call k \<Rightarrow> (addPending (call_key E k) c, Some (k, expire_wait timeout))
      | _ \<Rightarrow> (c, None))"

definition request ::
  "'c client_env \<Rightarrow> bool \<Rightarrow> (msg \<times> duration) result \<Rightarrow> 'c Client
     \<Rightarrow> panic + uuid result \<times> 'c Client \<times> (call \<times> duration) option" where
  "request E acq r c =
     (case r of
        Inl e \<Rightarrow> Inr (Inl e, c, None)
      | Inr (m, timeout) \<Rightarrow>
          (case client_doWrite E acq m c of
             Inl p \<Rightarrow> Inl p
           | Inr (Some e, c) \<Rightarrow> Inr (Inl e, c, None)
           | Inr (None, c) \<Rightarrow> Inr (Inr (msg_UUID m), after_write E m timeout c)))"

definition Client_Call where
  "Client_Call E acq u uri v timeout c = request E acq (Call_msg u uri v timeout c) c"

definition Client_Sub where
  "Client_Sub E acq u channel pattern c = request E acq (Sub_msg u channel pattern c) c"

definition Client_Unsb where
  "Client_Unsb E acq u channel pattern c = request E acq (Unsb_msg u channel pattern c) c"

definition Client_Pub where
  "Client_Pub E acq u channel v c = request E acq (Pub_msg u channel v c) c"

section \<open>Closing\<close>

text \<open>\<^verbatim>\<open>Close\<close> up to its wait for the end of the loop, with the error it has read and
  that of the websocket, and after the wait, with the error it returns.\<close>

definition Close_begin :: "'c client_env \<Rightarrow> 'c Client \<Rightarrow> (err option \<times> err option) \<times> 'c Client" where
  "Close_begin E c =
     (case ce_CloseConn E (lk_conn (cl_lk c)) of (err2, conn) \<Rightarrow>
        ((cl_err c, err2), c\<lparr>cl_lk := (cl_lk c)\<lparr>lk_conn := conn\<rparr>\<rparr>))"

definition Close_end :: "err option \<times> err option \<Rightarrow> 'c Client \<Rightarrow> err option \<times> 'c Client" where
  "Close_end es c =
     (case es of (err, err2) \<Rightarrow>
        if err \<noteq> None then (err, c)
        else (err2, c\<lparr>cl_err := (case err2 of None \<Rightarrow> Some (ErrText ''closed connection'') | Some e \<Rightarrow> Some e)\<rparr>))"

section \<open>Interleavings\<close>

text \<open>
  The client with its goroutines: the requests that are made and not yet written, the calls
  that are written and not yet registered, the goroutines of the registered calls, and the
  closes that wait for the loop to end. \<open>sy_calls\<close> and \<open>sy_registered\<close> are auxiliary: all
  the calls made, and the keys registered.
\<close>

record 'c client_sys =
  sy_client :: "'c Client"
  sy_new :: "(msg \<times> duration) list"
  sy_written :: "(call \<times> duration) list"
  sy_timers :: "(call \<times> duration) list"
  sy_closing :: "(err option \<times> err option) list"
  sy_calls :: "call list"
  sy_registered :: "string set"

definition start_sys :: "'c Client \<Rightarrow> 'c client_sys" where
  "start_sys c =
     \<lparr>sy_client = c, sy_new = [], sy_written = [], sy_timers = [], sy_closing = [], sy_calls = [],
      sy_registered = {}\<rparr>"

text \<open>A message that some request makes.\<close>

definition makes :: "'c Client \<Rightarrow> msg \<times> duration \<Rightarrow> bool" where
  "makes c x \<longleftrightarrow>
     (\<exists>u uri v timeout. Call_msg u uri v timeout c = Inr x)
     \<or> (\<exists>u channel pattern. Sub_msg u channel pattern c = Inr x \<or> Unsb_msg u channel pattern c = Inr x)
     \<or> (\<exists>u channel v. Pub_msg u channel v c = Inr x)"

definition msg_calls :: "msg \<Rightarrow> call list" where
  "msg_calls m = (case m of Call k \<Rightarrow> [k] | _ \<Rightarrow> [])"

inductive client_step :: "'c client_env \<Rightarrow> 'c client_sys \<Rightarrow> 'c client_sys \<Rightarrow> bool" for E where
  step_make:
    "makes (sy_client s) (m, t) \<Longrightarrow>
     client_step E s (s\<lparr>sy_new := (m, t) # sy_new s, sy_calls := msg_calls m @ sy_calls s\<rparr>)"
| step_write:
    "(m, t) \<in> set (sy_new s) \<Longrightarrow>
     can_Write acq (Exclusive (cl_acquireWriteLockTimeout (sy_client s)) (cl_writeTimeout (sy_client s)))
       (cl_lk (sy_client s)) \<Longrightarrow>
     client_doWrite E acq m (sy_client s) = Inr (e, c) \<Longrightarrow>
     client_step E s (s\<lparr>sy_client := c, sy_new := remove1 (m, t) (sy_new s),
       sy_written := (if e = None then map (\<lambda>k. (k, t)) (msg_calls m) else []) @ sy_written s\<rparr>)"
| step_register:
    "(m, t) \<in> set (sy_written s) \<Longrightarrow> after_write E (Call m) t (sy_client s) = (c, Some timer) \<Longrightarrow>
     client_step E s (s\<lparr>sy_client := c, sy_written := remove1 (m, t) (sy_written s),
       sy_timers := timer # sy_timers s, sy_registered := insert (call_key E m) (sy_registered s)\<rparr>)"
| step_receive:
    "\<not> cl_stop (sy_client s) \<Longrightarrow> handleMessage E r (sy_client s) = Inr c \<Longrightarrow>
     client_step E s (s\<lparr>sy_client := c\<rparr>)"
| step_read_failed:
    "\<not> cl_stop (sy_client s) \<Longrightarrow>
     client_step E s (s\<lparr>sy_client := read_failed e (sy_client s)\<rparr>)"
| step_timer:
    "(m, t) \<in> set (sy_timers s) \<Longrightarrow> stopped \<longrightarrow> cl_stop (sy_client s) \<Longrightarrow>
     handleExpiredCall E u stopped m (sy_client s) = Inr c \<Longrightarrow>
     client_step E s (s\<lparr>sy_client := c, sy_timers := remove1 (m, t) (sy_timers s)\<rparr>)"
| step_close_begin:
    "Close_begin E (sy_client s) = (es, c) \<Longrightarrow>
     client_step E s (s\<lparr>sy_client := c, sy_closing := es # sy_closing s\<rparr>)"
| step_close_end:
    "es \<in> set (sy_closing s) \<Longrightarrow> cl_stop (sy_client s) \<Longrightarrow> Close_end es (sy_client s) = (e, c) \<Longrightarrow>
     client_step E s (s\<lparr>sy_client := c, sy_closing := remove1 es (sy_closing s)\<rparr>)"

inductive client_run :: "'c client_env \<Rightarrow> 'c client_sys \<Rightarrow> 'c client_sys \<Rightarrow> bool" for E s where
  run_start: "client_run E s s"
| run_step: "client_run E s t \<Longrightarrow> client_step E t u \<Longrightarrow> client_run E s u"

section \<open>Lemmas\<close>

subsection \<open>Frame equations\<close>

lemma New_fresh:
  assumes "set opts \<subseteq> options E"
  shows "cl_results (New conn opts) = {} \<and> cl_handled (New conn opts) = [] \<and> cl_err (New conn opts) = None
    \<and> \<not> cl_stop (New conn opts) \<and> lk_tokens (cl_lk (New conn opts)) = 1"
proof -
  define fresh where "fresh = (\<lambda>c :: 'a Client. cl_results c = {} \<and> cl_handled c = [] \<and> cl_err c = None
    \<and> \<not> cl_stop c \<and> lk_tokens (cl_lk c) = 1)"
  have keep: "fresh (opt c)" if "opt \<in> options E" "fresh c" for opt c
    using that by (auto simp: fresh_def options_def SetCallTimeout_def SetHandler_def SetReadTimeout_def
        SetWriteTimeout_def SetAcquireWriteLockTimeout_def SetReadLimit_def SetWriteLimit_def)
  have "fresh (fold (\<lambda>opt c. opt c) opts c)" if "fresh c" for c
    using assms that by (induction opts arbitrary: c) (auto intro: keep)
  then show ?thesis by (simp add: New_def fresh_def)
qed

lemma doWrite_frame:
  assumes "client_doWrite E acq m c = Inr (e, c')"
  shows "cl_results c' = cl_results c \<and> cl_handled c' = cl_handled c \<and> cl_stop c' = cl_stop c
    \<and> cl_handler c' = cl_handler c
    \<and> cl_err c' = (if cl_err c = None \<and> (e = Some ErrWriteLimitExceeded \<or> e = Some ErrWriteLockTimeout)
                   then e else cl_err c)"
  using assms by (auto simp: client_doWrite_def Let_def split: sum.splits if_splits)

lemma doWrite_total: "\<exists>e c'. client_doWrite E acq m c = Inr (e, c')"
proof -
  obtain e lk where "client_writeMsg E acq m c = Inr (e, lk)"
    using writeText_total unfolding client_writeMsg_def by metis
  then show ?thesis by (simp add: client_doWrite_def Let_def)
qed

lemma mset_concat_remove1:
  "x \<in> set xs \<Longrightarrow> mset (concat (map f xs)) = mset (f x) + mset (concat (map f (remove1 x xs)))"
  by (induction xs) auto

subsection \<open>What the handler was told of a call\<close>

fun outcome_of :: "'c client_env \<Rightarrow> string \<Rightarrow> client_msg \<Rightarrow> bool" where
  "outcome_of E k (Received (Res x)) \<longleftrightarrow> uuid_String (ce_codec E) (res_For x) = k"
| "outcome_of E k (Expired x) \<longleftrightarrow> uuid_String (ce_codec E) (exp_For x) = k"
| "outcome_of E k _ \<longleftrightarrow> False"

fun nack_of :: "'c client_env \<Rightarrow> string \<Rightarrow> client_msg \<Rightarrow> bool" where
  "nack_of E k (Received (Nack x)) \<longleftrightarrow> nack_ForType x = CallMsg \<and> uuid_String (ce_codec E) (nack_For x) = k"
| "nack_of E k _ \<longleftrightarrow> False"

definition outcomes :: "'c client_env \<Rightarrow> string \<Rightarrow> 'c Client \<Rightarrow> nat" where
  "outcomes E k c = length (filter (outcome_of E k) (cl_handled c))"

definition nacked :: "'c client_env \<Rightarrow> string \<Rightarrow> 'c Client \<Rightarrow> bool" where
  "nacked E k c \<longleftrightarrow> (\<exists>m \<in> set (cl_handled c). nack_of E k m)"

text \<open>The bookkeeping of one key: what was told of it, given whether it was registered.\<close>

definition key_inv :: "'c client_env \<Rightarrow> string set \<Rightarrow> 'c Client \<Rightarrow> string \<Rightarrow> bool" where
  "key_inv E reg c k \<longleftrightarrow>
     (if k \<in> cl_results c then k \<in> reg \<and> outcomes E k c = 0
      else if k \<in> reg then outcomes E k c = 1 \<or> outcomes E k c = 0 \<and> nacked E k c
      else outcomes E k c = 0)"

lemma told_frame [simp]:
  "outcomes E k (c\<lparr>cl_results := R\<rparr>) = outcomes E k c"
  "nacked E k (c\<lparr>cl_results := R\<rparr>) = nacked E k c"
  "outcomes E k (c\<lparr>cl_handled := cl_handled c @ [m]\<rparr>) = outcomes E k c + of_bool (outcome_of E k m)"
  "nacked E k (c\<lparr>cl_handled := cl_handled c @ [m]\<rparr>) \<longleftrightarrow> nacked E k c \<or> nack_of E k m"
  "outcomes E k (c\<lparr>cl_results := R, cl_handled := cl_handled c @ [m]\<rparr>) = outcomes E k c + of_bool (outcome_of E k m)"
  "nacked E k (c\<lparr>cl_results := R, cl_handled := cl_handled c @ [m]\<rparr>) \<longleftrightarrow> nacked E k c \<or> nack_of E k m"
  by (simp_all add: outcomes_def nacked_def disj_commute)

lemma key_inv_frame:
  assumes "key_inv E reg c k" and "cl_results c' = cl_results c" and "cl_handled c' = cl_handled c"
  shows "key_inv E reg c' k"
proof -
  have "outcomes E k c' = outcomes E k c" "nacked E k c' = nacked E k c"
    using assms(3) by (simp_all only: outcomes_def nacked_def)
  then show ?thesis using assms(1,2) by (simp only: key_inv_def)
qed

lemma key_inv_handled:
  assumes "key_inv E reg c k" and "\<not> outcome_of E k m"
  shows "key_inv E reg (c\<lparr>cl_handled := cl_handled c @ [m]\<rparr>) k"
  using assms by (auto simp: key_inv_def split: if_splits)

lemma key_inv_settled:
  assumes "key_inv E reg c k" and "k' \<in> cl_results c" and "outcome_of E k m \<longleftrightarrow> k = k'"
  shows "key_inv E reg (c\<lparr>cl_results := cl_results c - {k'}, cl_handled := cl_handled c @ [m]\<rparr>) k"
  using assms by (auto simp: key_inv_def split: if_splits)

lemma key_inv_nack:
  assumes "key_inv E reg c k" and "\<not> outcome_of E k m" and "nack_of E k m \<longleftrightarrow> k = k'"
  shows "key_inv E reg (c\<lparr>cl_results := cl_results c - {k'}, cl_handled := cl_handled c @ [m]\<rparr>) k"
  using assms by (auto simp: key_inv_def split: if_splits)

lemma key_inv_register:
  assumes "key_inv E reg c k" and "k' \<notin> reg"
  shows "key_inv E (insert k' reg) (addPending k' c) k"
  using assms by (auto simp: key_inv_def addPending_def split: if_splits)

lemma delete_none [simp]: "k \<notin> cl_results c \<Longrightarrow> c\<lparr>cl_results := cl_results c - {k}\<rparr> = c"
  by simp

lemma key_inv_receive:
  assumes "key_inv E reg c k" and "handleMessage E r c = Inr c'"
  shows "key_inv E reg c' k"
proof (cases "UnmarshalResponse (ce_codec E) (ce_registry E) r")
  case (Inl e)
  with assms show ?thesis by (simp add: handleMessage_def)
next
  case (Inr m)
  show ?thesis
  proof (cases m)
    case (Res x)
    with assms Inr show ?thesis
      by (auto simp: handleMessage_def deletePending_def go_handle_def intro!: key_inv_settled
          split: if_splits)
  next
    case (Nack x)
    with assms Inr show ?thesis
      by (auto simp: handleMessage_def deletePending_def go_handle_def intro!: key_inv_nack key_inv_handled
          split: if_splits)
  qed (use assms Inr in \<open>auto simp: handleMessage_def go_handle_def intro!: key_inv_handled split: if_splits\<close>)
qed

lemma key_inv_expire:
  assumes "key_inv E reg c k" and "handleExpiredCall E u stopped m c = Inr c'"
  shows "key_inv E reg c' k"
  using assms
  by (auto simp: handleExpiredCall_def deletePending_def go_handle_def newExp_def call_key_def
      intro!: key_inv_settled split: if_splits)

subsection \<open>The invariant of the interleavings\<close>

definition unregistered :: "'c client_env \<Rightarrow> 'c client_sys \<Rightarrow> string multiset" where
  "unregistered E s =
     image_mset (call_key E)
       (mset (concat (map (msg_calls \<circ> fst) (sy_new s))) + mset (concat (map (\<lambda>x. [fst x]) (sy_written s))))"

text \<open>No call is in two places; a call that is pending has its goroutine; and the end of the
  loop leaves an error.\<close>

definition accounted :: "'c client_env \<Rightarrow> 'c client_sys \<Rightarrow> string \<Rightarrow> bool" where
  "accounted E s k \<longleftrightarrow>
     count (unregistered E s) k + of_bool (k \<in> sy_registered s) \<le> count (mset (map (call_key E) (sy_calls s))) k"

definition sys_inv :: "'c client_env \<Rightarrow> 'c client_sys \<Rightarrow> bool" where
  "sys_inv E s \<longleftrightarrow>
     (\<forall>k \<in> cl_results (sy_client s). \<not> cl_stop (sy_client s) \<longrightarrow> k \<in> call_key E ` fst ` set (sy_timers s))
     \<and> (cl_stop (sy_client s) \<longrightarrow> cl_err (sy_client s) \<noteq> None)"

lemma handleMessage_frame:
  assumes "handleMessage E r c = Inr c'"
  shows "cl_results c' \<subseteq> cl_results c \<and> cl_stop c' = cl_stop c \<and> cl_err c' = cl_err c \<and> cl_lk c' = cl_lk c
    \<and> cl_handler c' = cl_handler c"
  using assms by (auto simp: handleMessage_def go_handle_def deletePending_def split: sum.splits msg.splits if_splits)

lemma expire_frame:
  assumes "handleExpiredCall E u stopped m c = Inr c'"
  shows "cl_results c' = (if stopped then cl_results c else cl_results c - {call_key E m})
    \<and> cl_stop c' = cl_stop c \<and> cl_err c' = cl_err c"
  using assms by (auto simp: handleExpiredCall_def go_handle_def deletePending_def split: if_splits)

lemma timers_remove1:
  assumes "k \<in> f ` fst ` set ts" and "k \<noteq> f m"
  shows "k \<in> f ` fst ` set (remove1 (m, t) ts)"
proof -
  from assms obtain x where x: "x \<in> set ts" "k = f (fst x)" by auto
  with assms(2) have "x \<noteq> (m, t)" by auto
  with x(1) have "x \<in> set (remove1 (m, t) ts)" by simp
  with x(2) show ?thesis by blast
qed

lemma accounted_step:
  assumes "client_step E s s'" and "accounted E s k"
  shows "accounted E s' k"
  using assms(1)
proof (cases rule: client_step.cases)
  case (step_make m t)
  then have "count (unregistered E s') k = count (mset (map (call_key E) (msg_calls m))) k + count (unregistered E s) k"
    by (simp add: unregistered_def)
  then show ?thesis using assms(2) step_make(1) by (simp add: accounted_def)
next
  case (step_write m t acq e c)
  have "count (unregistered E s') k \<le> count (unregistered E s) k"
    using mset_concat_remove1 [OF step_write(2), of "msg_calls \<circ> fst"] step_write(1)
    by (cases m) (simp_all add: unregistered_def msg_calls_def)
  then show ?thesis using assms(2) step_write(1) by (simp add: accounted_def)
next
  case (step_register m t c timer)
  have "count (unregistered E s) k = count (unregistered E s') k + of_bool (k = call_key E m)"
    using mset_concat_remove1 [OF step_register(2), of "\<lambda>x. [fst x]"] step_register(1)
    by (simp add: unregistered_def)
  then show ?thesis using assms(2) step_register(1) by (simp add: accounted_def)
qed (use assms(2) in \<open>simp_all add: accounted_def unregistered_def\<close>)

lemma sys_inv_step:
  assumes "client_step E s s'" and "sys_inv E s"
  shows "sys_inv E s'"
  using assms(1)
proof (cases rule: client_step.cases)
  case (step_write m t acq e c)
  then show ?thesis using assms(2) doWrite_frame [OF step_write(4)] by (auto simp: sys_inv_def)
next
  case (step_register m t c timer)
  then show ?thesis using assms(2) by (auto simp: sys_inv_def after_write_def addPending_def)
next
  case (step_receive r c)
  then show ?thesis using assms(2) handleMessage_frame [OF step_receive(3)] by (auto simp: sys_inv_def)
next
  case (step_read_failed e)
  then show ?thesis using assms(2) by (simp add: sys_inv_def read_failed_def split: option.splits)
next
  case (step_timer m t stopped u c)
  then show ?thesis using assms(2) expire_frame [OF step_timer(4)]
    by (auto simp: sys_inv_def intro!: timers_remove1 split: if_splits)
next
  case (step_close_begin es c)
  then show ?thesis using assms(2) by (auto simp: sys_inv_def Close_begin_def split: prod.splits)
next
  case (step_close_end es e c)
  then show ?thesis using assms(2)
    by (auto simp: sys_inv_def Close_end_def split: prod.splits if_splits option.splits)
qed (use assms(2) in \<open>simp add: sys_inv_def\<close>)

lemma of_bool_excluded: "n \<noteq> 0 \<Longrightarrow> c \<le> 1 \<Longrightarrow> n + of_bool P \<le> (c :: nat) \<Longrightarrow> \<not> P"
  by auto

lemma key_inv_step:
  assumes "client_step E s s'" and "\<And>k. accounted E s k" and "distinct (map (call_key E) (sy_calls s))"
    and "key_inv E (sy_registered s) (sy_client s) k"
  shows "key_inv E (sy_registered s') (sy_client s') k"
  using assms(1)
proof (cases rule: client_step.cases)
  case (step_write m t acq e c)
  have "key_inv E (sy_registered s) (c) k"
    by (rule key_inv_frame [OF assms(4)]) (use doWrite_frame [OF step_write(4)] in simp_all)
  then show ?thesis using step_write(1) by simp
next
  case (step_register m t c timer)
  have "call_key E m \<in># unregistered E s"
    using mset_concat_remove1 [OF step_register(2), of "\<lambda>x. [fst x]"] by (simp add: unregistered_def)
  then have "count (unregistered E s) (call_key E m) \<noteq> 0" by (simp add: count_eq_zero_iff)
  moreover have "count (mset (map (call_key E) (sy_calls s))) (call_key E m) \<le> 1"
    using assms(3) unfolding distinct_count_atmost_1 by (simp del: mset_map)
  ultimately have "call_key E m \<notin> sy_registered s"
    using assms(2) [of "call_key E m"] unfolding accounted_def by (rule of_bool_excluded)
  moreover have "c = addPending (call_key E m) (sy_client s)"
    using step_register(3) by (simp add: after_write_def)
  ultimately show ?thesis using step_register(1) key_inv_register [OF assms(4), of "call_key E m"] by simp
next
  case (step_receive r c)
  then show ?thesis using key_inv_receive [OF assms(4) step_receive(3)] by simp
next
  case (step_read_failed e)
  have "key_inv E (sy_registered s) (read_failed e (sy_client s)) k"
    by (rule key_inv_frame [OF assms(4)]) (simp_all add: read_failed_def)
  then show ?thesis using step_read_failed(1) by simp
next
  case (step_timer m t stopped u c)
  then show ?thesis using key_inv_expire [OF assms(4) step_timer(4)] by simp
next
  case (step_close_begin es c)
  have "key_inv E (sy_registered s) (c) k"
    by (rule key_inv_frame [OF assms(4)]) (use step_close_begin(2) in \<open>auto simp: Close_begin_def split: prod.splits\<close>)
  then show ?thesis using step_close_begin(1) by simp
next
  case (step_close_end es e c)
  have "key_inv E (sy_registered s) (c) k"
    by (rule key_inv_frame [OF assms(4)]) (use step_close_end(4) in \<open>auto simp: Close_end_def split: prod.splits if_splits\<close>)
  then show ?thesis using step_close_end(1) by simp
qed (use assms(4) in simp)

lemma calls_step:
  assumes "client_step E s s'"
  shows "\<exists>new. sy_calls s' = new @ sy_calls s"
  using assms by cases auto

lemma run_inv:
  assumes "client_run E (start_sys (New conn opts)) s" and "set opts \<subseteq> options E"
    and "distinct (map (call_key E) (sy_calls s))"
  shows "sys_inv E s \<and> (\<forall>k. accounted E s k \<and> key_inv E (sy_registered s) (sy_client s) k)"
  using assms(1,3)
proof (induction rule: client_run.induct)
  case run_start
  then show ?case using New_fresh [OF assms(2), of conn]
    by (simp add: sys_inv_def key_inv_def start_sys_def accounted_def unregistered_def outcomes_def)
next
  case (run_step t u)
  then have d: "distinct (map (call_key E) (sy_calls t))" using calls_step [OF run_step(2)] by auto
  with run_step.IH have IH: "sys_inv E t" "accounted E t k" "key_inv E (sy_registered t) (sy_client t) k" for k
    by blast+
  then show ?case
    using sys_inv_step [OF run_step(2)] accounted_step [OF run_step(2)] key_inv_step [OF run_step(2) _ d]
    by blast
qed

lemma run_sys_inv:
  assumes "client_run E (start_sys (New conn opts)) s" and "set opts \<subseteq> options E"
  shows "sys_inv E s"
  using assms(1)
proof (induction rule: client_run.induct)
  case run_start
  then show ?case using New_fresh [OF assms(2), of conn] by (simp add: sys_inv_def start_sys_def)
qed (rule sys_inv_step)

lemma err_step:
  assumes "client_step E s s'" and "cl_err (sy_client s) \<noteq> None"
  shows "cl_err (sy_client s') \<noteq> None"
  using assms(1)
proof (cases rule: client_step.cases)
  case (step_write m t acq e c)
  have "cl_err c \<noteq> None" using assms(2) doWrite_frame [OF step_write(4)] by presburger
  then show ?thesis using step_write(1) by simp
next
  case (step_register m t c timer)
  then show ?thesis using assms(2) by (auto simp: after_write_def addPending_def)
next
  case (step_receive r c)
  then show ?thesis using assms(2) handleMessage_frame [OF step_receive(3)] by simp
next
  case (step_read_failed e)
  have "cl_err (read_failed e (sy_client s)) \<noteq> None" by (simp add: read_failed_def split: option.splits)
  then show ?thesis using step_read_failed(1) by simp
next
  case (step_timer m t stopped u c)
  then show ?thesis using assms(2) expire_frame [OF step_timer(4)] by simp
next
  case (step_close_begin es c)
  then show ?thesis using assms(2) by (auto simp: Close_begin_def split: prod.splits)
next
  case (step_close_end es e c)
  have "cl_err c \<noteq> None"
    using assms(2) step_close_end(4) by (auto simp: Close_end_def split: prod.splits if_splits option.splits)
  then show ?thesis using step_close_end(1) by simp
qed (use assms(2) in simp)

subsection \<open>The loop that receives\<close>

definition decoded :: "'c client_env \<Rightarrow> wire list \<Rightarrow> msg list" where
  "decoded E rs =
     concat (map (\<lambda>r. case UnmarshalResponse (ce_codec E) (ce_registry E) r of Inl _ \<Rightarrow> [] | Inr m \<Rightarrow> [m]) rs)"

fun is_Res :: "msg \<Rightarrow> bool" where
  "is_Res (Res _) = True"
| "is_Res _ = False"

text \<open>What one message adds to what the handler was given.\<close>

lemma handleMessage_delivers:
  assumes "cl_handler c"
  shows "\<exists>c' ms. handleMessage E r c = Inr c' \<and> cl_handled c' = cl_handled c @ map Received ms
    \<and> subseq ms (decoded E [r]) \<and> filter (\<lambda>m. \<not> is_Res m) ms = filter (\<lambda>m. \<not> is_Res m) (decoded E [r])"
proof (cases "UnmarshalResponse (ce_codec E) (ce_registry E) r")
  case (Inl e)
  then show ?thesis by (intro exI [of _ c] exI [of _ "[]"]) (simp add: handleMessage_def decoded_def)
next
  case (Inr m)
  show ?thesis
  proof (cases "is_Res m \<and> (\<forall>x. m = Res x \<longrightarrow> uuid_String (ce_codec E) (res_For x) \<notin> cl_results c)")
    case True
    then obtain x where "m = Res x" by (cases m) auto
    with True Inr show ?thesis
      by (intro exI [of _ c] exI [of _ "[]"]) (simp add: handleMessage_def decoded_def deletePending_def)
  next
    case False
    with Inr assms obtain c' where "handleMessage E r c = Inr c'" "cl_handled c' = cl_handled c @ [Received m]"
      by (cases m; cases "\<exists>x. m = Nack x \<and> nack_ForType x = CallMsg")
        (simp_all add: handleMessage_def deletePending_def go_handle_def)
    moreover have "decoded E [r] = [m]" using Inr by (simp add: decoded_def)
    ultimately show ?thesis by (intro exI [of _ c'] exI [of _ "[m]"]) simp
  qed
qed

lemma handleMessages_delivers:
  assumes "cl_handler c"
  shows "\<exists>c' ms. handleMessages E rs e c = Inr c' \<and> cl_stop c' \<and> cl_err c' \<noteq> None
    \<and> cl_handled c' = cl_handled c @ map Received ms \<and> subseq ms (decoded E rs)
    \<and> filter (\<lambda>m. \<not> is_Res m) ms = filter (\<lambda>m. \<not> is_Res m) (decoded E rs)"
  using assms
proof (induction rs arbitrary: c)
  case Nil
  show ?case by (auto simp: read_failed_def decoded_def split: option.splits)
next
  case (Cons r rs)
  obtain c1 ms where 1: "handleMessage E r c = Inr c1" "cl_handled c1 = cl_handled c @ map Received ms"
    "subseq ms (decoded E [r])" "filter (\<lambda>m. \<not> is_Res m) ms = filter (\<lambda>m. \<not> is_Res m) (decoded E [r])"
    using handleMessage_delivers [OF Cons.prems] by blast
  then have "cl_handler c1" using Cons.prems handleMessage_frame [OF 1(1)] by simp
  then obtain c2 ms2 where 2: "handleMessages E rs e c1 = Inr c2" "cl_stop c2" "cl_err c2 \<noteq> None"
    "cl_handled c2 = cl_handled c1 @ map Received ms2" "subseq ms2 (decoded E rs)"
    "filter (\<lambda>m. \<not> is_Res m) ms2 = filter (\<lambda>m. \<not> is_Res m) (decoded E rs)"
    using Cons.IH by blast
  have "decoded E (r # rs) = decoded E [r] @ decoded E rs" by (simp add: decoded_def)
  with 1 2 show ?case
    by (intro exI [of _ c2] exI [of _ "ms @ ms2"]) (simp add: list_emb_append_mono)
qed

section \<open>Properties\<close>

text \<open>
  C30. A call is settled once: in every interleaving, when the calls have different UUIDs, the
  handler is given for each call at most one of its result and its expiration, and neither
  before the call is registered; a registered call that is not pending any more was settled or
  refused by a NACK; and a call that is still pending while the client runs has its goroutine,
  whose expiration then settles it, so that not both and not none are given.
\<close>

theorem call_settled_once:
  assumes run: "client_run E (start_sys (New conn opts)) s" and opts: "set opts \<subseteq> options E"
    and uuids: "distinct (map (call_key E) (sy_calls s))"
  shows "outcomes E k (sy_client s) \<le> 1
    \<and> (k \<notin> sy_registered s \<longrightarrow> outcomes E k (sy_client s) = 0)
    \<and> (k \<in> sy_registered s \<longrightarrow> k \<notin> cl_results (sy_client s) \<longrightarrow>
         outcomes E k (sy_client s) = 1 \<or> nacked E k (sy_client s))
    \<and> (k \<in> cl_results (sy_client s) \<longrightarrow> \<not> cl_stop (sy_client s) \<longrightarrow> cl_handler (sy_client s) \<longrightarrow>
         outcomes E k (sy_client s) = 0
         \<and> (\<exists>s'. client_step E s s' \<and> outcomes E k (sy_client s') = 1
              \<and> length (sy_timers s') < length (sy_timers s)))"
proof -
  let ?c = "sy_client s"
  have inv: "sys_inv E s" "key_inv E (sy_registered s) ?c k" using run_inv [OF assms] by auto
  have "\<exists>s'. client_step E s s' \<and> outcomes E k (sy_client s') = 1 \<and> length (sy_timers s') < length (sy_timers s)"
    if "k \<in> cl_results ?c" "\<not> cl_stop ?c" "cl_handler ?c" "outcomes E k ?c = 0"
  proof -
    from inv(1) that obtain m t where m: "(m, t) \<in> set (sy_timers s)" "k = call_key E m"
      by (force simp: sys_inv_def)
    define c where "c = ?c\<lparr>cl_results := cl_results ?c - {k}, cl_handled := cl_handled ?c @ [Expired (newExp (ce_ExpMsg E) [] m)]\<rparr>"
    have "handleExpiredCall E [] False m ?c = Inr c"
      using that m by (simp add: handleExpiredCall_def deletePending_def go_handle_def c_def)
    from step_timer [OF m(1) _ this] have "client_step E s (s\<lparr>sy_client := c, sy_timers := remove1 (m, t) (sy_timers s)\<rparr>)"
      by simp
    moreover have "outcomes E k c = 1"
      using that(4) m(2) by (simp add: c_def newExp_def call_key_def)
    moreover have "length (remove1 (m, t) (sy_timers s)) < length (sy_timers s)"
      using m(1) length_pos_if_in_set [OF m(1)] by (simp add: length_remove1)
    ultimately show ?thesis by fastforce
  qed
  with inv(2) show ?thesis by (auto simp: key_inv_def split: if_splits)
qed

definition example_env :: "string list client_env" where
  "example_env =
     \<lparr>ce_codec = example_codec, ce_text = (\<lambda>_. ''text''), ce_ws = example_websocket,
      ce_SetReadLimit = (\<lambda>_ c. c), ce_CloseConn = (\<lambda>c. (None, c)), ce_registry = init_registry,
      ce_ExpMsg = 256\<rparr>"

definition example_client :: "string list Client" where
  "example_client = New [] [SetHandler True]"

lemma example_options: "set [SetHandler True] \<subseteq> options example_env"
  by (auto simp: options_def)

lemma example_makes: "makes example_client (Call example_call, Second)"
proof -
  have "Call_msg example_uuid ''test.echo'' (call_Args example_call) Second example_client
      = Inr (Call example_call, Second)"
    by (simp add: Call_msg_def example_client_def New_def SetHandler_def NewCall_def example_call_def
        Second_def Millisecond_def Let_def)
  then show ?thesis by (auto simp: makes_def)
qed

lemma example_writes:
  assumes "encode_msg example_codec m \<noteq> None"
  shows "\<exists>c. client_doWrite example_env True m example_client = Inr (None, c)"
proof -
  obtain j where "encode_msg example_codec m = Some j" using assms by blast
  then show ?thesis
    by (simp add: client_doWrite_def client_writeMsg_def writeText_def encoder_Write_def
        exclusiveWriter_Write_def inner_Write_def exclusiveWriter_Close_def Exclusive_def
        example_env_def example_client_def example_websocket_def New_def SetHandler_def Let_def)
qed

lemma example_write:
  "\<exists>c. client_doWrite example_env True (Call example_call) example_client = Inr (None, c)"
  by (rule example_writes) (simp add: encode_msg_def encode_payload_def example_call_def encode_raw_def)

text \<open>A run up to a call that is written, and on to its registration.\<close>

lemma example_written:
  "\<exists>s. client_run example_env (start_sys example_client) s \<and> sy_written s = [(example_call, Second)]
     \<and> sy_calls s = [example_call] \<and> cl_handler (sy_client s) \<and> \<not> cl_stop (sy_client s)
     \<and> cl_results (sy_client s) = {} \<and> cl_handled (sy_client s) = []"
proof -
  obtain c where c: "client_doWrite example_env True (Call example_call) example_client = Inr (None, c)"
    using example_write by blast
  let ?s0 = "start_sys example_client"
  let ?s1 = "?s0\<lparr>sy_new := (Call example_call, Second) # sy_new ?s0,
    sy_calls := msg_calls (Call example_call) @ sy_calls ?s0\<rparr>"
  let ?s2 = "?s1\<lparr>sy_client := c, sy_new := remove1 (Call example_call, Second) (sy_new ?s1),
    sy_written := (if (None :: err option) = None then map (\<lambda>k. (k, Second)) (msg_calls (Call example_call)) else []) @ sy_written ?s1\<rparr>"
  have "client_step example_env ?s0 ?s1"
    by (rule step_make) (simp add: start_sys_def example_makes)
  moreover have "client_step example_env ?s1 ?s2"
    by (rule step_write [where acq = True]) (use c in \<open>simp_all add: start_sys_def can_Write_def example_client_def New_def SetHandler_def\<close>)
  ultimately have "client_run example_env ?s0 ?s2" by (blast intro: run_start run_step)
  moreover have "cl_handler c \<and> \<not> cl_stop c \<and> cl_results c = {} \<and> cl_handled c = []"
    using doWrite_frame [OF c] by (simp add: example_client_def New_def SetHandler_def)
  ultimately show ?thesis by (intro exI [of _ ?s2]) (simp add: start_sys_def msg_calls_def)
qed

lemma example_registered:
  "\<exists>s. client_run example_env (start_sys example_client) s \<and> sy_calls s = [example_call]
     \<and> cl_handler (sy_client s) \<and> \<not> cl_stop (sy_client s)
     \<and> call_key example_env example_call \<in> cl_results (sy_client s)"
proof -
  obtain s where s: "client_run example_env (start_sys example_client) s" "sy_written s = [(example_call, Second)]"
    "sy_calls s = [example_call]" "cl_handler (sy_client s)" "\<not> cl_stop (sy_client s)"
    using example_written by blast
  have "client_step example_env s (s\<lparr>sy_client := addPending (call_key example_env example_call) (sy_client s),
      sy_written := remove1 (example_call, Second) (sy_written s),
      sy_timers := (example_call, expire_wait Second) # sy_timers s,
      sy_registered := insert (call_key example_env example_call) (sy_registered s)\<rparr>)"
    by (rule step_register) (simp_all add: s after_write_def)
  from run_step [OF s(1) this] s show ?thesis by (fastforce simp: addPending_def)
qed

theorem call_settled_once_witness:
  "\<exists>s s'. client_run example_env (start_sys example_client) s
     \<and> client_step example_env s s'
     \<and> outcomes example_env (call_key example_env example_call) (sy_client s) = 0
     \<and> outcomes example_env (call_key example_env example_call) (sy_client s') = 1"
proof -
  obtain s where s: "client_run example_env (start_sys example_client) s" "sy_calls s = [example_call]"
    "cl_handler (sy_client s)" "\<not> cl_stop (sy_client s)"
    "call_key example_env example_call \<in> cl_results (sy_client s)"
    using example_registered by blast
  then have "distinct (map (call_key example_env) (sy_calls s))" by simp
  from call_settled_once [OF s(1) [unfolded example_client_def] example_options this,
      of "call_key example_env example_call"] s
  show ?thesis by blast
qed

text \<open>
  C31. A result that comes too early is lost: a call is registered only after it is written, and
  a result received between the two is dropped as if the call had expired; when the call is
  registered it can then only expire, so that the handler is given an expiration for a call
  whose result was received in time.
\<close>

theorem early_result_dropped:
  assumes run: "client_run E (start_sys (New conn opts)) s" and opts: "set opts \<subseteq> options E"
    and uuids: "distinct (map (call_key E) (sy_calls s))"
    and written: "(m, t) \<in> set (sy_written s)" and handler: "cl_handler (sy_client s)"
    and res: "UnmarshalResponse (ce_codec E) (ce_registry E) r = Inr (Res x)" "res_For x = msg_UUID (Call m)"
  shows "handleMessage E r (sy_client s) = Inr (sy_client s)
    \<and> (\<exists>s'. client_run E s s'
         \<and> cl_handled (sy_client s') = cl_handled (sy_client s) @ [Expired (newExp (ce_ExpMsg E) u m)]
         \<and> cl_results (sy_client s') = cl_results (sy_client s))"
proof -
  let ?k = "call_key E m" and ?c = "sy_client s"
  have inv: "accounted E s ?k" "key_inv E (sy_registered s) ?c ?k" using run_inv [OF run opts uuids] by auto
  have "?k \<in># unregistered E s"
    using mset_concat_remove1 [OF written, of "\<lambda>x. [fst x]"] by (simp add: unregistered_def)
  then have "count (unregistered E s) ?k \<noteq> 0" by (simp add: count_eq_zero_iff)
  moreover have "count (mset (map (call_key E) (sy_calls s))) ?k \<le> 1"
    using uuids unfolding distinct_count_atmost_1 by (simp del: mset_map)
  ultimately have "?k \<notin> sy_registered s"
    using inv(1) unfolding accounted_def by (rule of_bool_excluded)
  with inv(2) have k: "?k \<notin> cl_results ?c" by (auto simp: key_inv_def split: if_splits)
  then have drop: "handleMessage E r ?c = Inr ?c"
    using res by (simp add: handleMessage_def deletePending_def call_key_def)
  define s1 where "s1 = s\<lparr>sy_client := addPending ?k ?c, sy_written := remove1 (m, t) (sy_written s),
    sy_timers := (m, expire_wait t) # sy_timers s, sy_registered := insert ?k (sy_registered s)\<rparr>"
  define c where "c = ?c\<lparr>cl_results := cl_results ?c, cl_handled := cl_handled ?c @ [Expired (newExp (ce_ExpMsg E) u m)]\<rparr>"
  have "client_step E s s1"
    unfolding s1_def by (rule step_register [OF written]) (simp add: after_write_def)
  moreover have "client_step E s1 (s1\<lparr>sy_client := c, sy_timers := remove1 (m, expire_wait t) (sy_timers s1)\<rparr>)"
    by (rule step_timer [where stopped = False and u = u])
      (use handler k in \<open>simp_all add: s1_def c_def handleExpiredCall_def deletePending_def go_handle_def addPending_def\<close>)
  ultimately have "client_run E s (s1\<lparr>sy_client := c, sy_timers := remove1 (m, expire_wait t) (sy_timers s1)\<rparr>)"
    by (blast intro: run_start run_step)
  with drop show ?thesis by (fastforce simp: c_def)
qed

definition example_res :: res where
  "example_res =
     \<lparr>res_Meta = NewMeta ResMsg example_uuid, res_For = example_uuid, res_URI = ''test.echo'',
      res_Args = Some JNull\<rparr>"

lemma example_res_decodes:
  "\<exists>j x. UnmarshalResponse example_codec init_registry (Some j) = Inr (Res x) \<and> res_For x = example_uuid"
proof -
  obtain j where j: "encode_msg example_codec (Res example_res) = Some j"
    by (simp add: encode_msg_def encode_payload_def example_res_def encode_raw_def)
  have wf: "wf_msg (Res example_res)"
    by (simp add: example_res_def wf_meta_def NewMeta_def wf_uuid_def example_uuid_def valid_utf8_def
        to_valid_utf8_ascii)
  have "UnmarshalResponse example_codec init_registry (Some j) = Inr (as_sent (Res example_res))"
    using unmarshalIf_encode [OF uuid_roundtrips_example wf j, of init_registry]
    by (simp add: UnmarshalResponse_def msg_Type_def example_res_def NewMeta_def)
  moreover obtain x where "as_sent (Res example_res) = Res x" "res_For x = example_uuid"
    by (simp add: example_res_def)
  ultimately show ?thesis by (intro exI [of _ j] exI [of _ x]) simp
qed

theorem early_result_dropped_witness:
  "\<exists>s r s'. handleMessage example_env r (sy_client s) = Inr (sy_client s)
     \<and> client_run example_env s s'
     \<and> cl_handled (sy_client s') = [Expired (newExp 256 example_uuid example_call)]"
proof -
  obtain s where s: "client_run example_env (start_sys (New [] [SetHandler True])) s"
    "(example_call, Second) \<in> set (sy_written s)" "distinct (map (call_key example_env) (sy_calls s))"
    "cl_handler (sy_client s)" "cl_handled (sy_client s) = []"
    using example_written unfolding example_client_def by fastforce
  obtain j x where x: "UnmarshalResponse (ce_codec example_env) (ce_registry example_env) (Some j) = Inr (Res x)"
    "res_For x = msg_UUID (Call example_call)"
    using example_res_decodes
    by (fastforce simp: example_env_def msg_UUID_def example_call_def NewMeta_def)
  from early_result_dropped [OF s(1) example_options s(3,2,4) x, of example_uuid] s(5)
  show ?thesis by (auto simp: example_env_def)
qed

text \<open>
  C32. A failed client stays failed: in every interleaving the error of the client is set once
  its loop has ended, no step unsets it, and the end of a close sets it; while it is set, each
  request returns it and neither writes nor registers anything, and no request ever panics.
\<close>

theorem client_failed:
  assumes "client_run E (start_sys (New conn opts)) s" and "set opts \<subseteq> options E"
  shows "(cl_stop (sy_client s) \<longrightarrow> cl_err (sy_client s) \<noteq> None)
    \<and> (\<forall>s'. client_step E s s' \<longrightarrow> cl_err (sy_client s) \<noteq> None \<longrightarrow> cl_err (sy_client s') \<noteq> None)
    \<and> (\<forall>e err2. snd (Close_end (e, err2) (sy_client s)) = sy_client s \<and> e \<noteq> None
         \<or> cl_err (snd (Close_end (e, err2) (sy_client s))) \<noteq> None)
    \<and> (\<forall>e acq u uri v t. cl_err (sy_client s) = Some e \<longrightarrow>
         Client_Call E acq u uri v t (sy_client s) = Inr (Inl e, sy_client s, None)
         \<and> Client_Pub E acq u uri v (sy_client s) = Inr (Inl e, sy_client s, None))
    \<and> (\<forall>e acq u channel pattern. cl_err (sy_client s) = Some e \<longrightarrow>
         Client_Sub E acq u channel pattern (sy_client s) = Inr (Inl e, sy_client s, None)
         \<and> Client_Unsb E acq u channel pattern (sy_client s) = Inr (Inl e, sy_client s, None))
    \<and> (\<forall>acq r. \<exists>x. request E acq r (sy_client s) = Inr x)"
proof -
  have "\<exists>x. request E acq r (sy_client s) = Inr x" for acq r
  proof (cases r)
    case (Inr x)
    obtain e c' where "client_doWrite E acq (fst x) (sy_client s) = Inr (e, c')" using doWrite_total by blast
    with Inr show ?thesis by (cases x; cases e) (simp_all add: request_def)
  qed (simp add: request_def)
  moreover have "cl_stop (sy_client s) \<longrightarrow> cl_err (sy_client s) \<noteq> None"
    using run_sys_inv [OF assms] by (simp add: sys_inv_def)
  ultimately show ?thesis
    using err_step [of E s]
    by (simp add: Close_end_def Client_Call_def Client_Pub_def Client_Sub_def Client_Unsb_def Call_msg_def
        Pub_msg_def Sub_msg_def Unsb_msg_def request_def split: option.splits)
qed

theorem client_failed_witness:
  "\<exists>s. client_run example_env (start_sys (New [] [SetHandler True])) s
     \<and> Client_Sub example_env True example_uuid ''c'' False (sy_client s)
         = Inr (Inl (ErrText ''EOF''), sy_client s, None)"
proof -
  let ?c = "New [] [SetHandler True] :: string list Client"
  let ?s = "(start_sys ?c)\<lparr>sy_client := read_failed (ErrText ''EOF'') (sy_client (start_sys ?c))\<rparr>"
  have "client_step example_env (start_sys ?c) ?s"
    by (rule step_read_failed) (simp add: start_sys_def New_def SetHandler_def)
  then have run: "client_run example_env (start_sys ?c) ?s" by (blast intro: run_start run_step)
  moreover have "cl_err (sy_client ?s) = Some (ErrText ''EOF'')"
    by (simp add: read_failed_def start_sys_def New_def SetHandler_def)
  ultimately show ?thesis using client_failed [OF run example_options] by blast
qed



text \<open>
  The expiration of a call carries the type that is registered for it, which is neither a
  type to read nor one to write, is shown as EXP, and is that of no message received from a
  peer; and it names the call by UUID, URI and arguments. The registration succeeds on every
  well-formed registry in which the name is free.
\<close>

theorem exp_of_call:
  assumes "wf_registry reg" and "nextCustomMsg reg < 2 ^ 63 - 1"
    and "''EXP'' \<notin> snd ` set (lookupType reg)"
  shows "\<exists>t reg'. Register ''EXP'' reg = Inr (t, reg') \<and> wf_registry reg'
    \<and> \<not> IsRead t \<and> \<not> IsWrite t \<and> Type_String reg' t = ''EXP''
    \<and> (\<forall>C r m. UnmarshalResponse C reg' r = Inr m \<longrightarrow> msg_Type m \<noteq> t)
    \<and> (\<forall>C r allowed m. UnmarshalRequest C reg' r allowed = Inr m \<longrightarrow> msg_Type m \<noteq> t)
    \<and> (\<forall>u m. meta_T (exp_Meta (newExp t u m)) = t \<and> exp_For (newExp t u m) = msg_UUID (Call m)
         \<and> exp_URI (newExp t u m) = call_URI m \<and> exp_Args (newExp t u m) = call_Args m)"
proof -
  obtain t reg' where t: "Register ''EXP'' reg = Inr (t, reg')" "t = nextCustomMsg reg"
    using assms(3) by (simp add: Register_def Let_def)
  have wf: "wf_registry reg'" using wf_Register [OF assms(1,2) t(1)] .
  have std: "\<not> IsRead t \<and> \<not> IsWrite t"
    using assms(1) t(2) by (auto simp: wf_registry_def IsRead_def IsWrite_def msg_type_defs)
  have resp: "msg_Type m \<noteq> t" if "UnmarshalResponse C reg' r = Inr m" for C r m
    using unmarshalIf_Inr(2) [OF that [unfolded UnmarshalResponse_def]] std
    by (auto simp: IsWrite_def msg_type_defs)
  have req: "msg_Type m \<noteq> t" if "UnmarshalRequest C reg' r allowed = Inr m" for C r allowed m
    using UnmarshalRequest_Inr(2) [OF that] std
    by (auto simp: allReqMsgs_def IsRead_def msg_type_defs split: if_splits)
  have "Type_String reg' t = ''EXP''"
    using t assms(3) by (auto simp: Register_def Let_def Type_String_def split: if_splits)
  with t(1) wf std resp req show ?thesis by (auto simp: newExp_def NewMeta_def)
qed

theorem exp_of_call_witness:
  "\<exists>reg'. Register ''EXP'' init_registry = Inr (256, reg') \<and> Type_String reg' 256 = ''EXP''"
proof -
  have n: "nextCustomMsg init_registry < 2 ^ 63 - 1" "''EXP'' \<notin> snd ` set (lookupType init_registry)"
    by (simp_all add: init_registry_def msg_type_defs)
  from exp_of_call [OF wf_init_registry n] show ?thesis
    by (auto simp: Register_def init_registry_def msg_type_defs Let_def)
qed

end
