(* ===== verification/Rpc.thy ===== *)
theory Rpc
  imports Broker_Conns Server Callee Client
begin

text \<open>
  The path of a call through the whole system: the client writes it, the server decodes it and
  registers it with the redis broker, a callee reads it, runs it and stores its result, the
  results connection of the server reads that, the server writes the result and the client
  hands it to its handler. \<open>callee_once\<close> and \<open>results_once\<close> are one turn of the two loops
  that poll redis, on one queue.
\<close>

section \<open>One turn of the loops\<close>

definition callee_once ::
  "codec \<Rightarrow> 'r rconn \<Rightarrow> 'r redis \<Rightarrow> Broker \<Rightarrow> int \<Rightarrow> Thunk \<Rightarrow> string \<Rightarrow> 'r \<Rightarrow> err option option \<times> 'r" where
  "callee_once C pool R b now fn uri r =
     (case brpop R (callKey uri) r of
        (None, r) \<Rightarrow> (None, r)
      | (Some v, r) \<Rightarrow>
          (case sendCall C pool NoFault now v None r of
             (None, _, r) \<Rightarrow> (None, r)
           | (Some cp, _, r) \<Rightarrow> map_prod Some id (InvokeAndStoreResult (Broker_Result C pool b NoFault) cp fn r)))"

definition results_once ::
  "codec \<Rightarrow> 'r rconn \<Rightarrow> 'r redis \<Rightarrow> uuid \<Rightarrow> 'r \<Rightarrow> resPayload option \<times> 'r" where
  "results_once C pool R u r =
     (case brpop R (resKey (uuid_String C u)) r of
        (None, r) \<Rightarrow> (None, r)
      | (Some v, r) \<Rightarrow> (case sendResult C pool NoFault v None r of (rp, _, r) \<Rightarrow> (rp, r)))"

section \<open>Lemmas: the queues\<close>

lemma brpop_PTTL:
  assumes laws: "redis_laws R" and pop: "brpop R k r = (x, r')" and ne: "k' \<noteq> k"
  shows "rd_PTTL R k' r' = rd_PTTL R k' r"
proof (cases "rd_LRANGE R k r = []")
  case True
  then show ?thesis using BRPOP_none [OF laws, of "[k]" r] pop by (simp add: brpop_def)
next
  case False
  then have "filter (\<lambda>k. rd_LRANGE R k r \<noteq> []) [k] = [k]" by simp
  from BRPOP_some [OF laws this] obtain r1 y where "rd_BRPOP R [k] r = (y, r1)" "same_key R k' r r1"
    using ne by metis
  then show ?thesis using pop by (simp add: brpop_def same_key_def)
qed

lemma call_registered:
  assumes inv: "broker_invar slot pool R r" and ok: "keys_ok pool (cp_URI cp)"
    and none: "call_queue R r (cp_URI cp) = []" and t: "0 < timeout_ms t"
  obtains r1 where "Broker_Call C pool b NoFault cp t r = (None, r1)" "broker_invar slot pool R r1"
    "call_queue R r1 (cp_URI cp) = [Some (encode_callPayload C cp)]" "res_queue R r1 = res_queue R r"
    "rd_PTTL R (callTimeoutKey (cp_URI cp) (uuid_String C (cp_MsgUUID cp))) r1 = timeout_ms t"
proof -
  obtain e r1 where call: "Broker_Call C pool b NoFault cp t r = (e, r1)" by fastforce
  note out = register_outcome [OF inv list_key_simps(1) not_list_key(1)
      clusterify_call [OF broker_invarD(2,3) [OF inv] ok] call [unfolded Broker_Call_def]]
  have e: "e = None" using out(1) t none by (simp add: call_queue_def) linarith
  have "registered R (callKey (cp_URI cp)) (Some (encode_callPayload C cp)) (CallCap b) True r r1"
    using Call_effect(3) [OF inv ok call] e by auto
  then have "call_queue R r1 (cp_URI cp) = [Some (encode_callPayload C cp)]"
    using none by (simp add: registered_def call_queue_def)
  then show thesis
    using that [OF call [unfolded e] Call_effect(1) [OF inv ok call] _ Call_effect(2) [OF inv ok call]] out(2) e by blast
qed

lemma result_registered:
  assumes inv: "broker_invar slot pool R r" and ok: "keys_ok pool (uuid_String C (rp_ConnUUID rp))"
    and none: "res_queue R r (uuid_String C (rp_ConnUUID rp)) = []" and t: "0 < timeout_ms t"
  obtains r1 where "Broker_Result C pool b NoFault rp t r = (None, r1)" "broker_invar slot pool R r1"
    "res_queue R r1 (uuid_String C (rp_ConnUUID rp)) = [Some (encode_resPayload C rp)]"
    "rd_PTTL R (resTimeoutKey (uuid_String C (rp_ConnUUID rp)) (uuid_String C (rp_MsgUUID rp))) r1 = timeout_ms t"
proof -
  obtain e r1 where res: "Broker_Result C pool b NoFault rp t r = (e, r1)" by fastforce
  note out = register_outcome [OF inv list_key_simps(2) not_list_key(2)
      clusterify_res [OF broker_invarD(2,3) [OF inv] ok] res [unfolded Broker_Result_def]]
  have e: "e = None" using out(1) t none by (simp add: res_queue_def) linarith
  have "registered R (resKey (uuid_String C (rp_ConnUUID rp))) (Some (encode_resPayload C rp)) (ResultCap b) True r r1"
    using Result_effect(3) [OF inv ok res] e by auto
  then have "res_queue R r1 (uuid_String C (rp_ConnUUID rp)) = [Some (encode_resPayload C rp)]"
    using none by (simp add: registered_def res_queue_def)
  then show thesis
    using that [OF res [unfolded e] Result_effect(1) [OF inv ok res]] out(2) e by blast
qed

text \<open>What the time and a pop leave of the expiring key, and what reading it leaves of the
  queues.\<close>

lemma PTTL_at_pop:
  assumes inv: "broker_invar slot pool R r" and d: "0 \<le> d" "d < rd_PTTL R k r" and ne: "k \<noteq> q"
    and pop: "brpop R q (rd_elapse R d r) = (x, r')"
  shows "rd_PTTL R k r' = rd_PTTL R k r - d"
  using PTTL_after_elapse [OF broker_invarD(1) [OF inv] d(1), of k r] d
    brpop_PTTL [OF broker_invarD(1) [OF inv] pop ne] by simp

lemma sendCall_database:
  assumes inv: "broker_invar slot pool R r" and "uuid_roundtrips C" and "wf_callPayload cp"
    and "sendCall C pool NoFault now (Some (encode_callPayload C cp)) vars r = (x, v, r')"
  shows "broker_invar slot pool R r' \<and> res_queue R r' = res_queue R r"
proof -
  let ?k = "callTimeoutKey (cp_URI cp) (uuid_String C (cp_MsgUUID cp))"
  obtain y r2 where del: "delAndPTTLScript R ?k r = (y, r2)" by fastforce
  have "r' = r2"
    using assms(4) decode_callPayload_encode [OF assms(2,3)] clusterify_one [OF broker_invarD(3) [OF inv], of ?k]
      del delAndPTTL_reply [of R ?k r]
    by (auto simp: sendCall_def unmarshalBRPOPValue_def roundtrip_def stored_call_def Let_def split: if_splits)
  then show ?thesis
    using delAndPTTL_effect [OF inv, of ?k] del by (auto simp: res_queue_def fun_eq_iff)
qed

text \<open>A thunk that answers with a value in time.\<close>

definition answers_in :: "Thunk \<Rightarrow> (raw \<Rightarrow> json) \<Rightarrow> duration \<Rightarrow> bool" where
  "answers_in fn f e \<longleftrightarrow> (\<forall>cp. fn cp = \<lparr>tr_value = Some (f (cp_Args cp)), tr_err = None, tr_elapsed = e\<rparr>)"

lemma callee_once_answers:
  assumes inv: "broker_invar slot pool R r" and ok: "keys_ok pool (uuid_String C (cp_ConnUUID cp))"
    and C: "uuid_roundtrips C" and wf: "wf_callPayload cp" and t: "in_i64 t" "0 < timeout_ms t"
    and queue: "call_queue R r (cp_URI cp) = [Some (encode_callPayload C cp)]"
    and key: "rd_PTTL R (callTimeoutKey (cp_URI cp) (uuid_String C (cp_MsgUUID cp))) r = timeout_ms t"
    and none: "res_queue R r (uuid_String C (cp_ConnUUID cp)) = []"
    and d: "0 \<le> d" "d < timeout_ms t" and fn: "answers_in fn f e" "0 \<le> e"
    and rest: "0 < timeout_ms ((timeout_ms t - d) * Millisecond - e)" "e < (timeout_ms t - d) * Millisecond"
  obtains r' where "callee_once C pool R b now fn (cp_URI cp) (rd_elapse R d r) = (Some None, r')"
    "broker_invar slot pool R r'"
    "res_queue R r' (uuid_String C (cp_ConnUUID cp)) = [Some (encode_resPayload C (result_payload cp (f (cp_Args cp))))]"
    "rd_PTTL R (resTimeoutKey (uuid_String C (cp_ConnUUID cp)) (uuid_String C (cp_MsgUUID cp))) r'
      = timeout_ms ((timeout_ms t - d) * Millisecond - e)"
proof -
  let ?k = "callTimeoutKey (cp_URI cp) (uuid_String C (cp_MsgUUID cp))" and ?v = "Some (encode_callPayload C cp)"
  let ?ttl = "(timeout_ms t - d) * Millisecond" and ?r = "rd_elapse R d r"
  let ?cp = "cp\<lparr>cp_ReadTimestamp := now, cp_TTLAfterRead := ?ttl\<rparr>"
  let ?rp = "result_payload cp (f (cp_Args cp))"
  note inv1 = elapse_effect(1) [OF inv d(1)]
  have q1: "call_queue R ?r = call_queue R r" "res_queue R ?r = res_queue R r"
    using elapse_effect(2) [OF inv d(1)] by (simp_all add: call_queue_def res_queue_def fun_eq_iff)
  obtain x r2 where pop: "brpop R (callKey (cp_URI cp)) ?r = (x, r2)" by fastforce
  have x: "x = Some ?v" and inv2: "broker_invar slot pool R r2" and q2: "res_queue R r2 = res_queue R r"
    using pop_queue(1) [OF inv1 pop] queue q1 by auto
  have pttl: "rd_PTTL R ?k r2 = timeout_ms t - d"
    using PTTL_at_pop [OF inv d(1) _ _ pop, of ?k] key d(2) by (metis not_list_key(1) list_key_simps(1))
  have i64: "i64 ?ttl = ?ttl" "in_i64 ?ttl"
    using ttl_in_i64 [OF t(1) d] timeout_ms_pos_iff [of t] t(2) by simp_all
  obtain y vs r3 where send: "sendCall C pool NoFault now ?v None r2 = (y, vs, r3)" by (metis prod_cases3)
  have y: "y = Some ?cp"
    using sendCall_stored [OF C wf broker_invarD(3) [OF inv2], of now None r2] send pttl d(2) i64 by (simp add: Let_def)
  have inv3: "broker_invar slot pool R r3" and q3: "res_queue R r3 = res_queue R r"
    using sendCall_database [OF inv2 C wf send] q2 by simp_all
  have rem: "i64 (?ttl - e) = ?ttl - e"
    using i64(2) fn(2) rest(2) by (intro i64_id) (auto simp: in_i64_def)
  have "InvokeAndStoreResult (Broker_Result C pool b NoFault) ?cp fn r3 = Broker_Result C pool b NoFault ?rp (?ttl - e) r3"
    using fn(1) rest(2) rem
    by (simp add: InvokeAndStoreResult_def storeResult_def answers_in_def result_value_def result_payload_def Let_def)
  then have once: "callee_once C pool R b now fn (cp_URI cp) ?r = map_prod Some id (Broker_Result C pool b NoFault ?rp (?ttl - e) r3)"
    using pop x send y by (simp add: callee_once_def)
  have rp: "rp_ConnUUID ?rp = cp_ConnUUID cp" "rp_MsgUUID ?rp = cp_MsgUUID cp" by (simp_all add: result_payload_def)
  obtain r4 where res: "Broker_Result C pool b NoFault ?rp (?ttl - e) r3 = (None, r4)" "broker_invar slot pool R r4"
    "res_queue R r4 (uuid_String C (cp_ConnUUID cp)) = [Some (encode_resPayload C ?rp)]"
    "rd_PTTL R (resTimeoutKey (uuid_String C (cp_ConnUUID cp)) (uuid_String C (cp_MsgUUID cp))) r4 = timeout_ms (?ttl - e)"
    using result_registered [OF inv3, of C ?rp "?ttl - e" b] ok none q3 rest(1) rp by metis
  show thesis by (rule that [OF _ res(2-4)]) (simp add: once res(1))
qed

lemma results_once_delivers:
  assumes inv: "broker_invar slot pool R r" and C: "uuid_roundtrips C" and wf: "wf_resPayload rp"
    and queue: "res_queue R r (uuid_String C (rp_ConnUUID rp)) = [Some (encode_resPayload C rp)]"
    and key: "rd_PTTL R (resTimeoutKey (uuid_String C (rp_ConnUUID rp)) (uuid_String C (rp_MsgUUID rp))) r = t"
    and d: "0 \<le> d" "d < t"
  shows "fst (results_once C pool R (rp_ConnUUID rp) (rd_elapse R d r)) = Some rp"
proof -
  let ?k = "resTimeoutKey (uuid_String C (rp_ConnUUID rp)) (uuid_String C (rp_MsgUUID rp))" and ?r = "rd_elapse R d r"
  note inv1 = elapse_effect(1) [OF inv d(1)]
  have q1: "res_queue R ?r = res_queue R r"
    using elapse_effect(2) [OF inv d(1)] by (simp add: res_queue_def fun_eq_iff)
  obtain x r2 where pop: "brpop R (resKey (uuid_String C (rp_ConnUUID rp))) ?r = (x, r2)" by fastforce
  have x: "x = Some (Some (encode_resPayload C rp))" and inv2: "broker_invar slot pool R r2"
    using pop_queue(2) [OF inv1 pop] queue q1 by auto
  have "rd_PTTL R ?k r2 = t - d"
    using PTTL_at_pop [OF inv d(1) _ _ pop, of ?k] key d(2) by (metis not_list_key(2) list_key_simps(2))
  then have "fst (sendResult C pool NoFault (Some (encode_resPayload C rp)) None r2) = Some rp"
    using sendResult_stored [OF C wf broker_invarD(3) [OF inv2], of None r2] d(2) by simp
  then show ?thesis using pop x by (auto simp: results_once_def split: prod.split)
qed

section \<open>Lemmas: the client and the server\<close>

lemma handle_ack:
  assumes "uuid_roundtrips (ce_codec E)" and "wf_msg (Ack a)" and "cl_handler c"
  shows "handleMessage E (encode_msg (ce_codec E) (Ack a)) c = Inr (c\<lparr>cl_handled := cl_handled c @ [Received (Ack a)]\<rparr>)"
proof -
  obtain j where j: "encode_msg (ce_codec E) (Ack a) = Some j" by (simp add: encode_msg_def encode_payload_def)
  have "msg_Type (Ack a) = AckMsg" using assms(2) by (simp add: msg_Type_def wf_meta_def)
  then have "UnmarshalResponse (ce_codec E) (ce_registry E) (Some j) = Inr (Ack a)"
    using unmarshalIf_encode [OF assms(1,2) j] by (simp add: UnmarshalResponse_def)
  then show ?thesis using assms(3) j by (simp add: handleMessage_def go_handle_def)
qed

lemma handle_res:
  assumes "uuid_roundtrips (ce_codec E)" and "wf_msg (Res x)" and "res_Args x = Some v" and "cl_handler c"
    and "uuid_String (ce_codec E) (res_For x) \<in> cl_results c"
  shows "handleMessage E (encode_msg (ce_codec E) (Res x)) c =
    Inr (c\<lparr>cl_results := cl_results c - {uuid_String (ce_codec E) (res_For x)},
           cl_handled := cl_handled c @ [Received (Res x)]\<rparr>)"
proof -
  obtain j where j: "encode_msg (ce_codec E) (Res x) = Some j"
    using assms(3) by (simp add: encode_msg_def encode_payload_def encode_raw_def)
  have "msg_Type (Res x) = ResMsg" using assms(2) by (simp add: msg_Type_def wf_meta_def)
  moreover have "as_sent (Res x) = Res x" using assms(3) by (simp add: sent_raw_def)
  ultimately have "UnmarshalResponse (ce_codec E) (ce_registry E) (Some j) = Inr (Res x)"
    using unmarshalIf_encode [OF assms(1,2) j] by (simp add: UnmarshalResponse_def)
  then show ?thesis using assms(4,5) j by (simp add: handleMessage_def deletePending_def go_handle_def)
qed

text \<open>The call that the client writes.\<close>

definition sent_call :: "uuid \<Rightarrow> string \<Rightarrow> json \<Rightarrow> duration \<Rightarrow> call" where
  "sent_call u uri v t = \<lparr>call_Meta = NewMeta CallMsg u, call_URI = uri, call_Timeout = t, call_Args = Some v\<rparr>"

lemma client_called:
  assumes "Client_Call E acq u uri (Some v) t c = Inr (Inr u', c', g)" and "0 < t"
  shows "Call_msg u uri (Some v) t c = Inr (Call (sent_call u uri v t), t)" and "u' = u"
    and "uuid_String (ce_codec E) u \<in> cl_results c'" and "cl_handled c' = cl_handled c" and "cl_handler c' = cl_handler c"
proof -
  have none: "cl_err c = None"
    using assms(1) by (cases "cl_err c") (simp_all add: Client_Call_def Call_msg_def request_def)
  then show msg: "Call_msg u uri (Some v) t c = Inr (Call (sent_call u uri v t), t)"
    using assms(2) by (simp add: Call_msg_def NewCall_def sent_call_def Let_def)
  obtain e c1 where w: "client_doWrite E acq (Call (sent_call u uri v t)) c = Inr (e, c1)" using doWrite_total by blast
  have e: "e = None" using assms(1) w msg by (cases e) (simp_all add: Client_Call_def request_def)
  have "u' = u" "c' = addPending (uuid_String (ce_codec E) u) c1"
    using assms(1) w msg e
    by (auto simp: Client_Call_def request_def after_write_def call_key_def msg_UUID_def sent_call_def NewMeta_def)
  then show "u' = u" "uuid_String (ce_codec E) u \<in> cl_results c'" "cl_handled c' = cl_handled c" "cl_handler c' = cl_handler c"
    using doWrite_frame [OF w] by (simp_all add: addPending_def)
qed

text \<open>A well-formed request of an allowed type is decoded by the server as it was written.\<close>

lemma request_decodes:
  assumes "uuid_roundtrips C" and "wf_msg m" and "encode_msg C m \<noteq> None" and "IsRead (msg_Type m)"
    and "msg_Type m \<in> set allowed \<or> allowed = []"
  shows "UnmarshalRequest C reg (encode_msg C m) allowed = Inr (as_sent m)"
proof -
  obtain j where j: "encode_msg C m = Some j" using assms(3) by blast
  have "msg_Type m \<in> set (filter IsRead allowed) \<or> allowed = []" using assms(4,5) by auto
  moreover have "msg_Type m \<in> set allReqMsgs" using assms(4) by (auto simp: allReqMsgs_def IsRead_def msg_type_defs)
  ultimately have "msg_Type m \<in> set (let cleaned = filter IsRead allowed in if cleaned = [] then allReqMsgs else cleaned)"
    by (auto simp: Let_def filter_empty_conv)
  then show ?thesis
    using unmarshalIf_encode [OF assms(1,2) j] j by (simp add: UnmarshalRequest_def Let_def)
qed

lemma server_decodes:
  assumes "uuid_roundtrips C" and "wf_msg (Call m)" and "call_Args m = Some v"
    and "CallMsg \<in> set allowed \<or> allowed = []"
  shows "UnmarshalRequest C reg (encode_msg C (Call m)) allowed = Inr (Call m)"
proof -
  have t: "msg_Type (Call m) = CallMsg" using assms(2) by (simp add: msg_Type_def wf_meta_def)
  have "encode_msg C (Call m) \<noteq> None" using assms(3) by (simp add: encode_msg_def encode_payload_def encode_raw_def)
  moreover have "as_sent (Call m) = Call m" using assms(3) by (simp add: sent_raw_def)
  ultimately show ?thesis
    using request_decodes [OF assms(1,2), of allowed reg] assms(4) t by (simp add: IsRead_def msg_type_defs)
qed

text \<open>A server with the standard processing whose writes succeed: a request that the broker
  accepts is acknowledged, and a response is written.\<close>

definition writes_through :: "codec \<Rightarrow> ('c, 'b) platform \<Rightarrow> ('c, 'b) Server \<Rightarrow> bool" where
  "writes_through C P srv \<longleftrightarrow>
     uuid_roundtrips C \<and> pf_codec P = C \<and> srv_Handler srv = None \<and> (\<forall>n. wf_uuid (dr_uuid (pf_draws P) n))
     \<and> (\<forall>m c. encode_msg C m \<noteq> None \<longrightarrow> (\<exists>lk. writeMsg P srv m c = Inr (None, lk)))"

lemma writes_no_error:
  assumes "writes_through C P srv" and "encode_msg C m \<noteq> None" and "map_sum id fst (writeMsg P srv m c) = Inr e"
  shows "e = None"
  using assms unfolding writes_through_def by (metis fst_conv id_apply map_sum.simps(2) sum.inject(2))

lemma request_acked:
  assumes w: "writes_through C P srv" and m: "is_request m" "needs_psc m \<longrightarrow> c_psc c"
    and op: "request_op P (c_UUID c) m (c_brokers c) = (None, r)"
  obtains c1 k where "Send P srv 2 m c = Done c1" "c_brokers c1 = r" "c_UUID c1 = c_UUID c" "c_psc c1 = c_psc c"
    "c_sent c1 = c_sent c @ [Ack (NewAck (dr_uuid (pf_draws P) k) m)]"
proof -
  have h: "srv_Handler srv = None" using w by (simp add: writes_through_def)
  obtain k we c0 c1 where send: "Send P srv (Suc (Suc 0)) m c = Done c1"
    and wr: "written we (reply_msg (dr_uuid (pf_draws P) k) m None) (c\<lparr>c_brokers := r\<rparr>) c1"
    and we: "map_sum id fst (writeMsg P srv (reply_msg (dr_uuid (pf_draws P) k) m None) c0) = Inr we"
    using Send_request_written [OF h m op, of 0] by auto
  have "encode_msg C (reply_msg (dr_uuid (pf_draws P) k) m None) \<noteq> None"
    by (simp add: reply_msg_def encode_msg_def encode_payload_def)
  then have "we = None" using writes_no_error [OF w _ we] by simp
  moreover have "c_psc c1 = c_psc c"
    using standard_server.Send_keeps [of P srv 2 m c c1] send h by (simp add: standard_eq keeps_def numeral_2_eq_2)
  ultimately show thesis
    using that [of c1 k] send wr by (simp add: written_def reply_msg_def numeral_2_eq_2)
qed

lemma response_sent:
  assumes w: "writes_through C P srv" and m: "is_response m" "encode_msg C m \<noteq> None"
  obtains c1 where "Send P srv 1 m c = Done c1" "c_sent c1 = c_sent c @ [m]"
proof -
  have h: "srv_Handler srv = None" using w by (simp add: writes_through_def)
  from Send_response [OF h m(1), of P c 0] obtain e c1 where
    e: "map_sum id fst (writeMsg P srv m c) = Inr e" and send: "Send P srv (Suc 0) m c = Done c1"
    and wr: "written e m c c1" by blast
  have "e = None" by (rule writes_no_error [OF w m(2) e])
  then show thesis using that [of c1] send wr by (simp add: written_def)
qed

text \<open>
  The setting of the round trip: one codec, the standard processing, the redis broker behind the
  server, and a websocket whose writes succeed.
\<close>

definition rpc_platform ::
  "codec \<Rightarrow> 'd client_env \<Rightarrow> ('c, 'r) platform \<Rightarrow> ('c, 'r) Server \<Rightarrow> 'r rconn \<Rightarrow> Broker \<Rightarrow> bool" where
  "rpc_platform C E P srv pool b \<longleftrightarrow>
     writes_through C P srv \<and> ce_codec E = C \<and> bk_Call (pf_brokers P) = Broker_Call C pool b NoFault"

lemma rpc_platformD:
  assumes "rpc_platform C E P srv pool b"
  shows "writes_through C P srv" "uuid_roundtrips C" "ce_codec E = C" "srv_Handler srv = None"
    "bk_Call (pf_brokers P) = Broker_Call C pool b NoFault" "wf_uuid (dr_uuid (pf_draws P) n)"
  using assms by (simp_all add: rpc_platform_def writes_through_def)

definition server_payload :: "uuid \<Rightarrow> call \<Rightarrow> callPayload" where
  "server_payload u m =
     \<lparr>cp_ConnUUID = u, cp_MsgUUID = meta_U (call_Meta m), cp_URI = call_URI m, cp_Args = call_Args m,
      cp_TTLAfterRead = 0, cp_ReadTimestamp = 0\<rparr>"

lemma server_accepts:
  assumes plat: "rpc_platform C E P srv pool b"
    and call: "Broker_Call C pool b NoFault (server_payload (c_UUID c) m) (call_Timeout m) (c_brokers c) = (None, r)"
  obtains c1 k where "Send P srv 2 (Call m) c = Done c1" "c_brokers c1 = r" "c_UUID c1 = c_UUID c"
    "c_sent c1 = c_sent c @ [Ack (NewAck (dr_uuid (pf_draws P) k) (Call m))]"
proof -
  have "request_op P (c_UUID c) (Call m) (c_brokers c) = (None, r)"
    using rpc_platformD(5) [OF plat] call by (simp add: server_payload_def)
  from request_acked [OF rpc_platformD(1) [OF plat] _ _ this] that show thesis by auto
qed

lemma server_sends:
  assumes plat: "rpc_platform C E P srv pool b" and args: "rp_Args rp = Some v"
  obtains c1 k where "send_result P srv 1 rp c = Done c1"
    "c_sent c1 = c_sent c @ [Res (NewRes (dr_uuid (pf_draws P) k) rp)]"
proof -
  let ?m = "Res (NewRes (dr_uuid (pf_draws P) (c_ticks c)) rp)" and ?c = "c\<lparr>c_ticks := Suc (c_ticks c)\<rparr>"
  have "is_response ?m" "encode_msg C ?m \<noteq> None"
    using args by (simp_all add: encode_msg_def encode_payload_def encode_raw_def NewRes_def)
  from response_sent [OF rpc_platformD(1) [OF plat] this, of ?c] obtain c1 where
    "Send P srv 1 ?m ?c = Done c1" "c_sent c1 = c_sent ?c @ [?m]" .
  then show thesis using that [of c1 "c_ticks c"] by (simp add: send_result_def)
qed

section \<open>The path through redis\<close>

text \<open>The call and its result between the server and the callee.\<close>

lemma served_by_callee:
  assumes plat: "rpc_platform C E P srv pool b"
    and db: "broker_invar slot pool R (c_brokers c)" "keys_ok pool (call_URI m)" "keys_ok pool (uuid_String C (c_UUID c))"
    and idle: "call_queue R (c_brokers c) (call_URI m) = []" "res_queue R (c_brokers c) (uuid_String C (c_UUID c)) = []"
    and wf: "wf_msg (Call m)" "wf_uuid (c_UUID c)" "0 < call_Timeout m"
    and callee: "answers_in fn f e" "0 \<le> e"
    and times: "0 \<le> d1" "e + Millisecond \<le> (timeout_ms (call_Timeout m) - d1) * Millisecond"
      "0 \<le> d2" "d2 < ((timeout_ms (call_Timeout m) - d1) * Millisecond - e) div Millisecond"
  obtains c1 k r r' where "Send P srv 2 (Call m) c = Done c1"
    "c_sent c1 = c_sent c @ [Ack (NewAck (dr_uuid (pf_draws P) k) (Call m))]"
    "callee_once C pool R b' now fn (call_URI m) (rd_elapse R d1 (c_brokers c1)) = (Some None, r)"
    "results_once C pool R (c_UUID c) (rd_elapse R d2 r)
      = (Some (result_payload (server_payload (c_UUID c) m) (f (call_Args m))), r')"
proof -
  let ?t = "call_Timeout m" and ?cp = "server_payload (c_UUID c) m" and ?u = "meta_U (call_Meta m)"
  let ?rem = "(timeout_ms ?t - d1) * Millisecond - e" and ?rp = "result_payload ?cp (f (call_Args m))"
  have C: "uuid_roundtrips C" by (rule rpc_platformD(2) [OF plat])
  have cp: "cp_URI ?cp = call_URI m" "cp_ConnUUID ?cp = c_UUID c" "cp_MsgUUID ?cp = ?u" "cp_Args ?cp = call_Args m"
    "wf_callPayload ?cp" using wf(1,2) by (simp_all add: server_payload_def wf_callPayload_def wf_meta_def)
  have rp: "rp_ConnUUID ?rp = c_UUID c" "rp_MsgUUID ?rp = ?u" "wf_resPayload ?rp"
    using cp by (simp_all add: result_payload_def wf_resPayload_def wf_callPayload_def)
  have t: "in_i64 ?t" "0 < timeout_ms ?t" "0 < Millisecond"
    using wf(1,3) timeout_ms_pos_iff [of ?t] by (simp_all add: Millisecond_def)
  have "0 < (timeout_ms ?t - d1) * Millisecond" using times(2) callee(2) t(3) by linarith
  then have d1: "d1 < timeout_ms ?t" using t(3) by (simp add: zero_less_mult_iff)
  have rem: "timeout_ms ?rem = ?rem div Millisecond" "0 < timeout_ms ?rem" "e < (timeout_ms ?t - d1) * Millisecond"
    using timeout_ms_bounds [of ?rem] timeout_ms_pos_iff [of ?rem] times(2) t(3) by linarith+
  obtain r1 where r1: "Broker_Call C pool b NoFault ?cp ?t (c_brokers c) = (None, r1)" "broker_invar slot pool R r1"
    "call_queue R r1 (call_URI m) = [Some (encode_callPayload C ?cp)]" "res_queue R r1 = res_queue R (c_brokers c)"
    "rd_PTTL R (callTimeoutKey (call_URI m) (uuid_String C ?u)) r1 = timeout_ms ?t"
    using call_registered [OF db(1), of ?cp ?t C b] db(2) idle(1) t(2) cp by metis
  obtain c1 k where c1: "Send P srv 2 (Call m) c = Done c1" "c_brokers c1 = r1"
    "c_sent c1 = c_sent c @ [Ack (NewAck (dr_uuid (pf_draws P) k) (Call m))]"
    by (rule server_accepts [OF plat r1(1)])
  obtain r where r: "callee_once C pool R b' now fn (call_URI m) (rd_elapse R d1 r1) = (Some None, r)"
    "broker_invar slot pool R r" "res_queue R r (uuid_String C (c_UUID c)) = [Some (encode_resPayload C ?rp)]"
    "rd_PTTL R (resTimeoutKey (uuid_String C (c_UUID c)) (uuid_String C ?u)) r = timeout_ms ?rem"
    using callee_once_answers [OF r1(2), where cp = ?cp and t = ?t and d = d1 and fn = fn and f = f and e = e and C = C
        and b = b' and now = now] db(3) C cp t(1,2) r1(3-5) idle(2) times(1) d1 callee rem(2,3) by metis
  obtain r' where "results_once C pool R (c_UUID c) (rd_elapse R d2 r) = (Some ?rp, r')"
    using results_once_delivers [OF r(2) C rp(3), of "timeout_ms ?rem" d2] r(3,4) rp(1,2) times(3,4) rem(1)
    by (metis prod.collapse)
  then show thesis using that [OF c1(1,3)] c1(2) r(1) by blast
qed

end
