(* ===== verification/Pubsub.thy ===== *)
theory Pubsub
  imports Rpc
begin

text \<open>
  Publish-subscribe from one client to another: the server's \<^verbatim>\<open>SUB\<close>, \<^verbatim>\<open>UNSB\<close> and
  \<^verbatim>\<open>PUB\<close> processing, the broker's subscriptions and publications, and the events that a
  pub-sub connection makes of what redis sends it. The pub-sub part of redis is a parameter with
  its documented laws.
\<close>

section \<open>The service\<close>

text \<open>
  Redis as its pub-sub clients see it, over a state \<open>'q\<close>: the commands of the connection with a
  number, \<^verbatim>\<open>PUBLISH\<close>, who is subscribed to a channel or (when the flag is set) to a pattern,
  which patterns match a channel, and what is on its way to a connection, in order.
\<close>

record 'q pubsub =
  px_conn :: "nat \<Rightarrow> 'q redisPubSub"
  px_PUBLISH :: "string \<Rightarrow> wire \<Rightarrow> 'q \<Rightarrow> int result \<times> 'q"
  px_subscribed :: "nat \<Rightarrow> bool \<Rightarrow> string \<Rightarrow> 'q \<Rightarrow> bool"
  px_matches :: "string \<Rightarrow> string \<Rightarrow> bool"
  px_inbox :: "nat \<Rightarrow> 'q \<Rightarrow> notification list"

text \<open>A command that subscribes or unsubscribes: it changes that one subscription, and the
  connection is sent a confirmation.\<close>

definition law_subscription ::
  "'q pubsub \<Rightarrow> ('q redisPubSub \<Rightarrow> string \<Rightarrow> 'q \<Rightarrow> err option \<times> 'q) \<Rightarrow> bool \<Rightarrow> bool \<Rightarrow> bool" where
  "law_subscription X cmd pat on \<longleftrightarrow> (\<forall>i ch q. \<exists>q'. cmd (px_conn X i) ch q = (None, q')
     \<and> (\<forall>j. px_inbox X j q' = px_inbox X j q @ (if j = i then [Subscription] else []))
     \<and> (\<forall>j p c. px_subscribed X j p c q' = (if j = i \<and> p = pat \<and> c = ch then on else px_subscribed X j p c q)))"

text \<open>What a publication sends to a connection: one message when it is subscribed to the channel,
  and one for every matching pattern it is subscribed to.\<close>

definition notified :: "'q pubsub \<Rightarrow> nat \<Rightarrow> string \<Rightarrow> wire \<Rightarrow> 'q \<Rightarrow> notification set" where
  "notified X i ch p q =
     (if px_subscribed X i False ch q then {Message ch p} else {})
     \<union> {PMessage pat ch p |pat. px_subscribed X i True pat q \<and> px_matches X pat ch}"

definition law_PUBLISH :: "'q pubsub \<Rightarrow> bool" where
  "law_PUBLISH X \<longleftrightarrow> (\<forall>ch p q. \<exists>n q'. px_PUBLISH X ch p q = (Inr n, q')
     \<and> (\<forall>j pat c. px_subscribed X j pat c q' = px_subscribed X j pat c q)
     \<and> (\<forall>i. \<exists>ns. px_inbox X i q' = px_inbox X i q @ ns \<and> distinct ns \<and> set ns = notified X i ch p q))"

definition pubsub_laws :: "'q pubsub \<Rightarrow> bool" where
  "pubsub_laws X \<longleftrightarrow>
     law_subscription X ps_Subscribe False True \<and> law_subscription X ps_PSubscribe True True
     \<and> law_subscription X ps_Unsubscribe False False \<and> law_subscription X ps_PUnsubscribe True False
     \<and> law_PUBLISH X"

section \<open>Operations of the broker\<close>

text \<open>What the connections of the servers do, through \<^verbatim>\<open>pubSubConn\<close> and \<^verbatim>\<open>Broker.Publish\<close>.\<close>

datatype psop = SubOp nat bool string | UnsbOp nat bool string | PubOp string pubPayload

fun ps_exec :: "codec \<Rightarrow> 'r rconn \<Rightarrow> 'q pubsub \<Rightarrow> psop \<Rightarrow> 'q \<Rightarrow> err option \<times> 'q" where
  "ps_exec C pool X (SubOp i pat ch) q = pubSubConn_Subscribe (px_conn X i) ch pat q"
| "ps_exec C pool X (UnsbOp i pat ch) q = pubSubConn_Unsubscribe (px_conn X i) ch pat q"
| "ps_exec C pool X (PubOp ch pp) q = Broker_Publish C pool (\<lambda>_. px_PUBLISH X) NoFault ch pp q"

definition ps_run :: "codec \<Rightarrow> 'r rconn \<Rightarrow> 'q pubsub \<Rightarrow> psop list \<Rightarrow> 'q \<Rightarrow> 'q" where
  "ps_run C pool X ops q = fold (\<lambda>op q. snd (ps_exec C pool X op q)) ops q"

text \<open>The events that a connection makes of its notifications.\<close>

definition events_of :: "codec \<Rightarrow> notification list \<Rightarrow> evntPayload list" where
  "events_of C ns =
     List.map_filter (\<lambda>n. case event_value n of None \<Rightarrow> None | Some v \<Rightarrow> fst (sendEvent C v None)) ns"

section \<open>The abstract behaviour\<close>

text \<open>
  The contract of \<^verbatim>\<open>PubSubBroker\<close> and \<^verbatim>\<open>PubSubConn\<close>: a set of subscriptions and, for a
  connection, the publications in order, each with those of its subscriptions that take the
  channel. A publication is delivered as one event for each of them.
\<close>

type_synonym subscription = "nat \<times> bool \<times> string"

fun spec_subs :: "psop \<Rightarrow> subscription set \<Rightarrow> subscription set" where
  "spec_subs (SubOp i pat ch) S = insert (i, pat, ch) S"
| "spec_subs (UnsbOp i pat ch) S = S - {(i, pat, ch)}"
| "spec_subs (PubOp ch pp) S = S"

definition takes :: "(string \<Rightarrow> string \<Rightarrow> bool) \<Rightarrow> bool \<Rightarrow> string \<Rightarrow> string \<Rightarrow> bool" where
  "takes matches pat sub ch \<longleftrightarrow> (if pat then matches sub ch else sub = ch)"

definition spec_event :: "string \<Rightarrow> pubPayload \<Rightarrow> bool \<times> string \<Rightarrow> evntPayload" where
  "spec_event ch pp x =
     (case x of (pat, sub) \<Rightarrow>
        \<lparr>ep_MsgUUID = pp_MsgUUID pp, ep_Channel = ch, ep_Pattern = (if pat then sub else ''''), ep_Args = pp_Args pp\<rparr>)"

type_synonym publication = "(bool \<times> string) set \<times> string \<times> pubPayload"

fun spec_step :: "(string \<Rightarrow> string \<Rightarrow> bool) \<Rightarrow> nat \<Rightarrow> psop \<Rightarrow> subscription set \<Rightarrow> publication list" where
  "spec_step matches i (PubOp ch pp) S = [({(pat, sub). (i, pat, sub) \<in> S \<and> takes matches pat sub ch}, ch, pp)]"
| "spec_step matches i _ S = []"

fun spec_events :: "(string \<Rightarrow> string \<Rightarrow> bool) \<Rightarrow> nat \<Rightarrow> psop list \<Rightarrow> subscription set \<Rightarrow> publication list" where
  "spec_events matches i [] S = []"
| "spec_events matches i (op # ops) S = spec_step matches i op S @ spec_events matches i ops (spec_subs op S)"

definition delivers :: "evntPayload list \<Rightarrow> publication \<Rightarrow> bool" where
  "delivers g x \<longleftrightarrow>
     (case x of (M, ch, pp) \<Rightarrow> \<exists>l. distinct l \<and> set l = M \<and> g = map (spec_event ch pp) l)"

section \<open>Refinement\<close>

definition subs_of :: "'q pubsub \<Rightarrow> 'q \<Rightarrow> subscription set" where
  "subs_of X q = {(i, pat, ch). px_subscribed X i pat ch q}"

fun wf_psop :: "psop \<Rightarrow> bool" where
  "wf_psop (PubOp ch pp) = wf_uuid (pp_MsgUUID pp)"
| "wf_psop _ = True"

lemma events_of_append [simp]: "events_of C (xs @ ys) = events_of C xs @ events_of C ys"
  by (simp add: events_of_def List.map_filter_def)

lemma events_of_Subscription [simp]: "events_of C [Subscription] = []" "events_of C [] = []"
  by (simp_all add: events_of_def List.map_filter_def)

lemma subscription_step:
  assumes "law_subscription X cmd pat on"
  shows "\<exists>q'. cmd (px_conn X i) ch q = (None, q')
    \<and> subs_of X q' = (if on then insert (i, pat, ch) (subs_of X q) else subs_of X q - {(i, pat, ch)})
    \<and> (\<forall>j. events_of C (px_inbox X j q') = events_of C (px_inbox X j q))"
proof -
  obtain q' where q': "cmd (px_conn X i) ch q = (None, q')"
    "\<forall>j. px_inbox X j q' = px_inbox X j q @ (if j = i then [Subscription] else [])"
    "\<forall>j p c. px_subscribed X j p c q' = (if j = i \<and> p = pat \<and> c = ch then on else px_subscribed X j p c q)"
    using assms unfolding law_subscription_def by metis
  have "subs_of X q' = (if on then insert (i, pat, ch) (subs_of X q) else subs_of X q - {(i, pat, ch)})"
    using q'(3) by (auto simp: subs_of_def split: if_splits)
  moreover have "events_of C (px_inbox X j q') = events_of C (px_inbox X j q)" for j
    using q'(2) by simp
  ultimately show ?thesis using q'(1) by blast
qed

lemma subUnsub_step:
  assumes "pubsub_laws X"
  shows "\<exists>q'. subUnsub (px_conn X i) ch pat on q = (None, q')
    \<and> subs_of X q' = (if on then insert (i, pat, ch) (subs_of X q) else subs_of X q - {(i, pat, ch)})
    \<and> (\<forall>j. events_of C (px_inbox X j q') = events_of C (px_inbox X j q))"
  using assms subscription_step [of X _ pat on i ch q C]
  by (cases pat; cases on) (simp_all add: pubsub_laws_def subUnsub_def)

text \<open>The notification of a subscription, and the event it becomes.\<close>

definition note_of :: "string \<Rightarrow> wire \<Rightarrow> bool \<times> string \<Rightarrow> notification" where
  "note_of ch p x = (case x of (pat, sub) \<Rightarrow> if pat then PMessage sub ch p else Message ch p)"

lemma notified_eq:
  "notified X i ch p q = note_of ch p ` {(pat, sub). (i, pat, sub) \<in> subs_of X q \<and> takes (px_matches X) pat sub ch}"
proof (intro set_eqI iffI)
  fix n
  assume "n \<in> notified X i ch p q"
  then consider "n = Message ch p" "px_subscribed X i False ch q"
    | pat where "n = PMessage pat ch p" "px_subscribed X i True pat q" "px_matches X pat ch"
    by (auto simp: notified_def split: if_splits)
  then show "n \<in> note_of ch p ` {(pat, sub). (i, pat, sub) \<in> subs_of X q \<and> takes (px_matches X) pat sub ch}"
  proof cases
    case 1
    then show ?thesis by (intro image_eqI [of _ _ "(False, ch)"]) (auto simp: note_of_def subs_of_def takes_def)
  next
    case (2 pat)
    then show ?thesis by (intro image_eqI [of _ _ "(True, pat)"]) (auto simp: note_of_def subs_of_def takes_def)
  qed
next
  fix n
  assume "n \<in> note_of ch p ` {(pat, sub). (i, pat, sub) \<in> subs_of X q \<and> takes (px_matches X) pat sub ch}"
  then obtain pat sub where "n = note_of ch p (pat, sub)" "px_subscribed X i pat sub q" "takes (px_matches X) pat sub ch"
    by (auto simp: subs_of_def)
  then show "n \<in> notified X i ch p q" by (cases pat) (auto simp: notified_def note_of_def takes_def)
qed

lemma note_of_inj: "inj_on (note_of ch p) {(pat, sub). (i, pat, sub) \<in> S \<and> takes m pat sub ch}"
  by (auto simp: inj_on_def note_of_def takes_def split: if_splits)

lemma note_event:
  assumes "uuid_roundtrips C" and "wf_uuid (pp_MsgUUID pp)"
  shows "\<exists>v. event_value (note_of ch (Some (encode_pubPayload C pp)) x) = Some v
    \<and> (\<forall>vars. sendEvent C v vars = (Some (spec_event ch pp x), vars))"
  using decode_pubPayload_encode [OF assms]
  by (cases x) (auto simp: note_of_def sendEvent_def newEvntPayload_def spec_event_def)

lemma events_of_notes:
  assumes "uuid_roundtrips C" and "wf_uuid (pp_MsgUUID pp)"
  shows "events_of C (map (note_of ch (Some (encode_pubPayload C pp))) l) = map (spec_event ch pp) l"
proof (induction l)
  case (Cons x l)
  obtain v where "event_value (note_of ch (Some (encode_pubPayload C pp)) x) = Some v"
    "sendEvent C v None = (Some (spec_event ch pp x), None)"
    using note_event [OF assms, of ch x] by blast
  with Cons show ?case by (simp add: events_of_def List.map_filter_def)
qed simp

lemma list_of_image:
  assumes "distinct ns" and "set ns = f ` M" and "inj_on f M"
  shows "\<exists>l. ns = map f l \<and> distinct l \<and> set l = M"
proof -
  let ?l = "map (inv_into M f) ns"
  have "map (\<lambda>n. f (inv_into M f n)) ns = ns"
    by (rule map_idI) (simp add: assms(2) f_inv_into_f)
  then have "map f ?l = ns" by (simp add: comp_def)
  moreover have "set ?l = M" using assms(2,3) by (simp add: inv_into_image_cancel)
  moreover have "distinct ?l" using assms(1,2) by (simp add: distinct_map inj_on_inv_into)
  ultimately show ?thesis by (intro exI [of _ ?l] conjI) (rule sym)
qed

lemma publish_step:
  assumes laws: "pubsub_laws X" and C: "uuid_roundtrips C" "wf_uuid (pp_MsgUUID pp)"
  shows "\<exists>q'. Broker_Publish C pool (\<lambda>_. px_PUBLISH X) NoFault ch pp q = (None, q') \<and> subs_of X q' = subs_of X q
    \<and> (\<forall>i. \<exists>l. px_inbox X i q' = px_inbox X i q @ map (note_of ch (Some (encode_pubPayload C pp))) l
         \<and> distinct l \<and> set l = {(pat, sub). (i, pat, sub) \<in> subs_of X q \<and> takes (px_matches X) pat sub ch})"
proof -
  let ?p = "Some (encode_pubPayload C pp)"
  obtain n q' where q': "px_PUBLISH X ch ?p q = (Inr n, q')"
    "\<forall>j pat c. px_subscribed X j pat c q' = px_subscribed X j pat c q"
    "\<forall>i. \<exists>ns. px_inbox X i q' = px_inbox X i q @ ns \<and> distinct ns \<and> set ns = notified X i ch ?p q"
    using laws unfolding pubsub_laws_def law_PUBLISH_def by metis
  have "\<exists>l. px_inbox X i q' = px_inbox X i q @ map (note_of ch ?p) l \<and> distinct l
      \<and> set l = {(pat, sub). (i, pat, sub) \<in> subs_of X q \<and> takes (px_matches X) pat sub ch}" for i
  proof -
    let ?M = "{(pat, sub). (i, pat, sub) \<in> subs_of X q \<and> takes (px_matches X) pat sub ch}"
    obtain ns where ns: "px_inbox X i q' = px_inbox X i q @ ns" "distinct ns" "set ns = note_of ch ?p ` ?M"
      using q'(3) notified_eq by metis
    obtain l where "ns = map (note_of ch ?p) l" "distinct l" "set l = ?M"
      using list_of_image [OF ns(2,3) note_of_inj] by blast
    then show ?thesis using ns(1) by blast
  qed
  moreover have "Broker_Publish C pool (\<lambda>_. px_PUBLISH X) NoFault ch pp q = (None, q')"
    using q'(1) by (simp add: Broker_Publish_def roundtrip_def)
  moreover have "subs_of X q' = subs_of X q" using q'(2) by (simp add: subs_of_def)
  ultimately show ?thesis by blast
qed

lemma ps_exec_step:
  assumes laws: "pubsub_laws X" and C: "uuid_roundtrips C" "wf_psop op"
  shows "\<exists>q' gs. ps_exec C pool X op q = (None, q') \<and> subs_of X q' = spec_subs op (subs_of X q)
    \<and> events_of C (px_inbox X i q') = events_of C (px_inbox X i q) @ concat gs
    \<and> list_all2 delivers gs (spec_step (px_matches X) i op (subs_of X q))"
proof (cases op)
  case (SubOp j pat ch)
  then show ?thesis using subUnsub_step [OF laws, of j ch pat True q C]
    by (auto simp: pubSubConn_Subscribe_def intro!: exI [of _ "[]"])
next
  case (UnsbOp j pat ch)
  then show ?thesis using subUnsub_step [OF laws, of j ch pat False q C]
    by (auto simp: pubSubConn_Unsubscribe_def intro!: exI [of _ "[]"])
next
  case (PubOp ch pp)
  with C(2) have pp: "wf_uuid (pp_MsgUUID pp)" by simp
  obtain q' l where q': "Broker_Publish C pool (\<lambda>_. px_PUBLISH X) NoFault ch pp q = (None, q')" "subs_of X q' = subs_of X q"
    "px_inbox X i q' = px_inbox X i q @ map (note_of ch (Some (encode_pubPayload C pp))) l"
    "distinct l" "set l = {(pat, sub). (i, pat, sub) \<in> subs_of X q \<and> takes (px_matches X) pat sub ch}"
    using publish_step [OF laws C(1) pp, of pool ch q] by blast
  then show ?thesis
    using PubOp by (intro exI [of _ q'] exI [of _ "[map (spec_event ch pp) l]"])
      (auto simp: events_of_notes [OF C(1) pp] delivers_def)
qed

lemma ps_run_refines:
  assumes laws: "pubsub_laws X" and C: "uuid_roundtrips C"
  shows "list_all wf_psop ops \<Longrightarrow> subs_of X (ps_run C pool X ops q) = fold spec_subs ops (subs_of X q)
    \<and> (\<exists>gs. events_of C (px_inbox X i (ps_run C pool X ops q)) = events_of C (px_inbox X i q) @ concat gs
         \<and> list_all2 delivers gs (spec_events (px_matches X) i ops (subs_of X q)))"
proof (induction ops arbitrary: q)
  case Nil
  show ?case by (simp add: ps_run_def)
next
  case (Cons op ops)
  obtain q' gs where q': "ps_exec C pool X op q = (None, q')" "subs_of X q' = spec_subs op (subs_of X q)"
    "events_of C (px_inbox X i q') = events_of C (px_inbox X i q) @ concat gs"
    "list_all2 delivers gs (spec_step (px_matches X) i op (subs_of X q))"
    using ps_exec_step [OF laws C, of op pool q i] Cons.prems by auto
  have run: "ps_run C pool X (op # ops) q = ps_run C pool X ops q'" using q'(1) by (simp add: ps_run_def)
  obtain gs' where "events_of C (px_inbox X i (ps_run C pool X ops q')) = events_of C (px_inbox X i q') @ concat gs'"
    "list_all2 delivers gs' (spec_events (px_matches X) i ops (subs_of X q'))"
    using Cons.IH [of q'] Cons.prems by auto
  moreover have "subs_of X (ps_run C pool X ops q') = fold spec_subs ops (subs_of X q')"
    using Cons.IH [of q'] Cons.prems by auto
  ultimately show ?case
    using q' by (auto simp: run intro!: exI [of _ "gs @ gs'"] list_all2_appendI)
qed

section \<open>The server and the client\<close>

text \<open>A server connection whose pub-sub connection has the number \<open>i\<close>.\<close>

definition pubsub_platform ::
  "codec \<Rightarrow> ('c, 'q) platform \<Rightarrow> ('c, 'q) Server \<Rightarrow> 'r rconn \<Rightarrow> 'q pubsub \<Rightarrow> nat \<Rightarrow> bool" where
  "pubsub_platform C P srv pool X i \<longleftrightarrow>
     writes_through C P srv
     \<and> bk_Subscribe (pf_brokers P) = pubSubConn_Subscribe (px_conn X i)
     \<and> bk_Unsubscribe (pf_brokers P) = pubSubConn_Unsubscribe (px_conn X i)
     \<and> bk_Publish (pf_brokers P) = Broker_Publish C pool (\<lambda>_. px_PUBLISH X) NoFault"

lemma pubsub_platformD:
  assumes "pubsub_platform C P srv pool X i"
  shows "writes_through C P srv" "uuid_roundtrips C" "wf_uuid (dr_uuid (pf_draws P) n)"
  using assms by (simp_all add: pubsub_platform_def writes_through_def)

lemma client_subscribed:
  assumes "Client_Sub E acq u ch pat c = Inr (Inr u', c', g)"
  shows "Sub_msg u ch pat c = Inr (Sub (NewSub u ch pat), 0)" and "cl_handler c' = cl_handler c"
proof -
  have "cl_err c = None"
    using assms by (cases "cl_err c") (simp_all add: Client_Sub_def Sub_msg_def request_def)
  then show msg: "Sub_msg u ch pat c = Inr (Sub (NewSub u ch pat), 0)" by (simp add: Sub_msg_def)
  obtain e c1 where w: "client_doWrite E acq (Sub (NewSub u ch pat)) c = Inr (e, c1)" using doWrite_total by blast
  then have "c' = c1" using assms msg by (cases e) (simp_all add: Client_Sub_def request_def after_write_def)
  then show "cl_handler c' = cl_handler c" using doWrite_frame [OF w] by simp
qed

definition sent_pub :: "uuid \<Rightarrow> string \<Rightarrow> json \<Rightarrow> pub" where
  "sent_pub u ch v = \<lparr>pub_Meta = NewMeta PubMsg u, pub_Channel = ch, pub_Args = Some v\<rparr>"

lemma client_published:
  assumes "Client_Pub E acq u ch (Some v) c = Inr (Inr u', c', g)"
  shows "Pub_msg u ch (Some v) c = Inr (Pub (sent_pub u ch v), 0)"
  using assms by (cases "cl_err c") (simp_all add: Client_Pub_def Pub_msg_def request_def NewPub_def sent_pub_def)

text \<open>A subscription is decoded, made and acknowledged.\<close>

lemma server_subscribes:
  assumes plat: "pubsub_platform C P srv pool X i" and laws: "pubsub_laws X"
    and wf: "wf_uuid u" "valid_utf8 ch" and allowed: "SubMsg \<in> set allowed \<or> allowed = []" and psc: "c_psc c"
  shows "UnmarshalRequest C reg (encode_msg C (Sub (NewSub u ch pat))) allowed = Inr (Sub (NewSub u ch pat))
    \<and> (\<exists>c1 a. Send P srv 2 (Sub (NewSub u ch pat)) c = Done c1 \<and> c_sent c1 = c_sent c @ [Ack a] \<and> ack_For a = u
         \<and> subs_of X (c_brokers c1) = insert (i, pat, ch) (subs_of X (c_brokers c)))"
proof -
  let ?m = "Sub (NewSub u ch pat)"
  have m: "wf_msg ?m" "encode_msg C ?m \<noteq> None" "msg_Type ?m = SubMsg"
    using wf by (simp_all add: NewSub_def NewMeta_def wf_meta_def encode_msg_def encode_payload_def msg_Type_def)
  have dec: "UnmarshalRequest C reg (encode_msg C ?m) allowed = Inr ?m"
    using request_decodes [OF pubsub_platformD(2) [OF plat] m(1,2), of allowed reg] m(3) allowed
    by (simp add: IsRead_def msg_type_defs)
  obtain q' where q': "subUnsub (px_conn X i) ch pat True (c_brokers c) = (None, q')"
    "subs_of X q' = insert (i, pat, ch) (subs_of X (c_brokers c))"
    using subUnsub_step [OF laws, of i ch pat True "c_brokers c" C] by auto
  then have op: "request_op P (c_UUID c) ?m (c_brokers c) = (None, q')"
    using plat by (simp add: pubsub_platform_def NewSub_def pubSubConn_Subscribe_def)
  obtain c1 k where "Send P srv 2 ?m c = Done c1" "c_brokers c1 = q'"
    "c_sent c1 = c_sent c @ [Ack (NewAck (dr_uuid (pf_draws P) k) ?m)]"
    by (rule request_acked [OF pubsub_platformD(1) [OF plat] _ _ op]) (use psc in simp_all)
  moreover have "ack_For (NewAck (dr_uuid (pf_draws P) k) ?m) = u"
    by (simp add: NewAck_def NewSub_def NewMeta_def msg_UUID_def Let_def)
  ultimately show ?thesis using dec q'(2) by blast
qed

text \<open>A publication is decoded, made and acknowledged, and every connection is sent a
  notification for each subscription that takes it.\<close>

lemma server_publishes:
  assumes plat: "pubsub_platform C P srv pool X i" and laws: "pubsub_laws X"
    and wf: "wf_uuid u" "valid_utf8 ch" and allowed: "PubMsg \<in> set allowed \<or> allowed = []"
  shows "UnmarshalRequest C reg (encode_msg C (Pub (sent_pub u ch v))) allowed = Inr (Pub (sent_pub u ch v))
    \<and> (\<exists>c1 a. Send P srv 2 (Pub (sent_pub u ch v)) c = Done c1 \<and> c_sent c1 = c_sent c @ [Ack a] \<and> ack_For a = u
         \<and> (\<forall>j. \<exists>l. px_inbox X j (c_brokers c1) = px_inbox X j (c_brokers c)
                @ map (note_of ch (Some (encode_pubPayload C \<lparr>pp_MsgUUID = u, pp_Args = Some v\<rparr>))) l
              \<and> set l = {(pat, sub). (j, pat, sub) \<in> subs_of X (c_brokers c) \<and> takes (px_matches X) pat sub ch}))"
proof -
  let ?m = "Pub (sent_pub u ch v)" and ?pp = "\<lparr>pp_MsgUUID = u, pp_Args = Some v\<rparr>"
  have m: "wf_msg ?m" "encode_msg C ?m \<noteq> None" "msg_Type ?m = PubMsg" "as_sent ?m = ?m"
    using wf by (simp_all add: sent_pub_def NewMeta_def wf_meta_def encode_msg_def encode_payload_def encode_raw_def
        msg_Type_def sent_raw_def)
  have dec: "UnmarshalRequest C reg (encode_msg C ?m) allowed = Inr ?m"
    using request_decodes [OF pubsub_platformD(2) [OF plat] m(1,2), of allowed reg] m(3,4) allowed
    by (simp add: IsRead_def msg_type_defs)
  obtain q' where q': "Broker_Publish C pool (\<lambda>_. px_PUBLISH X) NoFault ch ?pp (c_brokers c) = (None, q')"
    "\<forall>j. \<exists>l. px_inbox X j q' = px_inbox X j (c_brokers c) @ map (note_of ch (Some (encode_pubPayload C ?pp))) l
       \<and> distinct l \<and> set l = {(pat, sub). (j, pat, sub) \<in> subs_of X (c_brokers c) \<and> takes (px_matches X) pat sub ch}"
    using publish_step [OF laws pubsub_platformD(2) [OF plat], of ?pp pool ch "c_brokers c"] wf(1) by auto
  then have op: "request_op P (c_UUID c) ?m (c_brokers c) = (None, q')"
    using plat by (simp add: pubsub_platform_def sent_pub_def NewMeta_def)
  obtain c1 k where c1: "Send P srv 2 ?m c = Done c1" "c_brokers c1 = q'"
    "c_sent c1 = c_sent c @ [Ack (NewAck (dr_uuid (pf_draws P) k) ?m)]"
    by (rule request_acked [OF pubsub_platformD(1) [OF plat] _ _ op]) simp_all
  moreover have "ack_For (NewAck (dr_uuid (pf_draws P) k) ?m) = u"
    by (simp add: NewAck_def sent_pub_def NewMeta_def msg_UUID_def Let_def)
  ultimately show ?thesis using dec q'(2) by blast
qed

lemma handle_evnt:
  assumes "uuid_roundtrips (ce_codec E)" and "wf_msg (Evnt x)" and "evnt_Args x = Some v" and "cl_handler c"
  shows "handleMessage E (encode_msg (ce_codec E) (Evnt x)) c = Inr (c\<lparr>cl_handled := cl_handled c @ [Received (Evnt x)]\<rparr>)"
proof -
  obtain j where j: "encode_msg (ce_codec E) (Evnt x) = Some j"
    using assms(3) by (simp add: encode_msg_def encode_payload_def encode_raw_def)
  have "msg_Type (Evnt x) = EvntMsg" using assms(2) by (simp add: msg_Type_def wf_meta_def)
  moreover have "as_sent (Evnt x) = Evnt x" using assms(3) by (simp add: sent_raw_def)
  ultimately have "UnmarshalResponse (ce_codec E) (ce_registry E) (Some j) = Inr (Evnt x)"
    using unmarshalIf_encode [OF assms(1,2) j] by (simp add: UnmarshalResponse_def)
  then show ?thesis using assms(4) j by (simp add: handleMessage_def go_handle_def)
qed

text \<open>An event is written by the server and given to the handler of the client.\<close>

lemma event_handled:
  assumes plat: "pubsub_platform C P srv pool X i" and E: "ce_codec E = C" "cl_handler cl"
    and wf: "wf_uuid u" "valid_utf8 ch" "valid_utf8 sub"
    and ep: "ep = spec_event ch \<lparr>pp_MsgUUID = u, pp_Args = Some v\<rparr> (pat, sub)"
  shows "\<exists>c1 x cl1. send_event P srv 1 ep c = Done c1 \<and> c_sent c1 = c_sent c @ [Evnt x]
    \<and> handleMessage E (encode_msg C (Evnt x)) cl = Inr cl1 \<and> cl_handled cl1 = cl_handled cl @ [Received (Evnt x)]
    \<and> evnt_For x = u \<and> evnt_Channel x = ch \<and> evnt_Pattern x = (if pat then sub else '''') \<and> evnt_Args x = Some v"
proof -
  let ?x = "NewEvnt (dr_uuid (pf_draws P) (c_ticks c)) ep" and ?c = "c\<lparr>c_ticks := Suc (c_ticks c)\<rparr>"
  have x: "evnt_For ?x = u" "evnt_Channel ?x = ch" "evnt_Pattern ?x = (if pat then sub else '''')" "evnt_Args ?x = Some v"
    by (simp_all add: ep spec_event_def NewEvnt_def)
  have "valid_utf8 ''''" by (simp add: valid_utf8_def)
  then have m: "wf_msg (Evnt ?x)" using wf pubsub_platformD(3) [OF plat]
    by (simp add: x wf_meta_def NewMeta_def) (simp add: NewEvnt_def NewMeta_def)
  have "is_response (Evnt ?x)" "encode_msg C (Evnt ?x) \<noteq> None"
    using x(4) by (simp_all add: encode_msg_def encode_payload_def encode_raw_def)
  from response_sent [OF pubsub_platformD(1) [OF plat] this, of ?c] obtain c1 where
    "Send P srv 1 (Evnt ?x) ?c = Done c1" "c_sent c1 = c_sent ?c @ [Evnt ?x]" .
  moreover have "handleMessage E (encode_msg C (Evnt ?x)) cl = Inr (cl\<lparr>cl_handled := cl_handled cl @ [Received (Evnt ?x)]\<rparr>)"
    using handle_evnt [of E ?x v cl] m x(4) E pubsub_platformD(2) [OF plat] by simp
  ultimately show ?thesis using x by (auto simp: send_event_def)
qed

lemma subscription_kept:
  "x \<in> S \<Longrightarrow> UnsbOp (fst x) (fst (snd x)) (snd (snd x)) \<notin> set ops \<Longrightarrow> x \<in> fold spec_subs ops S"
proof (induction ops arbitrary: S)
  case (Cons op ops)
  have "x \<in> spec_subs op S"
  proof (cases op)
    case (UnsbOp j p c)
    then have "x \<noteq> (j, p, c)" using Cons.prems(2) by auto
    with UnsbOp Cons.prems(1) show ?thesis by simp
  qed (use Cons.prems(1) in simp_all)
  with Cons show ?case by simp
qed simp

section \<open>An instance of the service\<close>

text \<open>Patterns with \<^verbatim>\<open>*\<close> and \<^verbatim>\<open>?\<close>.\<close>

fun glob :: "string \<Rightarrow> string \<Rightarrow> bool" where
  "glob [] s = (s = [])"
| "glob (p # ps) [] = (p = CHR ''*'' \<and> glob ps [])"
| "glob (p # ps) (c # s) =
     (if p = CHR ''*'' then glob ps (c # s) \<or> glob (p # ps) s else (p = CHR ''?'' \<or> p = c) \<and> glob ps s)"

type_synonym mem_ps = "subscription list \<times> (nat \<Rightarrow> notification list)"

definition mem_subscribe :: "bool \<Rightarrow> bool \<Rightarrow> nat \<Rightarrow> string \<Rightarrow> mem_ps \<Rightarrow> err option \<times> mem_ps" where
  "mem_subscribe pat on i ch q =
     (case q of (S, inbox) \<Rightarrow>
        (None, (if on then (i, pat, ch) # S else removeAll (i, pat, ch) S), inbox(i := inbox i @ [Subscription])))"

definition mem_notes :: "subscription list \<Rightarrow> nat \<Rightarrow> string \<Rightarrow> wire \<Rightarrow> notification list" where
  "mem_notes S i ch p =
     map (note_of ch p \<circ> snd) (filter (\<lambda>x. fst x = i \<and> takes glob (fst (snd x)) (snd (snd x)) ch) (remdups S))"

definition mem_publish :: "string \<Rightarrow> wire \<Rightarrow> mem_ps \<Rightarrow> int result \<times> mem_ps" where
  "mem_publish ch p q =
     (case q of (S, inbox) \<Rightarrow> (Inr (int (length S)), S, (\<lambda>i. inbox i @ mem_notes S i ch p)))"

definition mem_pubsub :: "mem_ps pubsub" where
  "mem_pubsub =
     \<lparr>px_conn = (\<lambda>i. \<lparr>ps_Subscribe = mem_subscribe False True i, ps_Unsubscribe = mem_subscribe False False i,
         ps_PSubscribe = mem_subscribe True True i, ps_PUnsubscribe = mem_subscribe True False i\<rparr>),
      px_PUBLISH = mem_publish, px_subscribed = (\<lambda>i pat ch q. (i, pat, ch) \<in> set (fst q)), px_matches = glob,
      px_inbox = (\<lambda>i q. snd q i)\<rparr>"

lemma mem_notes_set:
  "set (mem_notes S i ch p) = notified mem_pubsub i ch p (S, inbox)" "distinct (mem_notes S i ch p)"
proof -
  have subs: "subs_of mem_pubsub (S, inbox) = set S" by (auto simp: subs_of_def mem_pubsub_def)
  show "set (mem_notes S i ch p) = notified mem_pubsub i ch p (S, inbox)"
    unfolding notified_eq subs mem_notes_def by (force simp: mem_pubsub_def)
  let ?F = "filter (\<lambda>x. fst x = i \<and> takes glob (fst (snd x)) (snd (snd x)) ch) (remdups S)"
  have "inj_on (note_of ch p \<circ> snd) (set ?F)"
    using note_of_inj [of ch p i "set S" glob] by (auto simp: inj_on_def)
  then show "distinct (mem_notes S i ch p)" by (simp add: mem_notes_def distinct_map)
qed

lemma pubsub_laws_mem: "pubsub_laws mem_pubsub"
proof -
  have "law_subscription mem_pubsub cmd pat on"
    if "\<And>i. cmd (px_conn mem_pubsub i) = mem_subscribe pat on i" for cmd pat on
    unfolding law_subscription_def that by (auto simp: mem_subscribe_def mem_pubsub_def split: prod.split)
  moreover have "law_PUBLISH mem_pubsub"
    unfolding law_PUBLISH_def
  proof (intro allI)
    fix ch p and q :: mem_ps
    obtain S inbox where q: "q = (S, inbox)" by fastforce
    have "px_PUBLISH mem_pubsub ch p q = (Inr (int (length S)), S, \<lambda>i. inbox i @ mem_notes S i ch p)"
      by (simp add: mem_pubsub_def mem_publish_def q)
    moreover have "px_inbox mem_pubsub i (S, \<lambda>i. inbox i @ mem_notes S i ch p) = px_inbox mem_pubsub i q @ mem_notes S i ch p" for i
      by (simp add: mem_pubsub_def q)
    moreover have "px_subscribed mem_pubsub j pat c (S, inbox') = px_subscribed mem_pubsub j pat c q" for j pat c inbox'
      by (simp add: mem_pubsub_def q)
    ultimately show "\<exists>n q'. px_PUBLISH mem_pubsub ch p q = (Inr n, q')
       \<and> (\<forall>j pat c. px_subscribed mem_pubsub j pat c q' = px_subscribed mem_pubsub j pat c q)
       \<and> (\<forall>i. \<exists>ns. px_inbox mem_pubsub i q' = px_inbox mem_pubsub i q @ ns \<and> distinct ns
              \<and> set ns = notified mem_pubsub i ch p q)"
      using mem_notes_set [of S _ ch p] unfolding q by blast
  qed
  ultimately show ?thesis unfolding pubsub_laws_def by (simp add: mem_pubsub_def)
qed

section \<open>Properties\<close>


definition example_psops :: "psop list" where
  "example_psops =
     [SubOp 1 True ''news.*'', PubOp ''news.go'' \<lparr>pp_MsgUUID = example_uuid, pp_Args = Some (JStr ''one'')\<rparr>,
      SubOp 1 False ''news.go'', UnsbOp 1 True ''news.*'',
      PubOp ''news.go'' \<lparr>pp_MsgUUID = example_uuid, pp_Args = Some (JStr ''two'')\<rparr>]"

lemma delivers_one: "delivers g ({x}, ch, pp) \<longleftrightarrow> g = [spec_event ch pp x]"
proof -
  have "distinct l \<and> set l = {x} \<longleftrightarrow> l = [x]" for l
    by (cases l; cases "tl l") auto
  then have "delivers g ({x}, ch, pp) \<longleftrightarrow> (\<exists>l. l = [x] \<and> g = map (spec_event ch pp) l)"
    unfolding delivers_def prod.case by (metis (no_types))
  then show ?thesis by simp
qed

lemma example_spec:
  "spec_events glob 1 example_psops {} =
     [({(True, ''news.*'')}, ''news.go'', \<lparr>pp_MsgUUID = example_uuid, pp_Args = Some (JStr ''one'')\<rparr>),
      ({(False, ''news.go'')}, ''news.go'', \<lparr>pp_MsgUUID = example_uuid, pp_Args = Some (JStr ''two'')\<rparr>)]"
proof -
  have "glob ''news.*'' ''news.go''" by code_simp
  then have "{(pat, sub). (1 :: nat, pat, sub) \<in> {(1, True, ''news.*'')} \<and> takes glob pat sub ''news.go''} = {(True, ''news.*'')}"
    by (auto simp: takes_def)
  moreover have "{(pat, sub). (1 :: nat, pat, sub) \<in> {(1, False, ''news.go'')} \<and> takes glob pat sub ''news.go''} = {(False, ''news.go'')}"
    by (auto simp: takes_def)
  moreover have "insert (1 :: nat, False, ''news.go'') {(1, True, ''news.*'')} - {(1, True, ''news.*'')} = {(1, False, ''news.go'')}"
    by auto
  ultimately show ?thesis unfolding example_psops_def by (simp only: spec_events.simps spec_step.simps spec_subs.simps append.simps)
qed


end
