(* ===== verification/Server_Config.thy ===== *)
theory Server_Config
  imports Redis_Broker Srvhandler
begin

text \<open>
  The command \<^verbatim>\<open>juggler-server\<close> (\<^verbatim>\<open>cmd/juggler-server\<close>): its configuration, the check
  of the redis section, the construction of pools, brokers, server, upgrader and HTTP server,
  and \<^verbatim>\<open>main\<close> up to the moment it serves. The YAML decoder, the file system and the
  connections to redis are arguments. A nil pointer is \<open>None\<close>, and its dereference a panic.
\<close>

section \<open>The configuration\<close>

datatype Redis =
  Redis (rc_Addr: string) (rc_MaxActive: int) (rc_MaxIdle: int) (rc_IdleTimeout: duration)
    (rc_PubSub: "Redis option") (rc_Caller: "Redis option")

record CallerBroker =
  cb_BlockingTimeout :: duration
  cb_CallCap :: int

record ServerConf =
  sc_Addr :: string
  sc_Paths :: "string list"
  sc_MaxHeaderBytes :: int
  sc_ReadBufferSize :: int
  sc_WriteBufferSize :: int
  sc_HandshakeTimeout :: duration
  sc_WhitelistedOrigins :: "string list"
  sc_ReadLimit :: int
  sc_ReadTimeout :: duration
  sc_WriteLimit :: int
  sc_WriteTimeout :: duration
  sc_AcquireWriteLockTimeout :: duration
  sc_AllowEmptySubprotocol :: bool
  sc_CloseURI :: string
  sc_PanicURI :: string
  sc_SlowProcessMsgThreshold :: duration

record Config =
  cf_Redis :: "Redis option"
  cf_CallerBroker :: "CallerBroker option"
  cf_Server :: "ServerConf option"

text \<open>The flags.\<close>

record flags =
  fl_allowEmptyProto :: bool
  fl_config :: string
  fl_help :: bool
  fl_noLog :: bool
  fl_port :: int
  fl_redisAddr :: string
  fl_redisCluster :: bool
  fl_redisMaxIdle :: int

definition getDefaultConfig :: "flags \<Rightarrow> duration \<Rightarrow> Config" where
  "getDefaultConfig F threshold =
     \<lparr>cf_Redis = Some (Redis (fl_redisAddr F) 0 (fl_redisMaxIdle F) 0 None None),
      cf_CallerBroker = Some \<lparr>cb_BlockingTimeout = 0, cb_CallCap = 0\<rparr>,
      cf_Server = Some
        \<lparr>sc_Addr = '':'' @ Itoa (fl_port F), sc_Paths = [''/ws''], sc_MaxHeaderBytes = 0,
         sc_ReadBufferSize = 0, sc_WriteBufferSize = 0, sc_HandshakeTimeout = 0,
         sc_WhitelistedOrigins = [], sc_ReadLimit = 0, sc_ReadTimeout = 0, sc_WriteLimit = 0,
         sc_WriteTimeout = 0, sc_AcquireWriteLockTimeout = 0,
         sc_AllowEmptySubprotocol = fl_allowEmptyProto F, sc_CloseURI = '''', sc_PanicURI = '''',
         sc_SlowProcessMsgThreshold = threshold\<rparr>\<rparr>"

text \<open>A reader gives its bytes or an error; \<open>yaml\<close> is \<^verbatim>\<open>yaml.Unmarshal\<close> onto a
  configuration, and \<open>open_file\<close> is \<^verbatim>\<open>os.Open\<close>.\<close>

definition getConfigFromReader ::
  "(string \<Rightarrow> Config \<Rightarrow> Config result) \<Rightarrow> flags \<Rightarrow> duration \<Rightarrow> string result option \<Rightarrow> Config result" where
  "getConfigFromReader yaml F threshold r =
     (let conf = getDefaultConfig F threshold in
      case r of
        None \<Rightarrow> Inr conf
      | Some (Inl e) \<Rightarrow> Inl e
      | Some (Inr b) \<Rightarrow> yaml b conf)"

definition getConfigFromFile ::
  "(string \<Rightarrow> Config \<Rightarrow> Config result) \<Rightarrow> (string \<Rightarrow> string result result) \<Rightarrow> flags \<Rightarrow> duration \<Rightarrow> string
     \<Rightarrow> Config result" where
  "getConfigFromFile yaml open_file F threshold file =
     (if file = '''' then getConfigFromReader yaml F threshold None
      else case open_file file of
             Inl e \<Rightarrow> Inl e
           | Inr f \<Rightarrow> getConfigFromReader yaml F threshold (Some f))"

definition isZeroRedis :: "Redis option \<Rightarrow> bool" where
  "isZeroRedis rc =
     (case rc of
        None \<Rightarrow> True
      | Some r \<Rightarrow> Redis (rc_Addr r) (rc_MaxActive r) (rc_MaxIdle r) (rc_IdleTimeout r) None None
                  = Redis '''' 0 0 0 None None)"

definition no_addr :: "Redis option \<Rightarrow> bool" where
  "no_addr rc = (case rc of None \<Rightarrow> True | Some r \<Rightarrow> rc_Addr r = '''')"

text \<open>\<^verbatim>\<open>checkRedisConfig\<close>, with the section as the check leaves it.\<close>

definition checkRedisConfig :: "flags \<Rightarrow> Redis option \<Rightarrow> panic + err option \<times> Redis" where
  "checkRedisConfig F conf =
     (case conf of
        None \<Rightarrow> Inl nil_dereference
      | Some c \<Rightarrow>
          Inr (if \<not> isZeroRedis (rc_PubSub c) \<or> \<not> isZeroRedis (rc_Caller c)
           then if no_addr (rc_PubSub c) \<or> no_addr (rc_Caller c)
             then (Some (ErrText ''both redis.pubsub and redis.caller sections must be configured''), c)
             else
               let c = (if rc_Addr c = fl_redisAddr F
                        then Redis '''' (rc_MaxActive c) (rc_MaxIdle c) (rc_IdleTimeout c) (rc_PubSub c) (rc_Caller c)
                        else c) in
               if \<not> isZeroRedis (Some c)
               then (Some (ErrText ''redis must not be configured if redis.pubsub and redis.caller are configured''), c)
               else (None, c)
           else (None, c)))"

section \<open>Construction\<close>

text \<open>A pool, by its settings and the address it dials.\<close>

record redis_pool =
  rp_Addr :: string
  rp_MaxIdle :: int
  rp_MaxActive :: int
  rp_IdleTimeout :: duration

text \<open>\<^verbatim>\<open>redisPoolCreateFunc\<close>; \<open>ping\<close> is the outcome of the first PING to an address.\<close>

definition redisPoolCreateFunc ::
  "(string \<Rightarrow> err option) \<Rightarrow> Redis option \<Rightarrow> string \<Rightarrow> panic + redis_pool result" where
  "redisPoolCreateFunc ping conf addr =
     (case conf of
        None \<Rightarrow> Inl nil_dereference
      | Some c \<Rightarrow>
          let p = \<lparr>rp_Addr = addr, rp_MaxIdle = rc_MaxIdle c, rp_MaxActive = rc_MaxActive c,
                   rp_IdleTimeout = rc_IdleTimeout c\<rparr> in
          Inr (case ping addr of Some e \<Rightarrow> Inl e | None \<Rightarrow> Inr p))"

text \<open>What backs a broker: a pool, or a cluster known by its startup node.\<close>

datatype backend = Pool redis_pool | Cluster string

definition newRedisCluster :: "(string \<Rightarrow> err option) \<Rightarrow> string \<Rightarrow> backend \<times> err option" where
  "newRedisCluster refresh addr = (Cluster addr, refresh addr)"

definition newPubSubBroker :: Broker where
  "newPubSubBroker = \<lparr>BlockingTimeout = 0, CallCap = 0, ResultCap = 0, Broker_Vars = None\<rparr>"

definition newCallerBroker :: "CallerBroker option \<Rightarrow> panic + Broker" where
  "newCallerBroker conf =
     (case conf of
        None \<Rightarrow> Inl nil_dereference
      | Some c \<Rightarrow> Inr \<lparr>BlockingTimeout = cb_BlockingTimeout c, CallCap = cb_CallCap c, ResultCap = 0,
                       Broker_Vars = None\<rparr>)"

text \<open>\<^verbatim>\<open>newServer\<close>: the server, and the package variable \<^verbatim>\<open>Subprotocols\<close> it may extend.\<close>

definition newServer :: "ServerConf \<Rightarrow> bool \<Rightarrow> string list \<Rightarrow> ('c, 'b) Server \<times> string list" where
  "newServer conf noLog subprotocols =
     (\<lparr>srv_ReadLimit = sc_ReadLimit conf, srv_ReadTimeout = sc_ReadTimeout conf,
       srv_WriteLimit = sc_WriteLimit conf, srv_WriteTimeout = sc_WriteTimeout conf,
       srv_AcquireWriteLockTimeout = sc_AcquireWriteLockTimeout conf, srv_ConnState = (\<not> noLog),
       srv_Handler = None\<rparr>,
      if sc_AllowEmptySubprotocol conf then subprotocols @ [''''] else subprotocols)"

record Upgrader =
  up_HandshakeTimeout :: duration
  up_ReadBufferSize :: int
  up_WriteBufferSize :: int
  up_Subprotocols :: "string list"
  up_CheckOrigin :: "(string \<Rightarrow> bool) option"

fun isIn_str :: "string list \<Rightarrow> string \<Rightarrow> bool" where
  "isIn_str [] v = False"
| "isIn_str (vv # list) v = (if v = vv then True else isIn_str list v)"

definition newUpgrader :: "ServerConf \<Rightarrow> string list \<Rightarrow> Upgrader" where
  "newUpgrader conf subprotocols =
     \<lparr>up_HandshakeTimeout = sc_HandshakeTimeout conf, up_ReadBufferSize = sc_ReadBufferSize conf,
      up_WriteBufferSize = sc_WriteBufferSize conf, up_Subprotocols = subprotocols,
      up_CheckOrigin =
        (if sc_WhitelistedOrigins conf \<noteq> [] then Some (isIn_str (sc_WhitelistedOrigins conf)) else None)\<rparr>"

record http_server =
  hs_Addr :: string
  hs_ReadTimeout :: duration
  hs_WriteTimeout :: duration
  hs_MaxHeaderBytes :: int

definition newHTTPServer :: "ServerConf \<Rightarrow> http_server" where
  "newHTTPServer conf =
     \<lparr>hs_Addr = sc_Addr conf, hs_ReadTimeout = sc_ReadTimeout conf, hs_WriteTimeout = sc_WriteTimeout conf,
      hs_MaxHeaderBytes = sc_MaxHeaderBytes conf\<rparr>"

text \<open>\<^verbatim>\<open>http.Handle\<close> on the default mux, given the patterns that it has: it panics on an
  empty pattern and on one that is registered.\<close>

fun http_Handle :: "string list \<Rightarrow> string list \<Rightarrow> panic + string list" where
  "http_Handle mux [] = Inr mux"
| "http_Handle mux (p # ps) =
     (if p = '''' then Inl (PanicValue ''http: invalid pattern '')
      else if p \<in> set mux then Inl (PanicValue (''http: multiple registrations for '' @ p))
      else http_Handle (mux @ [p]) ps)"

section \<open>The main function\<close>

text \<open>What \<^verbatim>\<open>main\<close> has set up when it listens.\<close>

record ('c, 'b) running =
  rn_pubsub :: backend
  rn_caller :: backend
  rn_psb :: Broker
  rn_cb :: Broker
  rn_server :: "('c, 'b) Server"
  rn_threshold :: duration
  rn_upgrader :: Upgrader
  rn_mux :: "string list"
  rn_http :: http_server

datatype ('c, 'b) main_end = Help | Exit int | Fatal err | Crash panic | Serves "('c, 'b) running"

text \<open>What \<^verbatim>\<open>main\<close> runs on.\<close>

record ('c, 'b) world =
  w_yaml :: "string \<Rightarrow> Config \<Rightarrow> Config result"
  w_open :: "string \<Rightarrow> string result result"
  w_ping :: "string \<Rightarrow> err option"
  w_refresh :: "string \<Rightarrow> err option"
  w_mux :: "string list"
  w_platform :: "('c, 'b) platform"
  w_control :: "duration option \<Rightarrow> 'c \<Rightarrow> err option \<times> 'c"

text \<open>The pools of the checked redis section.\<close>

definition main_backends ::
  "('c, 'b) world \<Rightarrow> flags \<Rightarrow> Redis \<Rightarrow> ('c, 'b) main_end + backend \<times> backend" where
  "main_backends W F conf =
     (if rc_Addr conf \<noteq> '''' then
        if fl_redisCluster F then
          (case newRedisCluster (w_refresh W) (rc_Addr conf) of
             (_, Some e) \<Rightarrow> Inl (Fatal (ErrWrap ''failed to connect to redis cluster'' e))
           | (c, None) \<Rightarrow> Inr (c, c))
        else
          (case redisPoolCreateFunc (w_ping W) (Some conf) (rc_Addr conf) of
             Inl p \<Rightarrow> Inl (Crash p)
           | Inr (Inl e) \<Rightarrow> Inl (Fatal (ErrWrap ''failed to connect to redis pool'' e))
           | Inr (Inr p) \<Rightarrow> Inr (Pool p, Pool p))
      else if fl_redisCluster F then Inl (Exit 4)
      else
        case (rc_PubSub conf, rc_Caller conf) of
          (Some ps, Some ca) \<Rightarrow>
            (case (redisPoolCreateFunc (w_ping W) (Some ps) (rc_Addr ps),
                   redisPoolCreateFunc (w_ping W) (Some ca) (rc_Addr ca)) of
               (Inr (Inr pp), Inr (Inr pc)) \<Rightarrow> Inr (Pool pp, Pool pc)
             | (Inr (Inl e), Inr _) \<Rightarrow> Inl (Fatal (ErrWrap ''failed to connect to redis pool'' e))
             | (Inr (Inr _), Inr (Inl e)) \<Rightarrow> Inl (Fatal (ErrWrap ''failed to connect to redis pool'' e))
             | (Inl p, _) \<Rightarrow> Inl (Crash p)
             | (_, Inl p) \<Rightarrow> Inl (Crash p))
        | _ \<Rightarrow> Inl (Crash nil_dereference))"

definition main_serve ::
  "('c, 'b) world \<Rightarrow> flags \<Rightarrow> Config \<Rightarrow> backend \<times> backend \<Rightarrow> ('c, 'b) main_end" where
  "main_serve W F conf pools =
     (case newCallerBroker (cf_CallerBroker conf) of
        Inl p \<Rightarrow> Crash p
      | Inr cb \<Rightarrow>
          (case cf_Server conf of
             None \<Rightarrow> Crash nil_dereference
           | Some sc \<Rightarrow>
               (case newServer sc (fl_noLog F) Subprotocols of (srv, subprotocols) \<Rightarrow>
                  let P = (w_platform W)\<lparr>pf_threshold := sc_SlowProcessMsgThreshold sc\<rparr>;
                      h = newHandler P srv (w_control W) (sc_CloseURI sc) (sc_PanicURI sc)
                            (sc_WriteTimeout sc) (fl_noLog F) in
                  case http_Handle (w_mux W) (sc_Paths sc) of
                    Inl p \<Rightarrow> Crash p
                  | Inr mux \<Rightarrow>
                      Serves \<lparr>rn_pubsub = fst pools, rn_caller = snd pools, rn_psb = newPubSubBroker,
                        rn_cb = cb, rn_server = srv\<lparr>srv_Handler := Some h\<rparr>,
                        rn_threshold = sc_SlowProcessMsgThreshold sc,
                        rn_upgrader = newUpgrader sc subprotocols, rn_mux = mux,
                        rn_http = newHTTPServer sc\<rparr>)))"

definition main :: "('c, 'b) world \<Rightarrow> flags \<Rightarrow> ('c, 'b) main_end" where
  "main W F =
     (if fl_help F then Help
      else case getConfigFromFile (w_yaml W) (w_open W) F (pf_threshold (w_platform W)) (fl_config F) of
        Inl e \<Rightarrow> Exit 1
      | Inr conf \<Rightarrow>
          (case checkRedisConfig F (cf_Redis conf) of
             Inl p \<Rightarrow> Crash p
           | Inr (Some e, _) \<Rightarrow> Exit 3
           | Inr (None, rc) \<Rightarrow>
               (case main_backends W F rc of
                  Inl out \<Rightarrow> out
                | Inr pools \<Rightarrow> main_serve W F (conf\<lparr>cf_Redis := Some rc\<rparr>) pools)))"

section \<open>Lemmas\<close>

lemma isIn_str_set [simp]: "isIn_str list v \<longleftrightarrow> v \<in> set list"
  by (induction list) auto

lemma isInStr_set [simp]: "isInStr list v \<longleftrightarrow> v \<in> set list"
  by (induction list) auto

lemma isZeroRedis_Some [simp]:
  "isZeroRedis (Some r) \<longleftrightarrow> rc_Addr r = '''' \<and> rc_MaxActive r = 0 \<and> rc_MaxIdle r = 0 \<and> rc_IdleTimeout r = 0"
  "isZeroRedis None"
  by (simp_all add: isZeroRedis_def)

lemma http_Handle_fresh:
  assumes "distinct (mux @ ps)" and "'''' \<notin> set ps"
  shows "http_Handle mux ps = Inr (mux @ ps)"
  using assms by (induction ps arbitrary: mux) auto

text \<open>The sections for different pools, as the check demands them.\<close>

definition split_config :: "flags \<Rightarrow> Redis \<Rightarrow> Redis \<Rightarrow> Redis \<Rightarrow> bool" where
  "split_config F c ps ca \<longleftrightarrow>
     rc_PubSub c = Some ps \<and> rc_Caller c = Some ca \<and> rc_Addr ps \<noteq> '''' \<and> rc_Addr ca \<noteq> ''''
     \<and> (rc_Addr c = '''' \<or> rc_Addr c = fl_redisAddr F)
     \<and> rc_MaxActive c = 0 \<and> rc_MaxIdle c = 0 \<and> rc_IdleTimeout c = 0"

lemma check_accepts:
  "checkRedisConfig F (Some c) = Inr (None, c') \<longleftrightarrow>
     isZeroRedis (rc_PubSub c) \<and> isZeroRedis (rc_Caller c) \<and> c' = c
     \<or> (\<exists>ps ca. split_config F c ps ca \<and> c' = Redis '''' 0 0 0 (Some ps) (Some ca))"
proof (cases "isZeroRedis (rc_PubSub c) \<and> isZeroRedis (rc_Caller c)")
  case True
  then have "\<not> split_config F c ps ca" for ps ca by (auto simp: split_config_def)
  with True show ?thesis by (simp add: checkRedisConfig_def eq_commute)
next
  case False
  let ?c = "if rc_Addr c = fl_redisAddr F
    then Redis '''' (rc_MaxActive c) (rc_MaxIdle c) (rc_IdleTimeout c) (rc_PubSub c) (rc_Caller c) else c"
  have zero: "isZeroRedis (Some ?c) \<longleftrightarrow>
      (rc_Addr c = '''' \<or> rc_Addr c = fl_redisAddr F) \<and> rc_MaxActive c = 0 \<and> rc_MaxIdle c = 0 \<and> rc_IdleTimeout c = 0"
    by simp
  have eq: "?c = Redis '''' 0 0 0 (rc_PubSub c) (rc_Caller c)" if "isZeroRedis (Some ?c)"
    using that by (cases c) (simp split: if_splits)
  have check: "checkRedisConfig F (Some c) = Inr (None, c') \<longleftrightarrow>
      \<not> no_addr (rc_PubSub c) \<and> \<not> no_addr (rc_Caller c) \<and> isZeroRedis (Some ?c) \<and> c' = ?c"
    using False unfolding checkRedisConfig_def Let_def by (simp add: eq_commute del: isZeroRedis_Some)
  show ?thesis unfolding check using False eq zero
    by (cases "rc_PubSub c"; cases "rc_Caller c") (auto simp: no_addr_def split_config_def simp del: isZeroRedis_Some)
qed

text \<open>What serving sets up, and what the upgrader lets through.\<close>

lemma main_serve_run:
  fixes W :: "('c, 'b) world"
  assumes "cf_CallerBroker conf = Some cb" and "cf_Server conf = Some sc"
    and "distinct (w_mux W @ sc_Paths sc)" and "'''' \<notin> set (sc_Paths sc)"
  shows "\<exists>run. main_serve W F conf (b1, b2) = Serves run \<and> rn_pubsub run = b1 \<and> rn_caller run = b2
    \<and> CallCap (rn_cb run) = cb_CallCap cb \<and> BlockingTimeout (rn_cb run) = cb_BlockingTimeout cb
    \<and> srv_WriteLimit (rn_server run) = sc_WriteLimit sc \<and> srv_ReadLimit (rn_server run) = sc_ReadLimit sc
    \<and> srv_Handler (rn_server run) \<noteq> None \<and> rn_threshold run = sc_SlowProcessMsgThreshold sc
    \<and> rn_mux run = w_mux W @ sc_Paths sc
    \<and> rn_upgrader run = newUpgrader sc (snd (newServer sc (fl_noLog F) Subprotocols :: ('c, 'b) Server \<times> _))"
  by (simp add: main_serve_def newCallerBroker_def newServer_def assms http_Handle_fresh [OF assms(3,4)] Let_def)

lemma upgrader_subprotocols:
  "Upgrade (up_Subprotocols (newUpgrader sc (snd (newServer sc noLog Subprotocols)))) (Some p) header \<noteq> None
     \<longleftrightarrow> p = ''juggler.0'' \<or> sc_AllowEmptySubprotocol sc \<and> p = ''''"
  by (auto simp: newUpgrader_def newServer_def Upgrade_def Subprotocols_def)

lemma upgrader_origins:
  "up_CheckOrigin (newUpgrader sc subs) = Some f \<longrightarrow> f origin = (origin \<in> set (sc_WhitelistedOrigins sc))"
  "up_CheckOrigin (newUpgrader sc subs) = None \<longleftrightarrow> sc_WhitelistedOrigins sc = []"
  by (auto simp: newUpgrader_def split: if_splits)

text \<open>
  The redis section is accepted exactly when neither sub-section is configured, or when
  both have an address and the section itself has no settings, its address being left out or
  the one of the flag; a refused one is one of two errors; and a missing section is a panic.
  So with the idle connections of the flag set, which the default configuration takes over, no
  configuration with sub-sections is accepted unless it resets them.
\<close>

lemma redis_config_checked:
  "((\<exists>c'. checkRedisConfig F (Some c) = Inr (None, c')) \<longleftrightarrow>
      isZeroRedis (rc_PubSub c) \<and> isZeroRedis (rc_Caller c)
      \<or> (\<exists>ps ca. rc_PubSub c = Some ps \<and> rc_Caller c = Some ca \<and> rc_Addr ps \<noteq> '''' \<and> rc_Addr ca \<noteq> ''''
           \<and> (rc_Addr c = '''' \<or> rc_Addr c = fl_redisAddr F)
           \<and> rc_MaxActive c = 0 \<and> rc_MaxIdle c = 0 \<and> rc_IdleTimeout c = 0))
   \<and> checkRedisConfig F (Some c) \<noteq> Inl p \<and> checkRedisConfig F None = Inl nil_dereference"
proof -
  have "checkRedisConfig F (Some c) \<noteq> Inl p" "checkRedisConfig F None = Inl nil_dereference"
    by (simp_all add: checkRedisConfig_def)
  then show ?thesis unfolding check_accepts split_config_def by blast
qed

section \<open>Properties\<close>


definition example_flags :: flags where
  "example_flags =
     \<lparr>fl_allowEmptyProto = False, fl_config = '''', fl_help = False, fl_noLog = False, fl_port = 9000,
      fl_redisAddr = '':6379'', fl_redisCluster = False, fl_redisMaxIdle = 0\<rparr>"

definition example_world :: "(string list, nat) world" where
  "example_world =
     \<lparr>w_yaml = (\<lambda>_ c. Inr c), w_open = (\<lambda>_. Inl (ErrText ''no such file'')), w_ping = (\<lambda>_. None),
      w_refresh = (\<lambda>_. None), w_mux = [''/debug/vars''], w_platform = example_platform,
      w_control = (\<lambda>_ c. (None, c))\<rparr>"

lemma example_loads:
  "getConfigFromFile (w_yaml example_world) (w_open example_world) example_flags t (fl_config example_flags)
     = Inr (getDefaultConfig example_flags t)"
  by (simp add: getConfigFromFile_def getConfigFromReader_def example_flags_def)


text \<open>
  Configurations that the check accepts and that the command does not survive: with a
  redis section whose address is empty and that has no sub-sections, the check passes and
  \<^verbatim>\<open>main\<close> dereferences the missing section; it does the same, before or after the check, when
  one of the sections of the configuration is missing (a null in the file).
\<close>

theorem empty_redis_config_crashes:
  assumes "\<not> fl_help F" and "\<not> fl_redisCluster F"
    and "getConfigFromFile (w_yaml W) (w_open W) F (pf_threshold (w_platform W)) (fl_config F) = Inr conf"
    and "cf_Redis conf = None
      \<or> (\<exists>a i t. cf_Redis conf = Some (Redis '''' a i t None None))
      \<or> (\<exists>rc. cf_Redis conf = Some rc \<and> rc_Addr rc \<noteq> '''' \<and> rc_PubSub rc = None \<and> rc_Caller rc = None
           \<and> w_ping W (rc_Addr rc) = None \<and> (cf_CallerBroker conf = None \<or> cf_Server conf = None))"
  shows "main W F = Crash nil_dereference
    \<and> checkRedisConfig F (Some (Redis '''' a i t None None)) = Inr (None, Redis '''' a i t None None)"
proof -
  have ok: "checkRedisConfig F (Some rc) = Inr (None, rc)" if "rc_PubSub rc = None" "rc_Caller rc = None" for rc
    using that by (simp add: checkRedisConfig_def)
  have "main W F = Crash nil_dereference"
    using assms(4)
  proof (elim disjE exE conjE)
    assume "cf_Redis conf = None"
    then show ?thesis using assms(1,3) by (simp add: main_def checkRedisConfig_def)
  next
    fix a i t assume "cf_Redis conf = Some (Redis '''' a i t None None)"
    then show ?thesis using assms(1-3) ok by (simp add: main_def main_backends_def)
  next
    fix rc assume rc: "cf_Redis conf = Some rc" "rc_Addr rc \<noteq> ''''" "rc_PubSub rc = None" "rc_Caller rc = None"
      "w_ping W (rc_Addr rc) = None" and m: "cf_CallerBroker conf = None"
    then show ?thesis using assms(1-3) ok [OF rc(3,4)]
      by (simp add: main_def main_backends_def redisPoolCreateFunc_def main_serve_def newCallerBroker_def Let_def)
  next
    fix rc assume rc: "cf_Redis conf = Some rc" "rc_Addr rc \<noteq> ''''" "rc_PubSub rc = None" "rc_Caller rc = None"
      "w_ping W (rc_Addr rc) = None" and m: "cf_Server conf = None"
    then show ?thesis using assms(1-3) ok [OF rc(3,4)]
      by (cases "cf_CallerBroker conf")
        (simp_all add: main_def main_backends_def redisPoolCreateFunc_def main_serve_def newCallerBroker_def Let_def)
  qed
  with ok show ?thesis by simp
qed

theorem empty_redis_config_crashes_witness:
  "main (example_world\<lparr>w_open := \<lambda>_. Inr (Inr ''redis:''), w_yaml := \<lambda>_ c. Inr (c\<lparr>cf_Redis := Some (Redis '''' 0 0 0 None None)\<rparr>)\<rparr>)
     (example_flags\<lparr>fl_config := ''server.yml''\<rparr>) = Crash nil_dereference"
  (is "main ?W ?F = _")
proof -
  let ?conf = "(getDefaultConfig ?F (pf_threshold (w_platform ?W)))\<lparr>cf_Redis := Some (Redis '''' 0 0 0 None None)\<rparr>"
  have "getConfigFromFile (w_yaml ?W) (w_open ?W) ?F (pf_threshold (w_platform ?W)) (fl_config ?F) = Inr ?conf"
    by (simp add: getConfigFromFile_def getConfigFromReader_def)
  from empty_redis_config_crashes [OF _ _ this] show ?thesis
    by (simp add: example_flags_def)
qed

end
