(* ===== verification/Callee_Command.thy ===== *)
theory Callee_Command
  imports Callee Server_Config "HOL-Library.Multiset"
begin

text \<open>
  The test callee (\<^verbatim>\<open>cmd/juggler-callee/main.go\<close>): its three thunks, the loop of a worker
  with its metrics, and the set-up of the workers in \<^verbatim>\<open>main\<close>. The records of a redis pool
  are those of the server command. Parameters: the grouping of keys by hash slot and the
  cluster of \<^verbatim>\<open>redisc\<close>, and \<^verbatim>\<open>strconv.Quote\<close>, whose tables of printable runes only
  matter for an error text.
\<close>

section \<open>Runes\<close>

text \<open>The conversion of a string to \<^verbatim>\<open>[]rune\<close>; a rune is given by its UTF-8 encoding, so
  that the conversion back is the concatenation.\<close>

fun runes :: "string \<Rightarrow> string list" where
  "runes [] = []"
| "runes (a # s) =
     (case rune_len (a # s) of
        0 \<Rightarrow> replacement # runes s
      | Suc n \<Rightarrow> (a # take n s) # runes (drop n s))"

text \<open>The loop of \<^verbatim>\<open>reverse\<close> with its two indices.\<close>

function reverse_loop :: "int \<Rightarrow> int \<Rightarrow> 'a list \<Rightarrow> 'a list" where
  "reverse_loop i j chars =
     (if i < j then
        reverse_loop (i + 1) (j - 1) (chars[nat i := chars ! nat j, nat j := chars ! nat i])
      else chars)"
  by pat_completeness auto
termination
  by (relation "measure (\<lambda>(i, j, chars). nat (j - i))") auto

declare reverse_loop.simps [simp del]

definition reverse :: "string \<Rightarrow> string" where
  "reverse s = concat (reverse_loop 0 (int (length (runes s)) - 1) (runes s))"

definition echo :: "string \<Rightarrow> string" where
  "echo s = s"

text \<open>\<^verbatim>\<open>delay\<close>: its value and how long it sleeps.\<close>

definition delay :: "int \<Rightarrow> int \<times> duration" where
  "delay i = (i, max 0 (i64 (i * Millisecond)))"

section \<open>Thunks\<close>

text \<open>\<^verbatim>\<open>json.Unmarshal\<close> of the arguments into a new string: the text of the error, or the
  string.\<close>

definition args_string :: "raw \<Rightarrow> string + string" where
  "args_string args =
     (let wrong = (\<lambda>v. Inl (''json: cannot unmarshal '' @ v @ '' into Go value of type string'')) in
      case args of
        None \<Rightarrow> Inl ''unexpected end of JSON input''
      | Some (JStr s) \<Rightarrow> Inr s
      | Some JNull \<Rightarrow> Inr ''''
      | Some (JBool b) \<Rightarrow> wrong ''bool''
      | Some (JNum t) \<Rightarrow> wrong ''number''
      | Some (JArr js) \<Rightarrow> wrong ''array''
      | Some (JObj fs) \<Rightarrow> wrong ''object'')"

definition thunk_failed :: "string \<Rightarrow> duration \<Rightarrow> thunk_result" where
  "thunk_failed e d = \<lparr>tr_value = None, tr_err = Some (PlainErr e), tr_elapsed = d\<rparr>"

text \<open>The thunks; \<open>lag\<close> is the time that a call takes beside sleeping.\<close>

definition delayThunk :: "(string \<Rightarrow> string) \<Rightarrow> (callPayload \<Rightarrow> duration) \<Rightarrow> Thunk" where
  "delayThunk quote lag cp =
     (case args_string (cp_Args cp) of
        Inl e \<Rightarrow> thunk_failed e (lag cp)
      | Inr s \<Rightarrow>
          (case ParseInt s of
             None \<Rightarrow> thunk_failed (atoi_error quote s) (lag cp)
           | Some i \<Rightarrow>
               (case delay i of (v, d) \<Rightarrow>
                  \<lparr>tr_value = Some (encode_int v), tr_err = None, tr_elapsed = lag cp + d\<rparr>)))"

definition reverseThunk :: "(callPayload \<Rightarrow> duration) \<Rightarrow> Thunk" where
  "reverseThunk lag cp =
     (case args_string (cp_Args cp) of
        Inl e \<Rightarrow> thunk_failed e (lag cp)
      | Inr s \<Rightarrow> \<lparr>tr_value = Some (encode_string (reverse s)), tr_err = None, tr_elapsed = lag cp\<rparr>)"

definition echoThunk :: "(callPayload \<Rightarrow> duration) \<Rightarrow> Thunk" where
  "echoThunk lag cp =
     (case args_string (cp_Args cp) of
        Inl e \<Rightarrow> thunk_failed e (lag cp)
      | Inr s \<Rightarrow> \<lparr>tr_value = Some (encode_string (echo s)), tr_err = None, tr_elapsed = lag cp\<rparr>)"

definition uris :: "(string \<Rightarrow> string) \<Rightarrow> (callPayload \<Rightarrow> duration) \<Rightarrow> (string \<times> Thunk) list" where
  "uris quote lag =
     [(''test.echo'', echoThunk lag), (''test.reverse'', reverseThunk lag), (''test.delay'', delayThunk quote lag)]"

definition delay_uris ::
  "(string \<Rightarrow> string) \<Rightarrow> (callPayload \<Rightarrow> duration) \<Rightarrow> int \<Rightarrow> (string \<times> Thunk) list \<Rightarrow> (string \<times> Thunk) list" where
  "delay_uris quote lag n us =
     foldl (\<lambda>us i. AList.update (''test.delay.'' @ Itoa (int i)) (delayThunk quote lag) us) us [0..<nat n]"

section \<open>Workers\<close>

text \<open>One turn of a worker for the call it took from the channel.\<close>

definition worker_turn ::
  "'b store \<Rightarrow> (string \<times> Thunk) list \<Rightarrow> callPayload \<Rightarrow> vars \<times> 'b \<Rightarrow> panic + vars \<times> 'b" where
  "worker_turn store us cp st =
     (let count = (\<lambda>k l v. vars_add (l @ ''.'' @ cp_URI cp) 1 (vars_add k 1 v));
          v = count ''Requests'' ''Requests'' (fst st) in
      case map_of us (cp_URI cp) of
        None \<Rightarrow> Inl nil_dereference
      | Some fn \<Rightarrow>
          (case InvokeAndStoreResult store cp fn (snd st) of
             (Some e, s) \<Rightarrow>
               if e \<noteq> ErrCallExpired then Inr (count ''Failed'' ''Failed'' v, s)
               else Inr (count ''Expired'' ''Expired'' v, s)
           | (None, s) \<Rightarrow> Inr (count ''Succeeded'' ''Succeded'' v, s)))"

fun worker ::
  "'b store \<Rightarrow> (string \<times> Thunk) list \<Rightarrow> callPayload list \<Rightarrow> vars \<times> 'b \<Rightarrow> panic + vars \<times> 'b" where
  "worker store us [] st = Inr st"
| "worker store us (cp # ch) st =
     (case worker_turn store us cp st of Inl p \<Rightarrow> Inl p | Inr st' \<Rightarrow> worker store us ch st')"

section \<open>The main function\<close>

record callee_flags =
  ef_brokerBlockingTimeout :: duration
  ef_brokerResultCap :: int
  ef_help :: bool
  ef_numDelayURIs :: int
  ef_redisAddr :: string
  ef_redisCluster :: bool
  ef_redisPoolIdleTimeout :: duration
  ef_redisPoolMaxActive :: int
  ef_redisPoolMaxIdle :: int
  ef_workers :: int

definition callee_newBroker :: "callee_flags \<Rightarrow> vars \<Rightarrow> Broker" where
  "callee_newBroker F v =
     \<lparr>BlockingTimeout = ef_brokerBlockingTimeout F, CallCap = 0, ResultCap = ef_brokerResultCap F,
      Broker_Vars = v\<rparr>"

definition callee_newRedisCluster :: "(string \<Rightarrow> err option) \<Rightarrow> string \<Rightarrow> backend \<times> err option" where
  "callee_newRedisCluster refresh addr = (Cluster addr, refresh addr)"

definition callee_newRedisPool :: "callee_flags \<Rightarrow> string \<Rightarrow> redis_pool" where
  "callee_newRedisPool F addr =
     \<lparr>rp_Addr = addr, rp_MaxIdle = ef_redisPoolMaxIdle F, rp_MaxActive = ef_redisPoolMaxActive F,
      rp_IdleTimeout = ef_redisPoolIdleTimeout F\<rparr>"

text \<open>The connections made for the groups of keys, with the number of workers of each.\<close>

fun start_workers ::
  "(string list \<Rightarrow> 'k result) \<Rightarrow> int \<Rightarrow> string list list \<Rightarrow> err + ('k \<times> int) list" where
  "start_workers connect n [] = Inr []"
| "start_workers connect n (keys # rest) =
     (case connect keys of
        Inl e \<Rightarrow> Inl (ErrWrap ''Calls failed'' e)
      | Inr cc \<Rightarrow> map_sum id (Cons (cc, n)) (start_workers connect n rest))"

datatype 'k callee_end =
    CalleeUsage
  | CalleeFatal err
  | CalleeWorks Broker backend "(string \<times> Thunk) list" "('k \<times> int) list"

text \<open>\<^verbatim>\<open>main\<close> up to the wait for the workers: \<open>order\<close> is the order in which the map of URIs
  is ranged over, \<open>split\<close> is \<^verbatim>\<open>redisc.SplitBySlot\<close>, \<open>connect\<close> makes the calls connection
  of a broker.\<close>

definition callee_main ::
  "(string \<Rightarrow> string) \<Rightarrow> (callPayload \<Rightarrow> duration) \<Rightarrow> (string \<Rightarrow> err option)
     \<Rightarrow> (string list \<Rightarrow> string list) \<Rightarrow> (string list \<Rightarrow> string list list)
     \<Rightarrow> (Broker \<Rightarrow> backend \<Rightarrow> string list \<Rightarrow> 'k result) \<Rightarrow> callee_flags \<Rightarrow> 'k callee_end" where
  "callee_main quote lag refresh order split connect F =
     (if ef_help F then CalleeUsage
      else
        let n = (if ef_workers F \<le> 0 then 1 else ef_workers F);
            us = delay_uris quote lag (ef_numDelayURIs F) (uris quote lag) in
        case (if ef_redisCluster F then callee_newRedisCluster refresh (ef_redisAddr F)
              else (Pool (callee_newRedisPool F (ef_redisAddr F)), None)) of
          (_, Some e) \<Rightarrow> CalleeFatal (ErrWrap ''failed to connect to redis cluster'' e)
        | (pool, None) \<Rightarrow>
            let b = callee_newBroker F (Some (\<lambda>_. 0));
                keys = order (map fst us);
                keysPerSlot = (if ef_redisCluster F then split keys else [keys]) in
            case start_workers (connect b pool) n keysPerSlot of
              Inl e \<Rightarrow> CalleeFatal e
            | Inr ws \<Rightarrow> CalleeWorks b pool us ws)"

section \<open>Reversing\<close>

lemma reverse_loop_nth:
  assumes "0 \<le> i" and "i + j = int (length xs) - 1" and "i \<le> j + 1"
  shows "length (reverse_loop i j xs) = length xs
    \<and> (\<forall>k < length xs. reverse_loop i j xs ! k = (if i \<le> int k \<and> int k \<le> j then xs ! nat (i + j - int k) else xs ! k))"
  using assms
proof (induction i j xs rule: reverse_loop.induct)
  case (1 i j xs)
  show ?case
  proof (cases "i < j")
    case False
    then have "nat (i + j - int k) = k" if "i \<le> int k" "int k \<le> j" for k
      using that 1(4) by linarith
    then show ?thesis using False by (auto simp: reverse_loop.simps [of i j xs])
  next
    case True
    let ?ys = "xs[nat i := xs ! nat j, nat j := xs ! nat i]"
    have IH: "length (reverse_loop (i + 1) (j - 1) ?ys) = length ?ys
      \<and> (\<forall>k < length ?ys. reverse_loop (i + 1) (j - 1) ?ys ! k
          = (if i + 1 \<le> int k \<and> int k \<le> j - 1 then ?ys ! nat (i + 1 + (j - 1) - int k) else ?ys ! k))"
      using 1(1) True 1(2-4) by simp
    have ys: "?ys ! k = (if int k = i then xs ! nat j else if int k = j then xs ! nat i else xs ! k)"
      if "k < length xs" for k
      using that True 1(2,3) by (auto simp: nth_list_update)
    have "reverse_loop i j xs ! k = (if i \<le> int k \<and> int k \<le> j then xs ! nat (i + j - int k) else xs ! k)"
      if k: "k < length xs" for k
    proof -
      consider "int k = i" | "int k = j" | "i < int k" "int k < j" | "int k < i \<or> j < int k" by linarith
      then show ?thesis
      proof cases
        case 3
        define m where "m = nat (i + j - int k)"
        have m: "m < length xs" "int m \<noteq> i" "int m \<noteq> j" "nat (i + 1 + (j - 1) - int k) = m"
          using 3 1(2,3) by (simp_all add: m_def)
        have "reverse_loop i j xs ! k = ?ys ! m"
          using 3 IH k True m(4) by (simp add: reverse_loop.simps [of i j xs])
        also have "\<dots> = xs ! m" using ys [OF m(1)] m by simp
        finally show ?thesis using 3 by (simp add: m_def)
      qed (use IH k True ys in \<open>auto simp: reverse_loop.simps [of i j xs]\<close>)
    qed
    then show ?thesis using IH True by (simp add: reverse_loop.simps [of i j xs])
  qed
qed

lemma reverse_loop_rev: "reverse_loop 0 (int (length xs) - 1) xs = rev xs"
proof (rule nth_equalityI)
  show "length (reverse_loop 0 (int (length xs) - 1) xs) = length (rev xs)"
    using reverse_loop_nth [of 0 "int (length xs) - 1" xs] by simp
next
  fix k
  assume "k < length (reverse_loop 0 (int (length xs) - 1) xs)"
  then have k: "k < length xs" using reverse_loop_nth [of 0 "int (length xs) - 1" xs] by simp
  then have "nat (int (length xs) - 1 - int k) = length xs - Suc k" by linarith
  with k show "reverse_loop 0 (int (length xs) - 1) xs ! k = rev xs ! k"
    using reverse_loop_nth [of 0 "int (length xs) - 1" xs] by (simp add: rev_nth)
qed

text \<open>A rune is self-delimiting: its length does not depend on what follows it.\<close>

definition rune :: "string \<Rightarrow> bool" where
  "rune r \<longleftrightarrow> r \<noteq> [] \<and> (\<forall>t. rune_len (r @ t) = length r)"

lemma rune_len_front:
  assumes len: "rune_len (a # s) = Suc n"
  shows "rune (a # take n s)"
proof -
  consider "byte_in 0 127 a"
    | "\<not> byte_in 0 127 a" "byte_in 194 223 a"
    | "\<not> byte_in 0 127 a" "\<not> byte_in 194 223 a" "byte_in 224 239 a"
    | "\<not> byte_in 0 127 a" "\<not> byte_in 194 223 a" "\<not> byte_in 224 239 a" "byte_in 240 244 a"
    using len by (simp only: rune_len.simps split: if_splits) auto
  then have "n \<le> length s \<and> (\<forall>t. rune_len (a # take n s @ t) = Suc n)"
  proof cases
    case 2
    note a = if_not_P [OF 2(1)] if_P [OF 2(2)]
    from len obtain b s' where "s = b # s'" "byte_in 128 191 b" "n = 1"
      unfolding rune_len.simps a by (simp split: list.splits if_splits)
    then show ?thesis unfolding rune_len.simps a by simp
  next
    case 3
    note a = if_not_P [OF 3(1)] if_not_P [OF 3(2)] if_P [OF 3(3)]
    from len obtain b c s' where "s = b # c # s'" "n = 2"
        "byte_in (if byte_in 224 224 a then 160 else 128) (if byte_in 237 237 a then 159 else 191) b \<and> byte_in 128 191 c"
      unfolding rune_len.simps a by (simp only: split: list.splits if_split_asm)
    then show ?thesis unfolding rune_len.simps a by (simp add: numeral_2_eq_2)
  next
    case 4
    note a = if_not_P [OF 4(1)] if_not_P [OF 4(2)] if_not_P [OF 4(3)] if_P [OF 4(4)]
    from len obtain b c d s' where "s = b # c # d # s'" "n = 3"
        "byte_in (if byte_in 240 240 a then 144 else 128) (if byte_in 244 244 a then 143 else 191) b
         \<and> byte_in 128 191 c \<and> byte_in 128 191 d"
      unfolding rune_len.simps a by (simp only: split: list.splits if_split_asm)
    then show ?thesis unfolding rune_len.simps a by (simp add: numeral_3_eq_3)
  qed (use len in simp)
  then show ?thesis by (simp add: rune_def min_def del: rune_len.simps)
qed

lemma rune_replacement: "rune replacement"
  by (simp add: rune_def replacement_def)

lemma runes_rune: "r \<in> set (runes s) \<Longrightarrow> rune r"
  by (induction s rule: runes.induct)
    (auto simp del: rune_len.simps simp: rune_replacement rune_len_front split: nat.splits)

lemma runes_append:
  assumes "rune r"
  shows "runes (r @ t) = r # runes t"
proof -
  obtain a s where r: "r = a # s" using assms by (cases r) (auto simp: rune_def)
  have "rune_len (a # s @ t) = Suc (length s)" using assms r by (auto simp: rune_def)
  then show ?thesis using r by (simp del: rune_len.simps)
qed

lemma runes_concat: "(\<And>r. r \<in> set rs \<Longrightarrow> rune r) \<Longrightarrow> runes (concat rs) = rs"
  by (induction rs) (simp_all add: runes_append)

lemma concat_runes: "concat (runes s) = to_valid_utf8 s"
  by (induction s rule: runes.induct) (auto simp del: rune_len.simps split: nat.splits)

section \<open>Workers\<close>

text \<open>How a call ends, as its worker counts it.\<close>

definition counted :: "'b store \<Rightarrow> (string \<times> Thunk) list \<Rightarrow> callPayload \<Rightarrow> 'b \<Rightarrow> string" where
  "counted store us cp s =
     (case fst (InvokeAndStoreResult store cp (the (map_of us (cp_URI cp))) s) of
        None \<Rightarrow> ''Succeeded''
      | Some e \<Rightarrow> if e = ErrCallExpired then ''Expired'' else ''Failed'')"

definition main_counters :: "string list" where
  "main_counters = [''Requests'', ''Succeeded'', ''Failed'', ''Expired'']"

lemma uri_counter_differs:
  assumes "k \<in> set main_counters" and "l \<in> set (''Succeded'' # main_counters)"
  shows "k \<noteq> l @ ''.'' @ u"
  using assms by (auto simp: main_counters_def)

lemma worker_turn_counts:
  assumes "map_of us (cp_URI cp) = Some fn"
  shows "\<exists>v'. worker_turn store us cp (Some v, s) = Inr (Some v', snd (InvokeAndStoreResult store cp fn s))
    \<and> (\<forall>k \<in> set main_counters.
         v' k = (if k = ''Requests'' \<or> k = counted store us cp s then i64 (v k + 1) else v k))"
proof -
  let ?add = "\<lambda>k l v. v(k := i64 (v k + 1), l @ ''.'' @ cp_URI cp := i64 ((v(k := i64 (v k + 1))) (l @ ''.'' @ cp_URI cp) + 1))"
  let ?c = "counted store us cp s"
  let ?v = "?add ?c (if ?c = ''Succeeded'' then ''Succeded'' else ?c) (?add ''Requests'' ''Requests'' v)"
  have out: "?c \<in> set main_counters" "?c \<noteq> ''Requests''"
    by (simp_all add: counted_def main_counters_def split: option.split)
  have turn: "worker_turn store us cp (Some v, s) = Inr (Some ?v, snd (InvokeAndStoreResult store cp fn s))"
    using assms by (auto simp: worker_turn_def Let_def counted_def split: prod.split option.split)
  have kept: "?v k = (if k = ''Requests'' \<or> k = ?c then i64 (v k + 1) else v k)" if k: "k \<in> set main_counters" for k
  proof -
    have "k \<noteq> ''Requests'' @ ''.'' @ cp_URI cp" "k \<noteq> (if ?c = ''Succeeded'' then ''Succeded'' else ?c) @ ''.'' @ cp_URI cp"
      using k out by (intro uri_counter_differs; auto simp: main_counters_def)+
    moreover have "?c \<noteq> ''Requests'' @ ''.'' @ cp_URI cp"
      using out by (intro uri_counter_differs) (simp_all add: main_counters_def)
    ultimately show ?thesis using out(2) by (simp only: fun_upd_apply) simp
  qed
  show ?thesis using turn kept by blast
qed

text \<open>What a worker adds to the counters.\<close>

definition tally :: "(string \<Rightarrow> int) \<Rightarrow> (string \<Rightarrow> int) \<Rightarrow> nat \<Rightarrow> bool" where
  "tally v v' n \<longleftrightarrow>
     i64 (v' ''Requests'' - v ''Requests'') = i64 (int n)
     \<and> i64 (v' ''Succeeded'' + v' ''Failed'' + v' ''Expired'' - (v ''Succeeded'' + v ''Failed'' + v ''Expired'')) = i64 (int n)"

lemma i64_chain:
  assumes "i64 (b - a) = i64 m" and "i64 (c - b) = i64 n"
  shows "i64 (c - a) = i64 (m + n)"
proof -
  have "i64 (c - a) = i64 ((b - a) + (c - b))" by simp
  also have "\<dots> = i64 (i64 (b - a) + i64 (c - b))" by (simp only: i64_add i64_add')
  also have "\<dots> = i64 (m + n)" unfolding assms by simp
  finally show ?thesis .
qed

lemma tally_Suc:
  assumes "tally v w 1" and "tally w v' n"
  shows "tally v v' (Suc n)"
  using assms i64_chain [of "w ''Requests''" "v ''Requests''" 1 "v' ''Requests''" "int n"]
    i64_chain [of "w ''Succeeded'' + w ''Failed'' + w ''Expired''" "v ''Succeeded'' + v ''Failed'' + v ''Expired''" 1
      "v' ''Succeeded'' + v' ''Failed'' + v' ''Expired''" "int n"]
  by (simp add: tally_def)

lemma tally_turn:
  assumes "\<And>k. k \<in> set main_counters \<Longrightarrow> v' k = (if k = ''Requests'' \<or> k = c then i64 (v k + 1) else v k)"
    and "c = ''Succeeded'' \<or> c = ''Failed'' \<or> c = ''Expired''"
  shows "tally v v' 1"
proof -
  have one: "i64 (i64 (x + 1) - x) = i64 1" "i64 (i64 (x + 1) + y + z - (x + y + z)) = i64 1"
    "i64 (y + i64 (x + 1) + z - (y + x + z)) = i64 1" "i64 (y + z + i64 (x + 1) - (y + z + x)) = i64 1" for x y z
    using i64_add [of "x + 1" "- x"] by (simp_all add: algebra_simps)
  have v': "v' ''Requests'' = i64 (v ''Requests'' + 1)"
    "v' ''Succeeded'' = (if c = ''Succeeded'' then i64 (v ''Succeeded'' + 1) else v ''Succeeded'')"
    "v' ''Failed'' = (if c = ''Failed'' then i64 (v ''Failed'' + 1) else v ''Failed'')"
    "v' ''Expired'' = (if c = ''Expired'' then i64 (v ''Expired'' + 1) else v ''Expired'')"
    using assms(1) by (auto simp: main_counters_def)
  from assms(2) show ?thesis
    unfolding tally_def v' by (elim disjE) (simp_all add: one del: i64_add i64_add' i64_diff)
qed

lemma worker_counts:
  assumes "\<And>cp. cp \<in> set cps \<Longrightarrow> \<exists>fn. map_of us (cp_URI cp) = Some fn \<and> fits cp fn"
  shows "\<exists>v'. worker store us cps (Some v, s) = Inr (Some v', store_all store (call_results us cps) s)
    \<and> tally v v' (length cps)"
  using assms
proof (induction cps arbitrary: v s)
  case Nil
  show ?case by (simp add: store_all_def call_results_def tally_def)
next
  case (Cons cp cps)
  obtain fn where fn: "map_of us (cp_URI cp) = Some fn" "fits cp fn" using Cons.prems by auto
  obtain w where turn: "worker_turn store us cp (Some v, s) = Inr (Some w, snd (InvokeAndStoreResult store cp fn s))"
    and w: "\<And>k. k \<in> set main_counters \<Longrightarrow>
      w k = (if k = ''Requests'' \<or> k = counted store us cp s then i64 (v k + 1) else v k)"
    using worker_turn_counts [OF fn(1), of store v s] by blast
  have one: "tally v w 1"
    using w by (rule tally_turn) (simp_all add: counted_def split: option.split)
  obtain v' where rest: "worker store us cps (Some w, snd (InvokeAndStoreResult store cp fn s))
      = Inr (Some v', store_all store (call_results us cps) (snd (InvokeAndStoreResult store cp fn s)))"
    and "tally w v' (length cps)"
    using Cons.IH Cons.prems by (metis list.set_intros(2))
  then have "tally v v' (length (cp # cps))" using tally_Suc [OF one] by simp
  moreover have "worker store us (cp # cps) (Some v, s) = Inr (Some v', store_all store (call_results us (cp # cps)) s)"
    using turn rest fn invoke_result [OF fn(2), of store s]
    by (auto simp: store_all_def call_results_def split: option.splits)
  ultimately show ?case by blast
qed

section \<open>Set-up\<close>

lemma start_workers_Inr:
  "start_workers connect n keys = Inr ws \<Longrightarrow>
     list_all2 (\<lambda>k w. connect k = Inr (fst w) \<and> snd w = n) keys ws"
proof (induction keys arbitrary: ws)
  case (Cons k keys)
  then show ?case
    by (cases "connect k"; cases "start_workers connect n keys") auto
qed simp

lemma update_all:
  "map_of (foldl (\<lambda>us i. AList.update (f i) t us) us [0..<k]) u = (if \<exists>i < k. u = f i then Some t else map_of us u)"
  by (induction k) (auto simp: update_conv' less_Suc_eq)

lemma delay_uris_thunks:
  "map_of (delay_uris quote lag n us) u =
     (if \<exists>i. 0 \<le> i \<and> i < n \<and> u = ''test.delay.'' @ Itoa i then Some (delayThunk quote lag) else map_of us u)"
proof -
  have "(\<exists>i < nat n. u = ''test.delay.'' @ Itoa (int i)) \<longleftrightarrow> (\<exists>i. 0 \<le> i \<and> i < n \<and> u = ''test.delay.'' @ Itoa i)"
    by (metis nat_0_le nat_less_iff of_nat_0_le_iff zless_nat_eq_int_zless)
  then show ?thesis unfolding delay_uris_def update_all by simp
qed

lemma command_uris:
  "fst ` set (delay_uris quote lag n (uris quote lag)) =
     {''test.echo'', ''test.reverse'', ''test.delay''} \<union> {u. \<exists>i. 0 \<le> i \<and> i < n \<and> u = ''test.delay.'' @ Itoa i}"
proof -
  have "fst ` set (delay_uris quote lag n us) = fst ` set us \<union> {u. \<exists>i. 0 \<le> i \<and> i < n \<and> u = ''test.delay.'' @ Itoa i}" for us
    unfolding dom_map_of_conv_image_fst [symmetric] dom_def delay_uris_thunks by auto
  then show ?thesis by (simp add: uris_def insert_commute)
qed

lemma callee_main_works:
  assumes "callee_main quote lag refresh order split connect F = CalleeWorks b pool us ws"
  shows "us = delay_uris quote lag (ef_numDelayURIs F) (uris quote lag)"
    and "start_workers (connect b pool) (if ef_workers F \<le> 0 then 1 else ef_workers F)
      (if ef_redisCluster F then split (order (map fst us)) else [order (map fst us)]) = Inr ws"
proof -
  obtain out e where pools: "(if ef_redisCluster F then callee_newRedisCluster refresh (ef_redisAddr F)
      else (Pool (callee_newRedisPool F (ef_redisAddr F)), None)) = (out, e)" by fastforce
  note main = assms [unfolded callee_main_def Let_def pools prod.case]
  have "\<not> ef_help F" "e = None" using main by (auto split: if_splits option.splits)
  with main show "us = delay_uris quote lag (ef_numDelayURIs F) (uris quote lag)"
    and "start_workers (connect b pool) (if ef_workers F \<le> 0 then 1 else ef_workers F)
      (if ef_redisCluster F then split (order (map fst us)) else [order (map fst us)]) = Inr ws"
    by (simp_all only: if_False option.case split: sum.splits) (simp_all only: callee_end.simps callee_end.distinct)
qed

section \<open>Properties\<close>

text \<open>
  C38. The loop of \<^verbatim>\<open>reverse\<close> with its two indices computes the reversal of the runes of the
  string, so that reversing twice gives the string back with its invalid bytes replaced, and
  the string itself when it is valid UTF-8.
\<close>

theorem reverse_correct:
  "reverse s = concat (rev (runes s)) \<and> runes (reverse s) = rev (runes s)
    \<and> reverse (reverse s) = to_valid_utf8 s \<and> valid_utf8 (reverse s)"
proof -
  have rev: "reverse t = concat (rev (runes t))" for t
    by (simp add: reverse_def reverse_loop_rev)
  have runes: "runes (reverse t) = rev (runes t)" for t
    unfolding rev by (rule runes_concat) (auto intro: runes_rune)
  have "to_valid_utf8 (reverse s) = reverse s"
    by (simp add: concat_runes [symmetric] runes) (simp add: rev)
  then show ?thesis using runes rev by (simp add: concat_runes valid_utf8_def)
qed

text \<open>
  C39. The callee command: once its workers run, its URIs are the three test URIs and the
  numbered delay URIs, every URI is polled by the connection of one group of keys, each with
  at least one worker, and a worker that takes calls for these URIs does not panic, stores
  their results in order and counts every call once, as a request and as one of succeeded,
  failed and expired.
\<close>

theorem callee_command_serves:
  assumes main: "callee_main quote lag refresh order split connect F = CalleeWorks b pool us ws"
    and order: "\<And>ks. mset (order ks) = mset ks"
    and split: "\<And>ks. mset (concat (split ks)) = mset ks"
    and calls: "\<And>cp. cp \<in> set cps \<Longrightarrow> cp_URI cp \<in> fst ` set us \<and> fits cp (the (map_of us (cp_URI cp)))"
  shows "fst ` set us = {''test.echo'', ''test.reverse'', ''test.delay''}
        \<union> {u. \<exists>i. 0 \<le> i \<and> i < ef_numDelayURIs F \<and> u = ''test.delay.'' @ Itoa i}
    \<and> (\<exists>groups. mset (concat groups) = mset (map fst us)
         \<and> list_all2 (\<lambda>keys w. connect b pool keys = Inr (fst w) \<and> 1 \<le> snd w) groups ws)
    \<and> (\<exists>v'. worker store us cps (Some v, s) = Inr (Some v', store_all store (call_results us cps) s)
         \<and> tally v v' (length cps))"
proof -
  let ?groups = "if ef_redisCluster F then split (order (map fst us)) else [order (map fst us)]"
  let ?n = "if ef_workers F \<le> 0 then 1 else ef_workers F"
  note us = callee_main_works(1) [OF main] and ws = callee_main_works(2) [OF main]
  have "fst ` set us = {''test.echo'', ''test.reverse'', ''test.delay''}
        \<union> {u. \<exists>i. 0 \<le> i \<and> i < ef_numDelayURIs F \<and> u = ''test.delay.'' @ Itoa i}"
    unfolding us by (rule command_uris)
  moreover have "mset (concat ?groups) = mset (map fst us)" using order split by simp
  moreover have "list_all2 (\<lambda>keys w. connect b pool keys = Inr (fst w) \<and> 1 \<le> snd w) ?groups ws"
    using start_workers_Inr [OF ws] by (rule list_all2_mono) auto
  moreover have "\<exists>fn. map_of us (cp_URI cp) = Some fn \<and> fits cp fn" if "cp \<in> set cps" for cp
    using calls [OF that] by (cases "map_of us (cp_URI cp)") (auto simp: map_of_eq_None_iff)
  ultimately show ?thesis using worker_counts [of cps us store v s] by blast
qed

definition example_callee_flags :: callee_flags where
  "example_callee_flags =
     \<lparr>ef_brokerBlockingTimeout = 0, ef_brokerResultCap = 0, ef_help = False, ef_numDelayURIs = 1,
      ef_redisAddr = '':6379'', ef_redisCluster = True, ef_redisPoolIdleTimeout = 0,
      ef_redisPoolMaxActive = 0, ef_redisPoolMaxIdle = 0, ef_workers = 0\<rparr>"

definition example_reverse_call :: callPayload where
  "example_reverse_call = example_cp\<lparr>cp_URI := ''test.reverse'', cp_Args := Some (JStr ''ab'')\<rparr>"

theorem callee_command_serves_witness:
  "\<exists>b pool us ws v'.
     callee_main id (\<lambda>_. 0) (\<lambda>_. None) id (\<lambda>ks. [ks]) (\<lambda>_ _ ks. Inr ks) example_callee_flags = CalleeWorks b pool us ws
     \<and> worker (\<lambda>rp t s. (None, s @ [rp_Args rp])) us [example_reverse_call] (Some (\<lambda>_. 0), [])
         = Inr (Some v', [Some (JStr ''ba'')])
     \<and> tally (\<lambda>_. 0) v' 1"
proof -
  let ?us = "delay_uris id (\<lambda>_. 0) 1 (uris id (\<lambda>_. 0))" and ?store = "\<lambda>rp t s. (None, s @ [rp_Args rp])"
  obtain b pool ws where main: "callee_main id (\<lambda>_. 0) (\<lambda>_. None) id (\<lambda>ks. [ks]) (\<lambda>_ _ ks. Inr ks) example_callee_flags
      = CalleeWorks b pool ?us ws"
    by (simp add: callee_main_def callee_newRedisCluster_def example_callee_flags_def Let_def)
  have us: "map_of ?us ''test.reverse'' = Some (reverseThunk (\<lambda>_. 0))"
    unfolding delay_uris_thunks by (simp add: uris_def)
  have ba: "reverse ''ab'' = ''ba''" by (simp add: reverse_def reverse_loop.simps)
  have calls: "cp_URI cp \<in> fst ` set ?us \<and> fits cp (the (map_of ?us (cp_URI cp)))"
    if "cp \<in> set [example_reverse_call]" for cp
    using that us by (simp add: command_uris) (simp add: fits_def example_reverse_call_def
        example_cp_def reverseThunk_def args_string_def in_i64_def Second_def Millisecond_def)
  have "call_results ?us [example_reverse_call] = [(result_payload example_reverse_call (JStr ''ba''), Second)]"
    using us by (simp add: call_results_def call_result_def example_reverse_call_def example_cp_def
        reverseThunk_def args_string_def result_value_def ba encode_string_def to_valid_utf8_ascii Second_def
        Millisecond_def Let_def)
  then have "store_all ?store (call_results ?us [example_reverse_call]) [] = [Some (JStr ''ba'')]"
    by (simp add: store_all_def result_payload_def)
  then show ?thesis
    using callee_command_serves [where store = ?store and v = "\<lambda>_. 0" and s = "[]" and cps = "[example_reverse_call]",
        OF main _ _ calls] main
    by (simp del: worker.simps)
qed

end
