(* ===== verification/Float64.thy ===== *)
theory Float64
  imports Complex_Main "HOL-Library.Log_Nat"
begin

text \<open>
  The IEEE 754 rounding of \<^verbatim>\<open>float64\<close> arithmetic, on exact rationals: an operation is the
  exact one followed by \<open>fl64\<close>, the rounding to 53 significant bits, to nearest with ties to
  even. The exponent range is not limited: the values of the programs that use it are zero
  or of a magnitude between \<open>2 powi (-64)\<close> and \<open>2 powi 64\<close>, far inside of the normal numbers.
\<close>

section \<open>Rounding\<close>

definition rne :: "rat \<Rightarrow> int" where
  "rne z =
     (let f = \<lfloor>z\<rfloor>; d = z - of_int f in
      if d < 1 / 2 then f else if 1 / 2 < d then f + 1 else if even f then f else f + 1)"

text \<open>The exponent of the leading bit of a positive rational.\<close>

definition expo :: "rat \<Rightarrow> int" where
  "expo x =
     (case quotient_of x of (p, q) \<Rightarrow>
        let e = bitlen p - bitlen q in if 2 powi e \<le> x then e else e - 1)"

definition round_pos :: "rat \<Rightarrow> rat" where
  "round_pos x = of_int (rne (x * 2 powi (52 - expo x))) * 2 powi (expo x - 52)"

definition fl64 :: "rat \<Rightarrow> rat" where
  "fl64 x = (if x = 0 then 0 else if x < 0 then - round_pos (- x) else round_pos x)"

text \<open>The conversion \<^verbatim>\<open>int(f)\<close>, which truncates.\<close>

definition to_int :: "rat \<Rightarrow> int" where
  "to_int f = (if 0 \<le> f then \<lfloor>f\<rfloor> else \<lceil>f\<rceil>)"

section \<open>Lemmas\<close>

lemma rne_of_int [simp]: "rne (of_int i) = i"
  by (simp add: rne_def)

lemma rne_bounds: "\<lfloor>z\<rfloor> \<le> rne z" "rne z \<le> \<lfloor>z\<rfloor> + 1"
  by (simp_all add: rne_def Let_def)

lemma rne_mono: "z \<le> w \<Longrightarrow> rne z \<le> rne w"
proof (cases "\<lfloor>z\<rfloor> = \<lfloor>w\<rfloor>")
  case True
  assume "z \<le> w"
  with True show ?thesis by (auto simp: rne_def Let_def)
next
  case False
  assume "z \<le> w"
  then have "\<lfloor>z\<rfloor> \<le> \<lfloor>w\<rfloor>" by (rule floor_mono)
  with False have "\<lfloor>z\<rfloor> + 1 \<le> \<lfloor>w\<rfloor>" by simp
  then show ?thesis using rne_bounds(2) [of z] rne_bounds(1) [of w] by linarith
qed

lemma bitlen_bounds_int: "0 < p \<Longrightarrow> 2 ^ (nat (bitlen p - 1)) \<le> p \<and> p < 2 ^ nat (bitlen p)"
  using bitlen_bounds [of p] by simp

lemma powi_of_nat: "0 \<le> n \<Longrightarrow> (2 :: rat) powi n = of_int (2 ^ nat n)"
  by (simp add: power_int_def)

lemma bitlen_powi:
  assumes "0 < p"
  shows "(2 :: rat) powi (bitlen p - 1) \<le> of_int p" and "of_int p < (2 :: rat) powi (bitlen p)"
proof -
  have b: "0 < bitlen p" using bitlen_bounds_int [OF assms] assms by (cases "bitlen p \<le> 0") simp_all
  show "(2 :: rat) powi (bitlen p - 1) \<le> of_int p"
    using bitlen_bounds_int [OF assms] b by (simp only: powi_of_nat of_int_le_iff)
  show "of_int p < (2 :: rat) powi (bitlen p)"
    using bitlen_bounds_int [OF assms] b by (simp only: powi_of_nat of_int_less_iff)
qed

lemma expo_bounds:
  assumes "0 < x"
  shows "2 powi (expo x) \<le> x" and "x < 2 powi (expo x + 1)"
proof -
  obtain p q where pq: "quotient_of x = (p, q)" by fastforce
  then have q: "0 < q" and x: "x = of_int p / of_int q"
    by (auto dest: quotient_of_denom_pos quotient_of_div)
  with assms have p: "0 < p" by (simp add: zero_less_divide_iff)
  let ?e = "bitlen p - bitlen q"
  have "x < 2 powi (bitlen p) / 2 powi (bitlen q - 1)"
    unfolding x using bitlen_powi [OF p] bitlen_powi [OF q] p by (intro frac_less) simp_all
  also have "\<dots> = 2 powi (?e + 1)" by (simp add: power_int_diff [symmetric] algebra_simps)
  finally have hi: "x < 2 powi (?e + 1)" .
  have "2 powi (bitlen p - 1) / 2 powi (bitlen q) \<le> x"
    unfolding x using bitlen_powi [OF p] bitlen_powi [OF q] p q by (intro frac_le) simp_all
  then have lo: "2 powi (?e - 1) \<le> x" by (simp add: power_int_diff [symmetric] algebra_simps)
  show "2 powi (expo x) \<le> x" "x < 2 powi (expo x + 1)"
    using hi lo by (simp_all add: expo_def pq Let_def not_le)
qed

text \<open>A positive number, scaled so that its leading bit is the 53rd.\<close>

lemma powi_mono: "i \<le> j \<Longrightarrow> (2 :: rat) powi i \<le> 2 powi j"
  by (simp add: power_int_increasing)

lemma scaled_bounds:
  assumes "0 < x"
  shows "2 ^ 52 \<le> x * 2 powi (52 - expo x)" and "x * 2 powi (52 - expo x) \<le> 2 ^ 53"
proof -
  have e: "(2 :: rat) powi (expo x) * 2 powi (52 - expo x) = 2 ^ 52"
    "(2 :: rat) powi (expo x + 1) * 2 powi (52 - expo x) = 2 ^ 53"
    by (simp_all add: power_int_add [symmetric])
  show "2 ^ 52 \<le> x * 2 powi (52 - expo x)"
    using mult_right_mono [OF expo_bounds(1) [OF assms], of "2 powi (52 - expo x)"] unfolding e by simp
  show "x * 2 powi (52 - expo x) \<le> 2 ^ 53"
    using mult_right_mono [OF less_imp_le [OF expo_bounds(2) [OF assms]], of "2 powi (52 - expo x)"]
    unfolding e by simp
qed

lemma round_pos_bounds:
  assumes "0 < x"
  shows "2 powi (expo x) \<le> round_pos x" and "round_pos x \<le> 2 powi (expo x + 1)"
proof -
  let ?z = "x * 2 powi (52 - expo x)"
  have "rne (of_int (2 ^ 52)) \<le> rne ?z" "rne ?z \<le> rne (of_int (2 ^ 53))"
    using scaled_bounds [OF assms] by (intro rne_mono; simp)+
  then have z: "(2 :: rat) ^ 52 \<le> of_int (rne ?z)" "of_int (rne ?z) \<le> (2 :: rat) ^ 53"
    unfolding rne_of_int of_int_le_iff [where 'a = rat, symmetric] by simp_all
  have e: "(2 :: rat) ^ 52 * 2 powi (expo x - 52) = 2 powi (expo x)"
    "(2 :: rat) ^ 53 * 2 powi (expo x - 52) = 2 powi (expo x + 1)"
    by (simp_all add: power_int_diff power_int_add)
  show "2 powi (expo x) \<le> round_pos x"
    using mult_right_mono [OF z(1), of "2 powi (expo x - 52)"] unfolding e round_pos_def by simp
  show "round_pos x \<le> 2 powi (expo x + 1)"
    using mult_right_mono [OF z(2), of "2 powi (expo x - 52)"] unfolding e round_pos_def by simp
qed

lemma round_pos_mono:
  assumes "0 < x" and "x \<le> y"
  shows "round_pos x \<le> round_pos y"
proof (cases "expo x = expo y")
  case True
  have "x * 2 powi (52 - expo y) \<le> y * 2 powi (52 - expo y)"
    using assms(2) by (intro mult_right_mono) simp_all
  then have "rne (x * 2 powi (52 - expo y)) \<le> rne (y * 2 powi (52 - expo y))" by (rule rne_mono)
  then show ?thesis unfolding round_pos_def True by (intro mult_right_mono) simp_all
next
  case False
  have y: "0 < y" using assms by simp
  have "(2 :: rat) powi (expo x) < 2 powi (expo y + 1)"
    using expo_bounds(1) [OF assms(1)] assms(2) expo_bounds(2) [OF y] by linarith
  then have "expo x < expo y + 1" using powi_mono [of "expo y + 1" "expo x"] by (metis not_le)
  with False have "expo x + 1 \<le> expo y" by simp
  then have "(2 :: rat) powi (expo x + 1) \<le> 2 powi (expo y)" by (rule powi_mono)
  then show ?thesis using round_pos_bounds(2) [OF assms(1)] round_pos_bounds(1) [OF y] by linarith
qed

lemma fl64_0 [simp]: "fl64 0 = 0"
  by (simp add: fl64_def)

lemma fl64_mono:
  assumes "0 \<le> x" and "x \<le> y"
  shows "fl64 x \<le> fl64 y"
proof (cases "x = 0")
  case True
  have "0 \<le> round_pos y" if "0 < y"
    using round_pos_bounds(1) [OF that] by (meson order_trans zero_le_numeral zero_le_power_int)
  with True assms show ?thesis by (auto simp: fl64_def)
next
  case False
  with assms show ?thesis using round_pos_mono [of x y] by (simp add: fl64_def)
qed

text \<open>Numbers with two binary digits after the point, up to \<open>2 ^ 50\<close>, are exact.\<close>

lemma fl64_exact:
  assumes "0 \<le> x" and "x < 2 ^ 50" and "x = of_int k / 4"
  shows "fl64 x = x"
proof (cases "x = 0")
  case False
  with assms(1) have x: "0 < x" by simp
  have "(2 :: rat) powi (expo x) < 2 powi 50"
    using expo_bounds(1) [OF x] assms(2) by simp
  then have e: "expo x < 50" using powi_mono [of 50 "expo x"] by (metis not_le)
  have "x * 2 powi (52 - expo x) = of_int k * 2 powi (50 - expo x)"
  proof -
    have "(2 :: rat) powi (52 - expo x) = 4 * 2 powi (50 - expo x)"
      using power_int_add [of "2 :: rat" 2 "50 - expo x"] by simp
    moreover have "x * 4 = of_int k" using assms(3) by simp
    ultimately show ?thesis by (metis mult.assoc)
  qed
  also have "\<dots> = of_int (k * 2 ^ nat (50 - expo x))" using e by (simp add: powi_of_nat)
  finally have "rne (x * 2 powi (52 - expo x)) = k * 2 ^ nat (50 - expo x)" by (simp only: rne_of_int)
  then have "round_pos x = of_int k * (2 powi (50 - expo x) * 2 powi (expo x - 52))"
    unfolding round_pos_def using e by (simp add: powi_of_nat)
  also have "(2 :: rat) powi (50 - expo x) * 2 powi (expo x - 52) = 2 powi (- 2)"
    by (simp add: power_int_add [symmetric])
  also have "of_int k * (2 :: rat) powi (- 2) = x" using assms(3) by (simp add: power_int_minus)
  finally have "round_pos x = x" .
  with x show ?thesis by (simp add: fl64_def)
qed simp

lemma fl64_int:
  assumes "0 \<le> i" and "i < 2 ^ 50"
  shows "fl64 (of_int i) = of_int i"
proof (rule fl64_exact [where k = "4 * i"])
  have "(of_int i :: rat) < of_int (2 ^ 50)" using assms(2) by (simp only: of_int_less_iff)
  then show "(of_int i :: rat) < 2 ^ 50" by simp
qed (use assms(1) in simp_all)

lemma fl64_nonneg: "0 \<le> x \<Longrightarrow> 0 \<le> fl64 x"
  using fl64_mono [of 0 x] by simp

lemma fl64_eq_0: "0 \<le> x \<Longrightarrow> fl64 x = 0 \<longleftrightarrow> x = 0"
proof -
  assume "0 \<le> x"
  moreover have "0 < round_pos x" if "0 < x"
    using round_pos_bounds(1) [OF that] by (meson less_le_trans zero_less_numeral zero_less_power_int)
  ultimately show ?thesis by (cases "x = 0") (simp_all add: fl64_def)
qed

end
