(* ===== verification/Client_Command.thy ===== *)
theory Client_Command
  imports Client Float64 "HOL-Library.List_Lexorder" "HOL-Library.Char_ord"
begin

text \<open>
  The interactive client (\<^verbatim>\<open>cmd/juggler-client\<close>): the table of commands, the commands, and
  the loop of \<^verbatim>\<open>main\<close> that reads lines. A shell is the list of connections, of which a
  disconnected one is nil, and the lines printed, without their time stamps and with a mark
  on errors. Parameters, in \<open>cmd_env\<close>: the client's environment, the dialer, the raw
  operations on the websocket, the parser of JSON text, \<^verbatim>\<open>strconv.Quote\<close> and the flags.
\<close>

section \<open>Standard library\<close>

text \<open>\<^verbatim>\<open>strings.Fields\<close>, with the field that is being read.\<close>

fun fields_from :: "string \<Rightarrow> string \<Rightarrow> string list" where
  "fields_from w [] = (if w = [] then [] else [w])"
| "fields_from w (c # s) =
     (case prefix_len space_runes (c # s) of
        0 \<Rightarrow> fields_from (w @ [c]) s
      | Suc n \<Rightarrow> (if w = [] then [] else [w]) @ fields_from [] (drop n s))"

definition Fields :: "string \<Rightarrow> string list" where
  "Fields s = fields_from [] s"

definition Join :: "string list \<Rightarrow> string \<Rightarrow> string" where
  "Join ws sep = (case ws of [] \<Rightarrow> [] | w # ws \<Rightarrow> w @ concat (map (\<lambda>v. sep @ v) ws))"

text \<open>\<^verbatim>\<open>time.ParseDuration\<close>: an optional sign, then numbers each with a unit; a number has an
  integer part of at most $2^{63}$ and a fraction that is scaled in floating point.\<close>

definition is_digit :: "char \<Rightarrow> bool" where
  "is_digit c \<longleftrightarrow> digit_val c \<noteq> None"

definition digits_value :: "string \<Rightarrow> nat" where
  "digits_value s = foldl (\<lambda>n c. 10 * n + the (digit_val c)) 0 s"

fun leadingFraction :: "nat \<Rightarrow> rat \<Rightarrow> string \<Rightarrow> nat \<times> rat" where
  "leadingFraction f scale [] = (f, scale)"
| "leadingFraction f scale (c # s) =
     (let y = 10 * f + the (digit_val c) in
      if (2 ^ 63 - 1) div 10 < f \<or> 2 ^ 63 < y then (f, scale)
      else leadingFraction y (fl64 (scale * 10)) s)"

definition unitMap :: "(string \<times> nat) list" where
  "unitMap =
     [(''ns'', 1), (''us'', 10 ^ 3), ([char_of (194 :: nat), char_of (181 :: nat), CHR ''s''], 10 ^ 3),
      ([char_of (206 :: nat), char_of (188 :: nat), CHR ''s''], 10 ^ 3), (''ms'', 10 ^ 6), (''s'', 10 ^ 9),
      (''m'', 60 * 10 ^ 9), (''h'', 3600 * 10 ^ 9)]"

definition duration_piece :: "(string \<Rightarrow> string) \<Rightarrow> string \<Rightarrow> string + nat \<times> string" where
  "duration_piece quote s =
     (let int_part = takeWhile is_digit s;
          s1 = dropWhile is_digit s;
          dot = (s1 \<noteq> [] \<and> hd s1 = CHR ''.'');
          frac_part = (if dot then takeWhile is_digit (tl s1) else []);
          s2 = (if dot then dropWhile is_digit (tl s1) else s1);
          u = takeWhile (\<lambda>c. c \<noteq> CHR ''.'' \<and> \<not> is_digit c) s2;
          rest = dropWhile (\<lambda>c. c \<noteq> CHR ''.'' \<and> \<not> is_digit c) s2;
          v = digits_value int_part in
      if 2 ^ 63 < v \<or> int_part = [] \<and> frac_part = [] then Inl ''time: invalid duration ''
      else if u = [] then Inl ''time: missing unit in duration ''
      else case map_of unitMap u of
        None \<Rightarrow> Inl (''time: unknown unit '' @ quote u @ '' in duration '')
      | Some unit \<Rightarrow>
          (case leadingFraction 0 1 frac_part of (f, scale) \<Rightarrow>
             let w = v * unit
                   + nat (to_int (fl64 (fl64 (of_nat f) * fl64 (fl64 (of_nat unit) / scale)))) in
             if 2 ^ 63 div unit < v \<or> 2 ^ 63 < w then Inl ''time: invalid duration '' else Inr (w, rest)))"

lemma duration_piece_shorter:
  assumes "duration_piece quote s = Inr (v, rest)"
  shows "length rest < length s"
proof -
  let ?P = "\<lambda>c. c \<noteq> CHR ''.'' \<and> \<not> is_digit c"
  define s1 where "s1 = dropWhile is_digit s"
  define s2 where "s2 = (if s1 \<noteq> [] \<and> hd s1 = CHR ''.'' then dropWhile is_digit (tl s1) else s1)"
  have "takeWhile ?P s2 \<noteq> []" "rest = dropWhile ?P s2"
    using assms by (auto simp: duration_piece_def Let_def s1_def s2_def split: if_splits option.splits prod.splits)
  then have "length rest < length s2"
    by (metis length_append less_add_same_cancel2 length_greater_0_conv takeWhile_dropWhile_id)
  moreover have "length s2 \<le> length s1"
    using length_dropWhile_le [of is_digit "tl s1"] by (auto simp: s2_def)
  moreover have "length s1 \<le> length s" by (simp add: s1_def length_dropWhile_le)
  ultimately show ?thesis by simp
qed

function duration_sum :: "(string \<Rightarrow> string) \<Rightarrow> nat \<Rightarrow> string \<Rightarrow> string + nat" where
  "duration_sum quote d s =
     (if s = [] then Inr d
      else case duration_piece quote s of
        Inl e \<Rightarrow> Inl e
      | Inr (v, rest) \<Rightarrow> if 2 ^ 63 < d + v then Inl ''time: invalid duration '' else duration_sum quote (d + v) rest)"
  by pat_completeness auto
termination
  by (relation "measure (\<lambda>(quote, d, s). length s)") (auto dest: duration_piece_shorter)

declare duration_sum.simps [simp del]

definition ParseDuration :: "(string \<Rightarrow> string) \<Rightarrow> string \<Rightarrow> duration result" where
  "ParseDuration quote orig =
     (let neg = (orig \<noteq> [] \<and> hd orig = CHR ''-'');
          s = (if orig \<noteq> [] \<and> (hd orig = CHR ''-'' \<or> hd orig = CHR ''+'') then tl orig else orig);
          failed = (\<lambda>e. Inl (ErrText (e @ quote orig))) in
      if s = ''0'' then Inr 0
      else if s = [] then failed ''time: invalid duration ''
      else case duration_sum quote 0 s of
        Inl e \<Rightarrow> failed e
      | Inr d \<Rightarrow>
          if neg then Inr (- int d)
          else if 2 ^ 63 - 1 < d then failed ''time: invalid duration '' else Inr (int d))"

section \<open>The shell\<close>

record 'c cmd_env =
  ke_client :: "'c client_env"
  ke_dial :: "string \<Rightarrow> string list \<Rightarrow> 'c result"
  ke_WriteControl :: "string \<Rightarrow> 'c \<Rightarrow> err option \<times> 'c"
  ke_WriteMessage :: "string \<Rightarrow> 'c \<Rightarrow> err option \<times> 'c"
  ke_CopyRandom :: "int \<Rightarrow> 'c \<Rightarrow> err option \<times> 'c"
  ke_json :: "string \<Rightarrow> json option"
  ke_quote :: "string \<Rightarrow> string"
  ke_defaultConn :: string
  ke_defaultSubproto :: string

text \<open>\<open>sh_timers\<close> are the goroutines that wait for the expiration of the calls, by connection,
  \<open>sh_closed\<close> the clients that were closed.\<close>

record 'c shell =
  sh_connections :: "'c Client option list"
  sh_out :: "(bool \<times> string) list"
  sh_timers :: "(nat \<times> call \<times> duration) list"
  sh_closed :: "'c Client list"

definition printf :: "string \<Rightarrow> 'c shell \<Rightarrow> 'c shell" where
  "printf msg sh = sh\<lparr>sh_out := sh_out sh @ [(False, msg)]\<rparr>"

definition printErr :: "string \<Rightarrow> 'c shell \<Rightarrow> 'c shell" where
  "printErr msg sh = sh\<lparr>sh_out := sh_out sh @ [(True, msg)]\<rparr>"

definition conn_tag :: "int \<Rightarrow> string" where
  "conn_tag l = ''['' @ Itoa l @ ''] ''"

definition set_conn :: "nat \<Rightarrow> 'c Client option \<Rightarrow> 'c shell \<Rightarrow> 'c shell" where
  "set_conn ix c sh = sh\<lparr>sh_connections := (sh_connections sh)[ix := c]\<rparr>"

definition set_raw :: "nat \<Rightarrow> 'c Client \<Rightarrow> 'c \<Rightarrow> 'c shell \<Rightarrow> 'c shell" where
  "set_raw ix c conn sh = set_conn ix (Some (c\<lparr>cl_lk := (cl_lk c)\<lparr>lk_conn := conn\<rparr>\<rparr>)) sh"

definition getConn :: "'c cmd_env \<Rightarrow> string \<Rightarrow> 'c shell \<Rightarrow> ('c Client \<times> nat) option \<times> 'c shell" where
  "getConn K arg sh =
     (case ParseInt arg of
        None \<Rightarrow> (None, printErr (''argument error: '' @ atoi_error (ke_quote K) arg) sh)
      | Some ix \<Rightarrow>
          if 0 < ix \<and> ix \<le> int (length (sh_connections sh)) then
            (case sh_connections sh ! nat (ix - 1) of
               Some c \<Rightarrow> (Some (c, nat (ix - 1)), sh)
             | None \<Rightarrow> (None, sh))
          else (None, sh))"

text \<open>What the commands with a connection share: the lookup by the first argument.\<close>

definition on_conn ::
  "'c cmd_env \<Rightarrow> ('c Client \<Rightarrow> nat \<Rightarrow> string list \<Rightarrow> 'c shell \<Rightarrow> panic + 'c shell) \<Rightarrow> string list \<Rightarrow> 'c shell
     \<Rightarrow> panic + 'c shell" where
  "on_conn K body args sh =
     (case args of
        [] \<Rightarrow> Inl index_out_of_range
      | arg # rest \<Rightarrow>
          (case getConn K arg sh of
             (Some (c, ix), sh) \<Rightarrow> body c ix rest sh
           | (None, sh) \<Rightarrow> Inr (printErr (''invalid connection ID: '' @ arg) sh)))"

section \<open>Commands\<close>

datatype cmd =
    helpCmd | exitCmd | connectCmd | disconnectCmd | sendCmd | closeCmd | callCmd | pubCmd | subCmd
  | psubCmd | unsbCmd | punsbCmd | randCmd

definition commands :: "(string \<times> cmd) list" where
  "commands =
     [(''?'', helpCmd), (''help'', helpCmd), (''exit'', exitCmd), (''connect'', connectCmd),
      (''disconnect'', disconnectCmd), (''send'', sendCmd), (''close'', closeCmd), (''call'', callCmd),
      (''pub'', pubCmd), (''sub'', subCmd), (''psub'', psubCmd), (''unsb'', unsbCmd),
      (''punsb'', punsbCmd), (''rand'', randCmd)]"

fun MinArgs :: "cmd \<Rightarrow> nat" where
  "MinArgs disconnectCmd = 1"
| "MinArgs sendCmd = 2"
| "MinArgs closeCmd = 1"
| "MinArgs callCmd = 2"
| "MinArgs pubCmd = 2"
| "MinArgs subCmd = 2"
| "MinArgs psubCmd = 2"
| "MinArgs unsbCmd = 2"
| "MinArgs punsbCmd = 2"
| "MinArgs randCmd = 1"
| "MinArgs _ = 0"

fun Usage :: "cmd \<Rightarrow> string" where
  "Usage helpCmd = ''usage: ? or help''"
| "Usage exitCmd = ''usage: exit or ctrl-D''"
| "Usage connectCmd = ''usage: connect [URL [PROTO]]''"
| "Usage disconnectCmd = ''usage: disconnect CONN_ID''"
| "Usage closeCmd = ''usage: close CONN_ID [STATUS_TEXT]''"
| "Usage sendCmd = ''usage: send CONN_ID MSG''"
| "Usage callCmd = ''usage: call CONN_ID URI [TIMEOUT_SEC [ARGS]]''"
| "Usage pubCmd = ''usage: pub CONN_ID CHANNEL [ARGS]''"
| "Usage subCmd = ''usage: sub CONN_ID CHANNEL''"
| "Usage psubCmd = ''usage: psub CONN_ID CHANNEL_PATTERN''"
| "Usage unsbCmd = ''usage: unsb CONN_ID CHANNEL''"
| "Usage punsbCmd = ''usage: punsb CONN_ID CHANNEL_PATTERN''"
| "Usage randCmd = ''usage: rand CONN_ID [N_BYTES]''"

text \<open>The handler of a connection: the line it prints for a message.\<close>

definition pad4 :: "string \<Rightarrow> string" where
  "pad4 s = s @ replicate (4 - length s) CHR '' ''"

definition raw_text :: "'c cmd_env \<Rightarrow> nat \<Rightarrow> raw \<Rightarrow> string" where
  "raw_text K n a = (case a of None \<Rightarrow> [] | Some j \<Rightarrow> take n (ce_text (ke_client K) j))"

definition connMsgLogger_Handle :: "'c cmd_env \<Rightarrow> int \<Rightarrow> client_msg \<Rightarrow> 'c shell \<Rightarrow> 'c shell" where
  "connMsgLogger_Handle K l m sh =
     (let E = ke_client K;
          uid = uuid_String (ce_codec E);
          ty = Type_String (ce_registry E);
          s = (case m of
                 Received (Nack x) \<Rightarrow> ''for '' @ ty (nack_ForType x) @ '' '' @ uid (nack_For x) @ '' ('' @ nack_Message x @ '')''
               | Received (Ack x) \<Rightarrow> ''for '' @ ty (ack_ForType x) @ '' '' @ uid (ack_For x)
               | Received (Res x) \<Rightarrow> ''for '' @ ty CallMsg @ '' '' @ uid (res_For x) @ '' ('' @ raw_text K 100 (res_Args x) @ '')''
               | Expired x \<Rightarrow> ''for '' @ ty CallMsg @ '' '' @ uid (exp_For x)
               | Received (Evnt x) \<Rightarrow> ''for '' @ ty PubMsg @ '' '' @ uid (evnt_For x) @ '' ('' @ raw_text K 40 (evnt_Args x) @ '')''
               | _ \<Rightarrow> []);
          t = (case m of Received x \<Rightarrow> msg_Type x | Expired x \<Rightarrow> meta_T (exp_Meta x));
          u = (case m of Received x \<Rightarrow> msg_UUID x | Expired x \<Rightarrow> meta_U (exp_Meta x)) in
      printf (conn_tag l @ ''<<< '' @ pad4 (ty t) @ '' message: '' @ uid u @ '' '' @ s) sh)"

definition newline_tab :: string where
  "newline_tab = [char_of (10 :: nat), char_of (9 :: nat)]"

text \<open>The help text of \<^verbatim>\<open>connect\<close> is made when the package is initialised, before the flags are
  parsed, so that it names the default value of the flag.\<close>

fun Help_text :: "cmd \<Rightarrow> string" where
  "Help_text helpCmd = ''print this message''"
| "Help_text exitCmd = ''quit the program''"
| "Help_text connectCmd = ''connect to URL using subprotocol PROTO (defaults to juggler.0)''"
| "Help_text disconnectCmd = ''disconnect the connection identified by CONN_ID''"
| "Help_text closeCmd =
     ''cleanly close the connection identified by CONN_ID, sending a'' @ newline_tab @ ''websocket Close message''"
| "Help_text sendCmd = ''send raw MSG (sent as-is) to the connection identified by CONN_ID''"
| "Help_text callCmd =
     ''send a CALL message to the connection identified by CONN_ID'' @ newline_tab
     @ ''to URI with optional ARGS that will be marshaled as JSON string.'' @ newline_tab
     @ ''If ARGS is wrapped in backticks, it is sent as raw JSON.''"
| "Help_text pubCmd =
     ''send a PUB message to the connection identified by CONN_ID'' @ newline_tab
     @ ''to CHANNEL with optional ARGS that will be marshaled as JSON string''"
| "Help_text subCmd =
     ''send a SUB message to the connection identified by CONN_ID'' @ newline_tab
     @ ''to subscribe the connection to the CHANNEL''"
| "Help_text psubCmd =
     ''send a SUB message to the connection identified by CONN_ID'' @ newline_tab
     @ ''to subscribe the connection to the pattern CHANNEL_PATTERN''"
| "Help_text unsbCmd =
     ''send an UNSB message to the connection identified by CONN_ID'' @ newline_tab
     @ ''to unsubscribe the connection from the CHANNEL''"
| "Help_text punsbCmd =
     ''send a UNSB message to the connection identified by CONN_ID'' @ newline_tab
     @ ''to unsubscribe the connection from the pattern CHANNEL_PATTERN''"
| "Help_text randCmd = ''send random bytes to the connection identified by CONN_ID''"

definition help_Run :: "'c shell \<Rightarrow> 'c shell" where
  "help_Run sh =
     fold (\<lambda>k. case map_of commands k of
                 None \<Rightarrow> id
               | Some c \<Rightarrow> printf (''- '' @ k @ '' :'' @ newline_tab @ Usage c @ newline_tab @ Help_text c @ [char_of (10 :: nat)]))
       (sort (map fst commands)) sh"

definition connect_Run :: "'c cmd_env \<Rightarrow> string list \<Rightarrow> 'c shell \<Rightarrow> 'c shell" where
  "connect_Run K args sh =
     (let addr = (if 0 < length args then args ! 0 else ke_defaultConn K);
          subs = [if 1 < length args then args ! 1 else ke_defaultSubproto K] in
      case Dial (ke_dial K addr subs) [SetHandler True] of
        Inl e \<Rightarrow> printErr (''Dial failed: '' @ err_Error e) sh
      | Inr conn \<Rightarrow>
          let sh = sh\<lparr>sh_connections := sh_connections sh @ [Some conn]\<rparr> in
          printf (conn_tag (int (length (sh_connections sh))) @ ''connected to '' @ addr) sh)"

definition disconnect_Run :: "'c cmd_env \<Rightarrow> string list \<Rightarrow> 'c shell \<Rightarrow> panic + 'c shell" where
  "disconnect_Run K =
     on_conn K (\<lambda>c ix rest sh.
       Inr (set_conn ix None (sh\<lparr>sh_closed := snd (Close_begin (ke_client K) c) # sh_closed sh\<rparr>)))"

definition close_Run :: "'c cmd_env \<Rightarrow> string list \<Rightarrow> 'c shell \<Rightarrow> panic + 'c shell" where
  "close_Run K =
     on_conn K (\<lambda>c ix rest sh.
       let st = (case rest of [] \<Rightarrow> ''bye'' | t # _ \<Rightarrow> t) in
       case ke_WriteControl K st (lk_conn (cl_lk c)) of
         (e, conn) \<Rightarrow>
           let sh = set_raw ix c conn sh in
           Inr (case e of
                  None \<Rightarrow> sh
                | Some e \<Rightarrow> printErr (conn_tag (int ix + 1) @ ''WriteControl failed: '' @ err_Error e) sh))"

definition send_Run :: "'c cmd_env \<Rightarrow> string list \<Rightarrow> 'c shell \<Rightarrow> panic + 'c shell" where
  "send_Run K =
     on_conn K (\<lambda>c ix rest sh.
       case ke_WriteMessage K (Join rest '' '') (lk_conn (cl_lk c)) of
         (e, conn) \<Rightarrow>
           let sh = set_raw ix c conn sh in
           Inr (case e of
                  None \<Rightarrow> sh
                | Some e \<Rightarrow> printErr (conn_tag (int ix + 1) @ ''WriteMessage failed: '' @ err_Error e) sh))"

text \<open>What becomes of a request: the client as it left it, its goroutine and the line.\<close>

definition requested ::
  "'c cmd_env \<Rightarrow> string \<Rightarrow> string \<Rightarrow> nat \<Rightarrow> panic + uuid result \<times> 'c Client \<times> (call \<times> duration) option \<Rightarrow> 'c shell
     \<Rightarrow> panic + 'c shell" where
  "requested K name label ix r sh =
     (case r of
        Inl p \<Rightarrow> Inl p
      | Inr (out, c, timer) \<Rightarrow>
          let sh = set_conn ix (Some c) (sh\<lparr>sh_timers := (case timer of None \<Rightarrow> [] | Some t \<Rightarrow> [(ix, t)]) @ sh_timers sh\<rparr>) in
          Inr (case out of
                 Inl e \<Rightarrow> printErr (conn_tag (int ix + 1) @ name @ '' failed: '' @ err_Error e) sh
               | Inr u \<Rightarrow>
                   printf (conn_tag (int ix + 1) @ ''>>> '' @ label @ '' message: ''
                     @ uuid_String (ce_codec (ke_client K)) u) sh))"

text \<open>The value of the arguments of \<^verbatim>\<open>call\<close>: nil, a JSON string, or the raw JSON between
  backticks.\<close>

definition call_args :: "'c cmd_env \<Rightarrow> string list \<Rightarrow> json option" where
  "call_args K ws =
     (let v = Join ws '' '' in
      if 2 < length v \<and> hd v = CHR 0x60 \<and> last v = CHR 0x60 then ke_json K (butlast (tl v))
      else if ws = [] then Some JNull
      else Some (encode_string v))"

definition call_Run :: "'c cmd_env \<Rightarrow> bool \<Rightarrow> uuid \<Rightarrow> string list \<Rightarrow> 'c shell \<Rightarrow> panic + 'c shell" where
  "call_Run K acq u =
     on_conn K (\<lambda>c ix rest sh.
       case (case rest of _ # t # _ \<Rightarrow> ParseDuration (ke_quote K) t | _ \<Rightarrow> Inr 0) of
         Inl e \<Rightarrow> Inr (printErr (conn_tag (int ix + 1) @ ''invalid timeout: '' @ err_Error e) sh)
       | Inr timeout \<Rightarrow>
           (case rest of
              [] \<Rightarrow> Inl index_out_of_range
            | uri # _ \<Rightarrow>
                requested K ''Call'' ''CALL'' ix
                  (Client_Call (ke_client K) acq u uri (call_args K (drop 2 rest)) timeout c) sh))"

definition pub_Run :: "'c cmd_env \<Rightarrow> bool \<Rightarrow> uuid \<Rightarrow> string list \<Rightarrow> 'c shell \<Rightarrow> panic + 'c shell" where
  "pub_Run K acq u =
     on_conn K (\<lambda>c ix rest sh.
       case rest of
         [] \<Rightarrow> Inl index_out_of_range
       | ch # ws \<Rightarrow>
           requested K ''Pub'' ''PUB '' ix
             (Client_Pub (ke_client K) acq u ch (Some (encode_string (Join ws '' ''))) c) sh)"

definition getSubFunc :: "'c cmd_env \<Rightarrow> bool \<Rightarrow> uuid \<Rightarrow> bool \<Rightarrow> string list \<Rightarrow> 'c shell \<Rightarrow> panic + 'c shell" where
  "getSubFunc K acq u pattern =
     on_conn K (\<lambda>c ix rest sh.
       case rest of
         [] \<Rightarrow> Inl index_out_of_range
       | ch # _ \<Rightarrow> requested K ''Sub'' ''SUB '' ix (Client_Sub (ke_client K) acq u ch pattern c) sh)"

definition getUnsbFunc :: "'c cmd_env \<Rightarrow> bool \<Rightarrow> uuid \<Rightarrow> bool \<Rightarrow> string list \<Rightarrow> 'c shell \<Rightarrow> panic + 'c shell" where
  "getUnsbFunc K acq u pattern =
     on_conn K (\<lambda>c ix rest sh.
       case rest of
         [] \<Rightarrow> Inl index_out_of_range
       | ch # _ \<Rightarrow> requested K ''Unsb'' ''UNSB'' ix (Client_Unsb (ke_client K) acq u ch pattern c) sh)"

text \<open>\<^verbatim>\<open>rand\<close> takes a writer of the websocket, which it never closes.\<close>

definition rand_Run :: "'c cmd_env \<Rightarrow> string list \<Rightarrow> 'c shell \<Rightarrow> panic + 'c shell" where
  "rand_Run K =
     on_conn K (\<lambda>c ix rest sh.
       case ws_NextWriter (ce_ws (ke_client K)) (lk_conn (cl_lk c)) of
         (Inl e, conn) \<Rightarrow>
           Inr (printErr (conn_tag (int ix + 1) @ ''rand failed to get writer: '' @ err_Error e) (set_raw ix c conn sh))
       | (Inr _, conn) \<Rightarrow>
           (case (case rest of [] \<Rightarrow> Some 20 | t # _ \<Rightarrow> ParseInt t) of
              None \<Rightarrow>
                Inr (printErr (conn_tag (int ix + 1) @ ''invalid number: '' @ atoi_error (ke_quote K) (hd rest))
                       (set_raw ix c conn sh))
            | Some n \<Rightarrow>
                (case ke_CopyRandom K n conn of
                   (None, conn) \<Rightarrow> Inr (set_raw ix c conn sh)
                 | (Some e, conn) \<Rightarrow>
                     Inr (printErr (conn_tag (int ix + 1) @ ''write failed: '' @ err_Error e) (set_raw ix c conn sh)))))"

fun cmd_Run :: "'c cmd_env \<Rightarrow> bool \<Rightarrow> uuid \<Rightarrow> cmd \<Rightarrow> string list \<Rightarrow> 'c shell \<Rightarrow> panic + 'c shell" where
  "cmd_Run K acq u helpCmd args sh = Inr (help_Run sh)"
| "cmd_Run K acq u exitCmd args sh = Inr sh"
| "cmd_Run K acq u connectCmd args sh = Inr (connect_Run K args sh)"
| "cmd_Run K acq u disconnectCmd args sh = disconnect_Run K args sh"
| "cmd_Run K acq u sendCmd args sh = send_Run K args sh"
| "cmd_Run K acq u closeCmd args sh = close_Run K args sh"
| "cmd_Run K acq u callCmd args sh = call_Run K acq u args sh"
| "cmd_Run K acq u pubCmd args sh = pub_Run K acq u args sh"
| "cmd_Run K acq u subCmd args sh = getSubFunc K acq u False args sh"
| "cmd_Run K acq u psubCmd args sh = getSubFunc K acq u True args sh"
| "cmd_Run K acq u unsbCmd args sh = getUnsbFunc K acq u False args sh"
| "cmd_Run K acq u punsbCmd args sh = getUnsbFunc K acq u True args sh"
| "cmd_Run K acq u randCmd args sh = rand_Run K args sh"

section \<open>The main loop\<close>

text \<open>One line: whether the loop goes on, and the shell.\<close>

definition main_line :: "'c cmd_env \<Rightarrow> bool \<Rightarrow> uuid \<Rightarrow> string \<Rightarrow> 'c shell \<Rightarrow> panic + bool \<times> 'c shell" where
  "main_line K acq u l sh =
     (case Fields l of
        [] \<Rightarrow> Inr (True, sh)
      | name # args \<Rightarrow>
          (case map_of commands name of
             None \<Rightarrow> Inr (True, printErr (''unknown command: '' @ ke_quote K name) sh)
           | Some cmd \<Rightarrow>
               if length args < MinArgs cmd then Inr (True, printErr (Usage cmd) sh)
               else if cmd = exitCmd then Inr (False, sh)
               else map_sum id (Pair True) (cmd_Run K acq u cmd args sh)))"

text \<open>The loop over the lines read, each with what its request is given, until the reading
  ends with \<^verbatim>\<open>io.EOF\<close> (\<open>None\<close>) or another error; the exit code with the shell.\<close>

fun client_main ::
  "'c cmd_env \<Rightarrow> (bool \<times> uuid \<times> string) list \<Rightarrow> err option \<Rightarrow> 'c shell \<Rightarrow> panic + int \<times> 'c shell" where
  "client_main K [] e sh =
     (case e of
        None \<Rightarrow> Inr (0, sh)
      | Some e \<Rightarrow> Inr (1, printErr (''failed to read line: '' @ err_Error e) sh))"
| "client_main K ((acq, u, l) # ls) e sh =
     (case main_line K acq u l sh of
        Inl p \<Rightarrow> Inl p
      | Inr (go_on, sh) \<Rightarrow> if go_on then client_main K ls e sh else Inr (0, sh))"

section \<open>Lemmas\<close>

text \<open>Only the connection with the index \<open>ix\<close> may have changed.\<close>

definition only :: "nat \<Rightarrow> 'c shell \<Rightarrow> 'c shell \<Rightarrow> bool" where
  "only ix sh sh' \<longleftrightarrow>
     length (sh_connections sh') = length (sh_connections sh)
     \<and> (\<forall>i < length (sh_connections sh). i \<noteq> ix \<longrightarrow> sh_connections sh' ! i = sh_connections sh ! i)"

lemma only_print [simp]:
  "only ix sh (printf msg sh') \<longleftrightarrow> only ix sh sh'" "only ix sh (printErr msg sh') \<longleftrightarrow> only ix sh sh'"
  by (simp_all add: only_def printf_def printErr_def)

lemma only_set [simp]:
  "only ix sh (set_conn ix c sh)" "only ix sh (set_raw ix k conn sh)"
  "only ix sh (set_conn ix c (sh\<lparr>sh_timers := ts\<rparr>))" "only ix sh (set_conn ix c (sh\<lparr>sh_closed := cs\<rparr>))"
  "only ix sh sh"
  by (simp_all add: only_def set_conn_def set_raw_def)

text \<open>What a command may do to the connections: change a live one that its first argument
  names.\<close>

definition framed :: "string list \<Rightarrow> 'c shell \<Rightarrow> 'c shell \<Rightarrow> bool" where
  "framed args sh sh' \<longleftrightarrow>
     length (sh_connections sh) \<le> length (sh_connections sh')
     \<and> (\<forall>i < length (sh_connections sh). sh_connections sh' ! i \<noteq> sh_connections sh ! i \<longrightarrow>
          sh_connections sh ! i \<noteq> None \<and> (\<exists>arg rest. args = arg # rest \<and> ParseInt arg = Some (int i + 1)))"

lemma framed_print [simp]:
  "framed args sh (printf msg sh') \<longleftrightarrow> framed args sh sh'" "framed args sh (printErr msg sh') \<longleftrightarrow> framed args sh sh'"
  "framed args sh sh"
  by (simp_all add: framed_def printf_def printErr_def)

lemma getConn_Some:
  assumes "getConn K arg sh = (Some (c, ix), sh')"
  shows "sh' = sh \<and> ix < length (sh_connections sh) \<and> sh_connections sh ! ix = Some c \<and> ParseInt arg = Some (int ix + 1)"
  using assms by (auto simp: getConn_def nat_less_iff split: option.splits if_splits)

lemma getConn_None:
  "getConn K arg sh = (None, sh') \<Longrightarrow> sh_connections sh' = sh_connections sh"
  by (auto simp: getConn_def printErr_def split: option.splits if_splits)

lemma on_conn_framed:
  assumes args: "Suc n \<le> length args"
    and body: "\<And>c ix rest. n \<le> length rest \<Longrightarrow> \<exists>sh'. body c ix rest sh = Inr sh' \<and> only ix sh sh'"
  shows "\<exists>sh'. on_conn K body args sh = Inr sh' \<and> length (sh_connections sh') = length (sh_connections sh)
    \<and> framed args sh sh'"
proof -
  obtain arg rest where a: "args = arg # rest" "n \<le> length rest" using args by (cases args) auto
  obtain r sh1 where get: "getConn K arg sh = (r, sh1)" by fastforce
  show ?thesis
  proof (cases r)
    case None
    then show ?thesis using a get getConn_None [of K arg sh sh1]
      by (simp add: on_conn_def framed_def printErr_def)
  next
    case (Some x)
    obtain c ix where x: "x = (c, ix)" by fastforce
    have got: "sh1 = sh" "ix < length (sh_connections sh)" "sh_connections sh ! ix = Some c" "ParseInt arg = Some (int ix + 1)"
      using getConn_Some [of K arg sh c ix sh1] get Some x by simp_all
    obtain sh' where "body c ix rest sh = Inr sh'" "only ix sh sh'" using body [OF a(2)] by blast
    then show ?thesis using a get Some x got by (auto simp: on_conn_def framed_def only_def)
  qed
qed

lemma request_total:
  "\<exists>out c' t. request E acq r c = Inr (out, c', t)"
proof (cases r)
  case (Inr x)
  obtain m t where x: "x = (m, t)" by fastforce
  obtain e c' where "client_doWrite E acq m c = Inr (e, c')" using doWrite_total by blast
  then show ?thesis using Inr x by (cases e) (auto simp: request_def split: prod.split)
qed (simp add: request_def)

lemma requested_only:
  assumes "r = request E acq q c"
  shows "\<exists>sh'. requested K name label ix r sh = Inr sh' \<and> only ix sh sh'"
proof -
  obtain out c' t where "r = Inr (out, c', t)" using request_total assms by metis
  then show ?thesis by (cases out) (simp_all add: requested_def Let_def)
qed

lemmas request_defs = Client_Call_def Client_Sub_def Client_Unsb_def Client_Pub_def

lemma help_connections: "sh_connections (help_Run sh) = sh_connections sh"
proof -
  have "sh_connections (fold (\<lambda>k. case map_of commands k of None \<Rightarrow> id | Some c \<Rightarrow> printf (f k c)) ks sh) = sh_connections sh" for ks f
    by (induction ks arbitrary: sh) (auto simp: printf_def split: option.split)
  then show ?thesis by (simp add: help_Run_def)
qed

lemma connect_framed:
  "framed args sh (connect_Run K args sh) \<and> length (sh_connections (connect_Run K args sh)) \<le> Suc (length (sh_connections sh))"
  by (auto simp: connect_Run_def Let_def framed_def printf_def printErr_def nth_append split: sum.split)

lemma short_commands:
  assumes "Suc 0 \<le> length args"
  shows "\<exists>sh'. disconnect_Run K args sh = Inr sh' \<and> length (sh_connections sh') = length (sh_connections sh) \<and> framed args sh sh'"
    and "\<exists>sh'. close_Run K args sh = Inr sh' \<and> length (sh_connections sh') = length (sh_connections sh) \<and> framed args sh sh'"
    and "\<exists>sh'. send_Run K args sh = Inr sh' \<and> length (sh_connections sh') = length (sh_connections sh) \<and> framed args sh sh'"
    and "\<exists>sh'. rand_Run K args sh = Inr sh' \<and> length (sh_connections sh') = length (sh_connections sh) \<and> framed args sh sh'"
  unfolding disconnect_Run_def close_Run_def send_Run_def rand_Run_def
  by (rule on_conn_framed [where n = 0, OF assms];
      auto simp: Let_def split: prod.split option.split sum.split list.split)+

lemma request_commands:
  assumes "Suc 1 \<le> length args"
  shows "\<exists>sh'. pub_Run K acq u args sh = Inr sh' \<and> length (sh_connections sh') = length (sh_connections sh) \<and> framed args sh sh'"
    and "\<exists>sh'. getSubFunc K acq u b args sh = Inr sh' \<and> length (sh_connections sh') = length (sh_connections sh) \<and> framed args sh sh'"
    and "\<exists>sh'. getUnsbFunc K acq u b args sh = Inr sh' \<and> length (sh_connections sh') = length (sh_connections sh) \<and> framed args sh sh'"
    and "\<exists>sh'. call_Run K acq u args sh = Inr sh' \<and> length (sh_connections sh') = length (sh_connections sh) \<and> framed args sh sh'"
  unfolding pub_Run_def getSubFunc_def getUnsbFunc_def call_Run_def request_defs
  by (rule on_conn_framed [where n = 1, OF assms];
      auto intro: requested_only [OF refl] split: list.split sum.split)+

lemma cmd_Run_framed:
  assumes "MinArgs cmd \<le> length args"
  shows "\<exists>sh'. cmd_Run K acq u cmd args sh = Inr sh' \<and> framed args sh sh'
    \<and> length (sh_connections sh') \<le> length (sh_connections sh) + of_bool (cmd = connectCmd)"
proof -
  have same: "\<exists>sh'. r = Inr sh' \<and> framed args sh sh' \<and> length (sh_connections sh') \<le> length (sh_connections sh) + n"
    if "\<exists>sh'. r = Inr sh' \<and> length (sh_connections sh') = length (sh_connections sh) \<and> framed args sh sh'" for r n
    using that by auto
  consider "cmd = helpCmd" | "cmd = exitCmd" | "cmd = connectCmd" | "cmd \<notin> {helpCmd, exitCmd, connectCmd}" by blast
  then show ?thesis
  proof cases
    case 4
    then show ?thesis
      using assms
      by (cases cmd; simp only: cmd_Run.simps MinArgs.simps; intro same short_commands request_commands) auto
  qed (use connect_framed [of args sh K] in \<open>simp_all add: framed_def help_connections\<close>)
qed

lemma main_line_framed:
  "\<exists>go_on sh'. main_line K acq u l sh = Inr (go_on, sh') \<and> framed (tl (Fields l)) sh sh'
     \<and> length (sh_connections sh') \<le> length (sh_connections sh) + of_bool (\<exists>args. Fields l = ''connect'' # args)"
proof (cases "Fields l")
  case (Cons name args)
  show ?thesis
  proof (cases "map_of commands name")
    case (Some cmd)
    have connect: "cmd = connectCmd \<Longrightarrow> name = ''connect''"
      using Some by (auto simp: commands_def split: if_splits)
    show ?thesis
      using cmd_Run_framed [of cmd args K acq u sh] connect Cons Some
      by (cases "length args < MinArgs cmd"; cases "cmd = exitCmd"; cases "cmd = connectCmd")
        (auto simp: main_line_def printErr_def framed_def)
  qed (use Cons in \<open>auto simp: main_line_def printErr_def framed_def\<close>)
qed (auto simp: main_line_def)

definition framed_all :: "'c shell \<Rightarrow> 'c shell \<Rightarrow> bool" where
  "framed_all sh sh' \<longleftrightarrow>
     length (sh_connections sh) \<le> length (sh_connections sh')
     \<and> (\<forall>i < length (sh_connections sh). sh_connections sh ! i = None \<longrightarrow> sh_connections sh' ! i = None)"

lemma framed_all_trans: "framed_all a b \<Longrightarrow> framed_all b c \<Longrightarrow> framed_all a c"
  by (auto simp: framed_all_def)

text \<open>A timeout of digits only, as the usage line suggests, is refused for its missing unit.\<close>

lemma seconds_refused:
  assumes "t \<noteq> []" and "\<forall>c \<in> set t. is_digit c" and "t \<noteq> ''0''" and "digits_value t \<le> 2 ^ 63"
  shows "ParseDuration quote t = Inl (ErrText (''time: missing unit in duration '' @ quote t))"
proof -
  have "hd t \<noteq> CHR ''-''" "hd t \<noteq> CHR ''+''"
    using assms(1,2) by (cases t; auto simp: is_digit_def digit_val_def)+
  moreover have rest: "dropWhile is_digit t = []" and digits: "takeWhile is_digit t = t" using assms(2) by auto
  have "duration_piece quote t = Inl ''time: missing unit in duration ''"
    unfolding duration_piece_def Let_def rest digits using assms(1,4) by simp
  ultimately show ?thesis
    using assms by (simp add: ParseDuration_def duration_sum.simps Let_def)
qed

section \<open>Properties\<close>

text \<open>
  C40. The interactive client does not panic, whatever is typed: the loop of the main function
  ends with an exit code for every sequence of lines, the connections keep their numbers, and
  a number that was disconnected is never valid again. A line changes no connection but a live
  one that its first argument names, and only the connect command adds one.
\<close>

theorem client_command_safe:
  "(\<exists>code sh'. client_main K ls e sh = Inr (code, sh')
      \<and> length (sh_connections sh) \<le> length (sh_connections sh')
      \<and> (\<forall>i < length (sh_connections sh). sh_connections sh ! i = None \<longrightarrow> sh_connections sh' ! i = None))
    \<and> (\<exists>go_on sh'. main_line K acq u l sh = Inr (go_on, sh')
         \<and> (\<forall>i < length (sh_connections sh). sh_connections sh' ! i \<noteq> sh_connections sh ! i \<longrightarrow>
              sh_connections sh ! i \<noteq> None
              \<and> (\<exists>name arg rest. Fields l = name # arg # rest \<and> ParseInt arg = Some (int i + 1)))
         \<and> length (sh_connections sh') \<le> length (sh_connections sh) + of_bool (\<exists>args. Fields l = ''connect'' # args))"
proof -
  have line: "\<exists>go_on sh'. main_line K acq u l sh = Inr (go_on, sh') \<and> framed (tl (Fields l)) sh sh'
      \<and> length (sh_connections sh') \<le> length (sh_connections sh) + of_bool (\<exists>args. Fields l = ''connect'' # args)"
    for acq u l and sh :: "'a shell"
    by (rule main_line_framed)
  have main: "\<exists>code sh'. client_main K ls e sh = Inr (code, sh') \<and> framed_all sh sh'" for sh
  proof (induction ls arbitrary: sh)
    case Nil
    show ?case by (cases e) (simp_all add: framed_all_def printErr_def)
  next
    case (Cons x ls)
    obtain acq u l where x: "x = (acq, u, l)" by (cases x)
    obtain go_on sh1 where run: "main_line K acq u l sh = Inr (go_on, sh1)" and "framed (tl (Fields l)) sh sh1"
      using line by blast
    then have all: "framed_all sh sh1" by (auto simp: framed_def framed_all_def)
    obtain code sh' where "client_main K ls e sh1 = Inr (code, sh')" "framed_all sh1 sh'" using Cons by blast
    then show ?case using run all x framed_all_trans by (cases go_on) auto
  qed
  obtain go_on sh' where run: "main_line K acq u l sh = Inr (go_on, sh')" and framed: "framed (tl (Fields l)) sh sh'"
    and len: "length (sh_connections sh') \<le> length (sh_connections sh) + of_bool (\<exists>args. Fields l = ''connect'' # args)"
    using line by blast
  have named: "\<exists>name. Fields l = name # args" if "tl (Fields l) = args" "args \<noteq> []" for args
    using that by (cases "Fields l") auto
  have "sh_connections sh ! i \<noteq> None \<and> (\<exists>name arg rest. Fields l = name # arg # rest \<and> ParseInt arg = Some (int i + 1))"
    if "i < length (sh_connections sh)" "sh_connections sh' ! i \<noteq> sh_connections sh ! i" for i
    using framed that named unfolding framed_def by blast
  with run len main [of sh] show ?thesis unfolding framed_all_def by blast
qed

definition example_cmd_env :: "string list cmd_env" where
  "example_cmd_env =
     \<lparr>ke_client = example_env, ke_dial = (\<lambda>_ _. Inl (ErrText ''refused'')), ke_WriteControl = (\<lambda>_ c. (None, c)),
      ke_WriteMessage = (\<lambda>_ c. (None, c)), ke_CopyRandom = (\<lambda>_ c. (None, c)), ke_json = (\<lambda>_. None),
      ke_quote = id, ke_defaultConn = ''ws://localhost:9000/ws'', ke_defaultSubproto = ''juggler.0''\<rparr>"

theorem client_command_safe_witness:
  "\<exists>code sh'. client_main example_cmd_env [(True, example_uuid, ''call 1 test.echo''), (True, example_uuid, ''sub 2 c'')] None
       \<lparr>sh_connections = [None, Some example_client], sh_out = [], sh_timers = [], sh_closed = []\<rparr> = Inr (code, sh')
     \<and> 2 \<le> length (sh_connections sh') \<and> sh_connections sh' ! 0 = None"
proof -
  let ?sh = "\<lparr>sh_connections = [None, Some example_client], sh_out = [], sh_timers = [], sh_closed = []\<rparr>"
  have "0 < length (sh_connections ?sh)" "sh_connections ?sh ! 0 = None" "length (sh_connections ?sh) = 2" by simp_all
  then show ?thesis
    using client_command_safe [of example_cmd_env "[(True, example_uuid, ''call 1 test.echo''), (True, example_uuid, ''sub 2 c'')]"
        None ?sh True example_uuid "''connect''"] by metis
qed

end
