(* ===== verification/Redis_Direct.thy ===== *)
theory Redis_Direct
  imports Broker_Conns
begin

text \<open>
  The load test of redis alone (\<^verbatim>\<open>cmd/redis-direct/main.go\<close>): what the goroutines that push
  and those that pop do in each scenario, and the choice of the scenario in \<^verbatim>\<open>main\<close>. The
  scripts of the command have the text of those of the broker and are given by the same
  definitions. A failed command ends the process.
\<close>

section \<open>Pushing and popping\<close>

definition direct_list :: string where "direct_list = ''test:list''"

definition direct_expire :: "codec \<Rightarrow> callPayload \<Rightarrow> string" where
  "direct_expire C cp = ''test:expire:'' @ uuid_String C (cp_MsgUUID cp)"

definition direct_call :: "uuid \<Rightarrow> uuid \<Rightarrow> callPayload" where
  "direct_call u1 u2 =
     \<lparr>cp_ConnUUID = u1, cp_MsgUUID = u2, cp_URI = ''test.delay'', cp_Args = Some (JNum ''0''),
      cp_TTLAfterRead = 0, cp_ReadTimestamp = 0\<rparr>"

definition done_with :: "string \<Rightarrow> 'a result \<times> 'r \<Rightarrow> err option \<times> 'r" where
  "done_with what x = (case x of (Inl e, r) \<Rightarrow> (Some (ErrWrap what e), r) | (Inr _, r) \<Rightarrow> (None, r))"

text \<open>The static payload is a text that is not JSON.\<close>

definition push_pure :: "'r redis \<Rightarrow> fault \<Rightarrow> 'r \<Rightarrow> err option \<times> 'r" where
  "push_pure R f r = done_with ''LPUSH failed'' (roundtrip f (rd_LPUSH R direct_list None) r)"

definition push_marshal :: "codec \<Rightarrow> 'r redis \<Rightarrow> fault \<Rightarrow> uuid \<Rightarrow> uuid \<Rightarrow> 'r \<Rightarrow> err option \<times> 'r" where
  "push_marshal C R f u1 u2 r =
     done_with ''LPUSH failed''
       (roundtrip f (rd_LPUSH R direct_list (Some (encode_callPayload C (direct_call u1 u2)))) r)"

definition push_script :: "codec \<Rightarrow> 'r redis \<Rightarrow> fault \<Rightarrow> uuid \<Rightarrow> uuid \<Rightarrow> 'r \<Rightarrow> err option \<times> 'r" where
  "push_script C R f u1 u2 r =
     (let cp = direct_call u1 u2 in
      done_with ''LPUSH failed''
        (roundtrip f (callOrResScript R (direct_expire C cp) direct_list 2000 (Some (encode_callPayload C cp)) 0) r))"

text \<open>A pop waits without a limit while the list is empty (\<open>None\<close>).\<close>

definition pop_pure :: "'r redis \<Rightarrow> 'r \<Rightarrow> (err option \<times> 'r) option" where
  "pop_pure R r = (case rd_BRPOP R [direct_list] r of (None, _) \<Rightarrow> None | (Some _, r) \<Rightarrow> Some (None, r))"

definition pop_marshal :: "codec \<Rightarrow> 'r redis \<Rightarrow> 'r \<Rightarrow> (err option \<times> 'r) option" where
  "pop_marshal C R r =
     (case rd_BRPOP R [direct_list] r of
        (None, _) \<Rightarrow> None
      | (Some (_, v), r) \<Rightarrow>
          Some (case unmarshalBRPOPValue (decode_callPayload C) v of
                  None \<Rightarrow> (Some (ErrWrap ''unmarshal BRPOP failed'' ErrJSON), r)
                | Some cp \<Rightarrow> (None, r)))"

definition pop_script :: "codec \<Rightarrow> 'r redis \<Rightarrow> fault \<Rightarrow> 'r \<Rightarrow> (err option \<times> 'r) option" where
  "pop_script C R f r =
     (case rd_BRPOP R [direct_list] r of
        (None, _) \<Rightarrow> None
      | (Some (_, v), r) \<Rightarrow>
          Some (case unmarshalBRPOPValue (decode_callPayload C) v of
                  None \<Rightarrow> (Some (ErrWrap ''unmarshal BRPOP failed'' ErrJSON), r)
                | Some cp \<Rightarrow>
                    done_with ''delAndPTTLScript failed'' (roundtrip f (delAndPTTLScript R (direct_expire C cp)) r)))"

section \<open>Scenarios\<close>

record 'r scenario =
  sn_push :: "fault \<Rightarrow> uuid \<Rightarrow> uuid \<Rightarrow> 'r \<Rightarrow> err option \<times> 'r"
  sn_pop :: "fault \<Rightarrow> 'r \<Rightarrow> (err option \<times> 'r) option"
  sn_goros :: nat

definition purePushPop :: "'r redis \<Rightarrow> 'r scenario" where
  "purePushPop R = \<lparr>sn_push = (\<lambda>f _ _. push_pure R f), sn_pop = (\<lambda>_. pop_pure R), sn_goros = 1\<rparr>"

definition purePushPopGoros :: "'r redis \<Rightarrow> 'r scenario" where
  "purePushPopGoros R = \<lparr>sn_push = (\<lambda>f _ _. push_pure R f), sn_pop = (\<lambda>_. pop_pure R), sn_goros = 8\<rparr>"

definition withMarshalUnmarshal :: "codec \<Rightarrow> 'r redis \<Rightarrow> 'r scenario" where
  "withMarshalUnmarshal C R = \<lparr>sn_push = push_marshal C R, sn_pop = (\<lambda>_. pop_marshal C R), sn_goros = 1\<rparr>"

definition withMarshalUnmarshalPushPopScript :: "codec \<Rightarrow> 'r redis \<Rightarrow> 'r scenario" where
  "withMarshalUnmarshalPushPopScript C R = \<lparr>sn_push = push_script C R, sn_pop = pop_script C R, sn_goros = 1\<rparr>"

text \<open>The switch of \<^verbatim>\<open>main\<close>; a case without statements does nothing.\<close>

definition direct_main :: "codec \<Rightarrow> 'r redis \<Rightarrow> int \<Rightarrow> panic + 'r scenario option" where
  "direct_main C R execType =
     (if execType = 0 then Inr (Some (purePushPop R))
      else if execType = 1 then Inr None
      else if execType = 2 then Inr (Some (withMarshalUnmarshal C R))
      else if execType = 3 then Inr None
      else if execType = 4 then Inr (Some (withMarshalUnmarshalPushPopScript C R))
      else if execType = 5 then Inr (Some (purePushPopGoros R))
      else Inl (PanicValue ''unknown exec type''))"

text \<open>The goroutines of a scenario: between its command and its count, a goroutine is among
  those that are \<open>pushing\<close> or \<open>popping\<close>.\<close>

record 'r direct =
  dr_redis :: 'r
  dr_pushing :: nat
  dr_popping :: nat
  dr_push :: int
  dr_pop :: int

inductive direct_step :: "'r scenario \<Rightarrow> 'r direct \<Rightarrow> 'r direct \<Rightarrow> bool" for S where
  direct_push:
    "dr_pushing s < sn_goros S \<Longrightarrow> sn_push S f u1 u2 (dr_redis s) = (None, r) \<Longrightarrow>
     direct_step S s (s\<lparr>dr_redis := r, dr_pushing := Suc (dr_pushing s)\<rparr>)"
| direct_pushed:
    "dr_pushing s = Suc n \<Longrightarrow> direct_step S s (s\<lparr>dr_pushing := n, dr_push := i64 (dr_push s + 1)\<rparr>)"
| direct_pop:
    "dr_popping s < sn_goros S \<Longrightarrow> sn_pop S f (dr_redis s) = Some (None, r) \<Longrightarrow>
     direct_step S s (s\<lparr>dr_redis := r, dr_popping := Suc (dr_popping s)\<rparr>)"
| direct_popped:
    "dr_popping s = Suc n \<Longrightarrow> direct_step S s (s\<lparr>dr_popping := n, dr_pop := i64 (dr_pop s + 1)\<rparr>)"

inductive direct_run :: "'r scenario \<Rightarrow> 'r direct \<Rightarrow> 'r direct \<Rightarrow> bool" for S s where
  direct_start: "direct_run S s s"
| direct_next: "direct_run S s t \<Longrightarrow> direct_step S t t' \<Longrightarrow> direct_run S s t'"

section \<open>Lemmas\<close>

text \<open>What the count of a scenario relies on: a push that succeeds adds one value to the list
  and a pop that succeeds takes one off it.\<close>

definition waiting :: "'r redis \<Rightarrow> 'r \<Rightarrow> int" where
  "waiting R r = int (length (rd_LRANGE R direct_list r))"

lemma i64_diff': "i64 (y - i64 x) = i64 (y - x)"
  using mod_diff_right_eq [of "y + 2 ^ 64" "x + 2 ^ 63" "2 ^ 64"] by (simp add: i64_def algebra_simps)

locale counted_scenario =
  fixes R :: "'r redis" and S :: "'r scenario"
  assumes push_one: "\<And>f u1 u2 r r'. redis_laws R \<Longrightarrow> queue_ok R r direct_list \<Longrightarrow> sn_push S f u1 u2 r = (None, r') \<Longrightarrow>
      waiting R r' = waiting R r + 1 \<and> queue_ok R r' direct_list"
    and pop_one: "\<And>f r r'. redis_laws R \<Longrightarrow> queue_ok R r direct_list \<Longrightarrow> sn_pop S f r = Some (None, r') \<Longrightarrow>
      waiting R r' = waiting R r - 1 \<and> queue_ok R r' direct_list"
begin

text \<open>In every run the difference of the counts, with the goroutines that have not counted
  yet, is that of the list.\<close>

lemma balance:
  assumes "direct_run S s t" and laws: "redis_laws R" and "queue_ok R (dr_redis s) direct_list"
  shows "i64 (dr_push t + int (dr_pushing t) - dr_pop t - int (dr_popping t) - waiting R (dr_redis t))
      = i64 (dr_push s + int (dr_pushing s) - dr_pop s - int (dr_popping s) - waiting R (dr_redis s))
    \<and> queue_ok R (dr_redis t) direct_list"
  using assms(1,3)
proof (induction rule: direct_run.induct)
  case (direct_next t t')
  then have ok: "queue_ok R (dr_redis t) direct_list"
    and IH: "i64 (dr_push t + int (dr_pushing t) - dr_pop t - int (dr_popping t) - waiting R (dr_redis t))
      = i64 (dr_push s + int (dr_pushing s) - dr_pop s - int (dr_popping s) - waiting R (dr_redis s))" by auto
  from direct_next(2) show ?case
  proof cases
    case (direct_push f u1 u2 r)
    then show ?thesis using push_one [OF laws ok] IH by (simp add: algebra_simps)
  next
    case (direct_pushed n)
    have "i64 (i64 (dr_push t + 1) + int n - dr_pop t - int (dr_popping t) - waiting R (dr_redis t))
        = i64 (dr_push t + (1 + int n) - dr_pop t - int (dr_popping t) - waiting R (dr_redis t))"
      using i64_add [of "dr_push t + 1" "int n - dr_pop t - int (dr_popping t) - waiting R (dr_redis t)"]
      by (simp add: algebra_simps del: i64_add i64_add')
    then show ?thesis using direct_pushed ok IH by simp
  next
    case (direct_pop f r)
    then have one: "waiting R r = waiting R (dr_redis t) - 1" "queue_ok R r direct_list"
      using pop_one [OF laws ok] by blast+
    have "i64 (dr_push t + int (dr_pushing t) - dr_pop t - int (Suc (dr_popping t)) - waiting R r)
        = i64 (dr_push t + int (dr_pushing t) - dr_pop t - int (dr_popping t) - waiting R (dr_redis t))"
      by (rule arg_cong [of _ _ i64]) (simp add: one(1))
    then show ?thesis using direct_pop IH one(2) by (simp del: of_nat_Suc)
  next
    case (direct_popped n)
    have "i64 (dr_push t + int (dr_pushing t) - i64 (dr_pop t + 1) - int n - waiting R (dr_redis t))
        = i64 (dr_push t + int (dr_pushing t) - dr_pop t - (1 + int n) - waiting R (dr_redis t))"
      using i64_diff' [of "dr_push t + int (dr_pushing t) - int n - waiting R (dr_redis t)" "dr_pop t + 1"]
      by (simp add: algebra_simps)
    then show ?thesis using direct_popped ok IH by simp
  qed
qed simp

end

lemma LPUSH_one:
  assumes "redis_laws R" and ok: "queue_ok R r direct_list"
    and "done_with what (roundtrip f (rd_LPUSH R direct_list v) r) = (None, r')"
  shows "waiting R r' = waiting R r + 1 \<and> queue_ok R r' direct_list"
proof -
  have "rd_TYPE R direct_list r \<noteq> TString" using ok by (simp add: queue_ok_def)
  from LPUSH_ok [OF assms(1) this, of v] obtain r1 where
    "rd_LPUSH R direct_list v r = (Inr (int (length (rd_LRANGE R direct_list r)) + 1), r1)"
    "rd_LRANGE R direct_list r1 = v # rd_LRANGE R direct_list r" "rd_TYPE R direct_list r1 = TList"
    "rd_PTTL R direct_list r1 = (if rd_TYPE R direct_list r = TList then rd_PTTL R direct_list r else - 1)" by blast
  then show ?thesis
    using assms(3) ok by (cases f) (auto simp: done_with_def roundtrip_def waiting_def queue_ok_def)
qed

lemma BRPOP_one:
  assumes laws: "redis_laws R" and ok: "queue_ok R r direct_list"
    and pop: "rd_BRPOP R [direct_list] r = (Some x, r')"
  shows "waiting R r' = waiting R r - 1 \<and> queue_ok R r' direct_list"
proof -
  have ne: "rd_LRANGE R direct_list r \<noteq> []"
    using pop BRPOP_none [OF laws, of "[direct_list]" r] by auto
  then have "filter (\<lambda>k. rd_LRANGE R k r \<noteq> []) [direct_list] = direct_list # []" by simp
  from BRPOP_some [OF laws this] obtain r1 where
    "rd_BRPOP R [direct_list] r = (Some (direct_list, last (rd_LRANGE R direct_list r)), r1)"
    "rd_LRANGE R direct_list r1 = butlast (rd_LRANGE R direct_list r)"
    "rd_LRANGE R direct_list r1 \<noteq> [] \<Longrightarrow> rd_TYPE R direct_list r1 = TList \<and> rd_PTTL R direct_list r1 = rd_PTTL R direct_list r"
    "rd_LRANGE R direct_list r1 = [] \<Longrightarrow> rd_TYPE R direct_list r1 = TNone" by metis
  moreover have "length (butlast (rd_LRANGE R direct_list r)) + 1 = length (rd_LRANGE R direct_list r)" using ne by simp
  ultimately show ?thesis
    using pop ok reads_none(1) [OF laws, of direct_list r1]
    by (cases "rd_LRANGE R direct_list r1 = []") (auto simp: waiting_def queue_ok_def)
qed

lemma expire_not_list: "direct_expire C cp \<noteq> direct_list"
  by (simp add: direct_expire_def direct_list_def)

lemma delAndPTTL_waits:
  assumes "redis_laws R" and "done_with what (roundtrip f (delAndPTTLScript R (direct_expire C cp)) r) = (None, r')"
  shows "same_key R direct_list r r'"
  using assms DEL_same [OF assms(1), of direct_list "direct_expire C cp" r] not_sym [OF expire_not_list [of C cp]]
  by (cases f) (auto simp: done_with_def roundtrip_def delAndPTTLScript_def Let_def split: prod.splits)

interpretation pure_direct: counted_scenario R "purePushPop R" for R :: "'r redis"
  by unfold_locales
    (auto simp: purePushPop_def push_pure_def pop_pure_def dest: LPUSH_one BRPOP_one split: prod.splits option.splits)

interpretation goros_direct: counted_scenario R "purePushPopGoros R" for R :: "'r redis"
  by unfold_locales
    (auto simp: purePushPopGoros_def push_pure_def pop_pure_def dest: LPUSH_one BRPOP_one split: prod.splits option.splits)

interpretation marshal_direct: counted_scenario R "withMarshalUnmarshal C R" for R :: "'r redis" and C
  by unfold_locales
    (auto simp: withMarshalUnmarshal_def push_marshal_def pop_marshal_def dest: LPUSH_one BRPOP_one
      split: prod.splits option.splits)

lemma script_one:
  assumes laws: "redis_laws R" and ok: "queue_ok R r direct_list"
    and push: "done_with what (roundtrip f (callOrResScript R (direct_expire C cp) direct_list 2000 p 0) r) = (None, r')"
  shows "waiting R r' = waiting R r + 1 \<and> queue_ok R r' direct_list"
proof -
  obtain r1 where
    "callOrResScript R (direct_expire C cp) direct_list 2000 p 0 r = (Inr (int (length (rd_LRANGE R direct_list r)) + 1), r1)"
    "rd_LRANGE R direct_list r1 = p # rd_LRANGE R direct_list r" "queue_ok R r1 direct_list"
    by (rule script_pushed [OF laws ok expire_not_list [of C cp], where to = 2000 and cap = 0 and p = p]) simp_all
  then show ?thesis
    using push by (cases f) (auto simp: done_with_def roundtrip_def waiting_def)
qed

lemma waiting_same: "same_key R direct_list r r' \<Longrightarrow> waiting R r' = waiting R r"
  by (simp add: same_key_def waiting_def)

lemma pop_script_one:
  assumes laws: "redis_laws R" and ok: "queue_ok R r direct_list" and pop: "pop_script C R f r = Some (None, r')"
  shows "waiting R r' = waiting R r - 1 \<and> queue_ok R r' direct_list"
proof -
  obtain k v r1 cp where brpop: "rd_BRPOP R [direct_list] r = (Some (k, v), r1)"
    and del: "done_with ''delAndPTTLScript failed'' (roundtrip f (delAndPTTLScript R (direct_expire C cp)) r1) = (None, r')"
    using pop by (auto simp: pop_script_def split: prod.splits option.splits)
  have same: "same_key R direct_list r1 r'" by (rule delAndPTTL_waits [OF laws del])
  show ?thesis
    using BRPOP_one [OF laws ok brpop] waiting_same [OF same] queue_ok_same [OF same] by simp
qed

interpretation script_direct: counted_scenario R "withMarshalUnmarshalPushPopScript C R" for R :: "'r redis" and C
  by unfold_locales
    (auto simp: withMarshalUnmarshalPushPopScript_def push_script_def Let_def dest: script_one pop_script_one)

text \<open>For every type of execution that runs a scenario, the counts printed after the
  goroutines are quiet and the list is as long as at the start are equal.\<close>

lemma direct_counts:
  assumes "direct_main C R execType = Inr (Some S)" and "redis_laws R" and "queue_ok R (dr_redis s) direct_list"
    and "direct_run S s t" and "dr_pushing s = 0" "dr_popping s = 0" "dr_push s = 0" "dr_pop s = 0"
    and "dr_pushing t = 0" "dr_popping t = 0"
  shows "i64 (dr_push t - dr_pop t) = i64 (waiting R (dr_redis t) - waiting R (dr_redis s))"
proof -
  have "i64 (dr_push t + int (dr_pushing t) - dr_pop t - int (dr_popping t) - waiting R (dr_redis t))
      = i64 (dr_push s + int (dr_pushing s) - dr_pop s - int (dr_popping s) - waiting R (dr_redis s))"
    using assms(1) pure_direct.balance [OF _ assms(2,3)] goros_direct.balance [OF _ assms(2,3)]
      marshal_direct.balance [OF _ assms(2,3)] script_direct.balance [OF _ assms(2,3)] assms(4)
    by (simp add: direct_main_def split: if_split_asm) blast+
  then have "i64 (dr_push t - dr_pop t - waiting R (dr_redis t)) = i64 (- waiting R (dr_redis s))"
    using assms(5-) by simp
  then have "i64 (i64 (dr_push t - dr_pop t - waiting R (dr_redis t)) + waiting R (dr_redis t))
      = i64 (i64 (- waiting R (dr_redis s)) + waiting R (dr_redis t))" by simp
  then show ?thesis unfolding i64_add by (simp add: algebra_simps)
qed

text \<open>The types 1 and 3 run nothing, although the comments describe a scenario for each.\<close>

lemma direct_empty_cases: "direct_main C R 1 = Inr None" "direct_main C R 3 = Inr None"
  by (simp_all add: direct_main_def)

end
