(* ===== verification/Load.thy ===== *)
theory Load
  imports Client Float64
begin

text \<open>
  The load generator (\<^verbatim>\<open>cmd/juggler-load\<close>): its statistics, and the client it runs, whose
  handler counts the messages and whose loop makes the calls. The report is in \<open>Load_Report\<close>.
\<close>

section \<open>Statistics\<close>

definition subiFn :: "int \<Rightarrow> int \<Rightarrow> int" where
  "subiFn a b = i64 (a - b)"

definition subdFn :: "duration \<Rightarrow> duration \<Rightarrow> duration" where
  "subdFn a b = i64 (a - b)"

definition avgFn :: "duration list \<Rightarrow> duration" where
  "avgFn durs =
     (if durs = [] then 0
      else go_div (fold (\<lambda>d sum. i64 (sum + d)) durs 0) (int (length durs)))"

definition round_half :: "rat \<Rightarrow> int" where
  "round_half f = (if \<bar>f\<bar> < 1 / 2 then 0 else to_int (fl64 (f + (if f < 0 then - 1 / 2 else 1 / 2))))"

definition dur_at :: "duration list \<Rightarrow> int \<Rightarrow> panic + duration" where
  "dur_at durs i = (if 0 \<le> i \<and> i < int (length durs) then Inr (durs ! nat i) else Inl index_out_of_range)"

text \<open>\<^verbatim>\<open>pctlFn\<close>; the sort is in place, and the value does not depend on the order before it.\<close>

definition pctlFn :: "int \<Rightarrow> duration list \<Rightarrow> panic + duration" where
  "pctlFn n durs =
     (if durs = [] then Inr 0
      else if length durs = 1 then dur_at durs 0
      else
        let durs = sort durs;
            v = fl64 (fl64 (fl64 (of_int n) / 100) * fl64 (of_int (int (length durs))));
            ix = to_int v in
        if fl64 (v - fl64 (of_int (to_int v))) \<noteq> 0
        then let ix = round_half v; ix = (if 0 < ix then ix - 1 else ix) in dur_at durs ix
        else if ix = 0 then dur_at durs 0
        else if ix = int (length durs) then dur_at durs (int (length durs) - 1)
        else case (dur_at durs ix, dur_at durs (ix - 1)) of
               (Inr a, Inr b) \<Rightarrow> Inr (go_div (i64 (a + b)) 2)
             | (Inl p, _) \<Rightarrow> Inl p
             | (_, Inl p) \<Rightarrow> Inl p)"

section \<open>Lemmas on the statistics\<close>

text \<open>The percentile by exact ranks: the mean of two neighbours at a whole rank, else the
  element at the rounded rank.\<close>

definition percentile :: "int \<Rightarrow> duration list \<Rightarrow> duration" where
  "percentile n durs =
     (let s = sort durs; l = int (length s); r = n * l; k = r div 100 in
      if 100 dvd r then
        if k = 0 then s ! 0 else if k = l then s ! nat (l - 1) else go_div (s ! nat k + s ! nat (k - 1)) 2
      else s ! nat ((2 * r + 100) div 200 - 1))"

lemma dur_at_Inr: "0 \<le> i \<Longrightarrow> i < int (length durs) \<Longrightarrow> dur_at durs i = Inr (durs ! nat i)"
  by (simp add: dur_at_def)

text \<open>The rank that the code computes.\<close>

definition rank :: "int \<Rightarrow> int \<Rightarrow> rat" where
  "rank n l = fl64 (fl64 (fl64 (of_int n) / 100) * fl64 (of_int l))"

lemma rank_bounds:
  assumes "0 \<le> n" and "n \<le> 100" and "0 \<le> l" and "l < 2 ^ 50"
  shows "0 \<le> rank n l" and "rank n l \<le> of_int l"
proof -
  have n: "fl64 (of_int n) = of_int n" and l: "fl64 (of_int l) = of_int l"
    using assms by (simp_all add: fl64_int)
  let ?a = "fl64 (of_int n / 100)"
  have a0: "0 \<le> ?a" using assms(1) by (intro fl64_nonneg) simp
  have "(of_int n :: rat) \<le> 100" using assms(2) of_int_le_iff [of n 100, where 'a = rat] by simp
  then have "?a \<le> fl64 (of_int 1)" using assms(1) by (intro fl64_mono) simp_all
  then have a1: "?a \<le> 1" using fl64_int [of 1] by simp
  show "0 \<le> rank n l" unfolding rank_def n l using a0 assms(1,3) by (intro fl64_nonneg mult_nonneg_nonneg) simp_all
  have "fl64 (?a * of_int l) \<le> fl64 (of_int l)"
    using a0 a1 assms(1,3) by (intro fl64_mono mult_left_le_one_le mult_nonneg_nonneg) simp_all
  then show "rank n l \<le> of_int l" unfolding rank_def n l .
qed

lemma rank_exact:
  assumes "n = 25 * q" and "0 \<le> q" and "q \<le> 4" and "0 \<le> l" and "l < 2 ^ 50"
  shows "rank n l = of_int (q * l) / 4"
proof -
  have n: "fl64 (of_int n) = of_int n" by (rule fl64_int) (use assms in auto)
  have l: "fl64 (of_int l) = of_int l" by (rule fl64_int) (use assms in auto)
  have q4: "(of_int q :: rat) \<le> 4" using assms(3) of_int_le_iff [of q 4, where 'a = rat] by simp
  have "fl64 (of_int q / 4) = of_int q / 4"
    by (rule fl64_exact [where k = q]) (use assms(2) q4 in simp_all)
  then have a: "fl64 (of_int n / 100) = of_int q / 4" using assms(1) by simp
  have "(of_int (q * l) :: rat) \<le> of_int (4 * l)"
    using assms(3,4) mult_right_mono [of q 4 l] by (simp only: of_int_le_iff)
  also have "\<dots> < of_int (4 * 2 ^ 50)" unfolding of_int_less_iff using assms(5) by simp
  finally have "(of_int (q * l) :: rat) / 4 < 2 ^ 50" by simp
  moreover have "0 \<le> (of_int (q * l) :: rat) / 4" using assms(2,4) by simp
  ultimately have "fl64 (of_int (q * l) / 4) = of_int (q * l) / 4" by (intro fl64_exact [where k = "q * l"]) simp_all
  then show ?thesis by (simp add: rank_def n l a)
qed

lemma round_rank:
  assumes "0 \<le> v" and "v \<le> of_int l" and "0 < l" and "l < 2 ^ 49" and "v \<noteq> of_int \<lfloor>v\<rfloor>"
  defines "ix \<equiv> (if 0 < round_half v then round_half v - 1 else round_half v)"
  shows "0 \<le> ix \<and> ix < l"
proof (cases "v < 1 / 2")
  case True
  then show ?thesis using assms(1,3) by (simp add: ix_def round_half_def)
next
  case False
  have "fl64 (of_int 1) \<le> fl64 (v + 1 / 2)" using False by (intro fl64_mono) simp_all
  then have lo: "1 \<le> fl64 (v + 1 / 2)" using fl64_int [of 1] by simp
  have "(of_int l :: rat) < of_int (2 ^ 49)" using assms(4) by (simp only: of_int_less_iff)
  then have "fl64 (of_int l + 1 / 2) = of_int l + 1 / 2"
    using assms(3) by (intro fl64_exact [where k = "4 * l + 2"]) (simp_all add: field_simps)
  moreover have "fl64 (v + 1 / 2) \<le> fl64 (of_int l + 1 / 2)" using assms(1,2) by (intro fl64_mono) simp_all
  ultimately have hi: "fl64 (v + 1 / 2) \<le> of_int l + 1 / 2" by simp
  have "round_half v = \<lfloor>fl64 (v + 1 / 2)\<rfloor>"
    using False lo assms(1) by (simp add: round_half_def to_int_def)
  moreover have "1 \<le> \<lfloor>fl64 (v + 1 / 2)\<rfloor>" using lo by (simp add: le_floor_iff)
  moreover have "\<lfloor>fl64 (v + 1 / 2)\<rfloor> \<le> l" using hi by (simp add: floor_le_iff)
  ultimately show ?thesis by (simp add: ix_def)
qed

text \<open>What the code returns: an element of the sorted durations, or the mean of two
  neighbours.\<close>

lemma pctlFn_rank:
  assumes "2 \<le> length durs" and "length durs < 2 ^ 49" and "0 \<le> n" and "n \<le> 100"
  defines "s \<equiv> sort durs" and "v \<equiv> rank n (int (length durs))"
  shows "pctlFn n durs = Inr
      (if v \<noteq> of_int \<lfloor>v\<rfloor> then s ! nat (if 0 < round_half v then round_half v - 1 else round_half v)
       else if \<lfloor>v\<rfloor> = 0 then s ! 0
       else if \<lfloor>v\<rfloor> = int (length durs) then s ! (length durs - 1)
       else go_div (i64 (s ! nat \<lfloor>v\<rfloor> + s ! nat (\<lfloor>v\<rfloor> - 1))) 2)"
proof -
  let ?l = "int (length durs)"
  have l: "0 < ?l" "?l < 2 ^ 49" using assms(1,2) by auto
  have v: "0 \<le> v" "v \<le> of_int ?l"
    using rank_bounds [of n ?l] assms(3,4) l unfolding v_def by simp_all
  then have f: "0 \<le> \<lfloor>v\<rfloor>" "\<lfloor>v\<rfloor> \<le> ?l" by (simp_all add: floor_le_iff)
  have t: "to_int v = \<lfloor>v\<rfloor>" using v(1) by (simp add: to_int_def)
  have "\<lfloor>v\<rfloor> < 2 ^ 50" using f(2) l(2) by (rule le_less_trans [OF _ order.strict_trans]) simp
  then have fl: "fl64 (of_int \<lfloor>v\<rfloor>) = of_int \<lfloor>v\<rfloor>" by (rule fl64_int [OF f(1)])
  have frac: "fl64 (v - of_int \<lfloor>v\<rfloor>) = 0 \<longleftrightarrow> v = of_int \<lfloor>v\<rfloor>"
    using fl64_eq_0 [of "v - of_int \<lfloor>v\<rfloor>"] by simp
  have def: "pctlFn n durs =
     (if fl64 (v - fl64 (of_int (to_int v))) \<noteq> 0
      then let ix = round_half v; ix = (if 0 < ix then ix - 1 else ix) in dur_at s ix
      else if to_int v = 0 then dur_at s 0
      else if to_int v = ?l then dur_at s (?l - 1)
      else case (dur_at s (to_int v), dur_at s (to_int v - 1)) of
             (Inr a, Inr b) \<Rightarrow> Inr (go_div (i64 (a + b)) 2) | (Inl p, _) \<Rightarrow> Inl p | (_, Inl p) \<Rightarrow> Inl p)"
  proof -
    have "durs \<noteq> []" "length durs \<noteq> 1" using assms(1) by auto
    then show ?thesis unfolding pctlFn_def s_def v_def rank_def Let_def by (simp only: if_False length_sort)
  qed
  show ?thesis
  proof (cases "v = of_int \<lfloor>v\<rfloor>")
    case False
    with round_rank [OF v l False] show ?thesis
      unfolding def t fl frac by (simp add: Let_def dur_at_Inr s_def)
  next
    case True
    show ?thesis
      using True f l assms(1) unfolding def t fl frac by (simp add: dur_at_Inr s_def nat_diff_distrib)
  qed
qed

lemma mean_bounds:
  assumes "0 \<le> a" and "a \<le> b" and "b < 2 ^ 62"
  shows "i64 (b + a) = b + a" and "a \<le> go_div (b + a) 2" and "go_div (b + a) 2 \<le> b"
proof -
  show "i64 (b + a) = b + a" using assms by (simp add: in_i64_def)
  show "a \<le> go_div (b + a) 2" "go_div (b + a) 2 \<le> b" using assms by (simp_all add: go_div_nonneg)
qed

text \<open>For the quarters the arithmetic is exact.\<close>

lemma round_half_quarters:
  assumes "0 \<le> k" and "k < 2 ^ 51" and "\<not> 4 dvd k"
  shows "round_half (of_int k / 4) = (k + 2) div 4"
proof (cases "k < 2")
  case True
  then have "(of_int k :: rat) < of_int 2" by (simp only: of_int_less_iff)
  with True assms(1) show ?thesis by (simp add: round_half_def)
next
  case False
  have "(of_int k :: rat) < of_int (2 ^ 51)" using assms(2) by (simp only: of_int_less_iff)
  then have "fl64 (of_int (k + 2) / 4) = of_int (k + 2) / 4"
    using assms(1) by (intro fl64_exact [where k = "k + 2"]) simp_all
  moreover have "(of_int k :: rat) / 4 + 1 / 2 = of_int (k + 2) / 4" by simp
  moreover have "(2 :: rat) \<le> of_int k" using False of_int_le_iff [of 2 k, where 'a = rat] by simp
  then have "round_half (of_int k / 4) = to_int (fl64 (of_int k / 4 + 1 / 2))"
    using assms(1) by (simp add: round_half_def)
  ultimately have "round_half (of_int k / 4) = to_int (of_int (k + 2) / 4)" by (simp only:)
  also have "\<dots> = \<lfloor>(of_int (k + 2) :: rat) / of_int 4\<rfloor>" using assms(1) by (simp add: to_int_def)
  also have "\<dots> = (k + 2) div 4" by (rule floor_divide_of_int_eq)
  finally show ?thesis .
qed

lemma pctlFn_quarters:
  assumes "2 \<le> length durs" and "length durs < 2 ^ 49" and "n = 25 * q" and "0 \<le> q" and "q \<le> 4"
    and "\<And>d. d \<in> set durs \<Longrightarrow> 0 \<le> d \<and> d < 2 ^ 62"
  shows "pctlFn n durs = Inr (percentile n durs)"
proof -
  let ?l = "int (length durs)" and ?s = "sort durs"
  let ?k = "q * ?l"
  have l: "0 < ?l" "?l < 2 ^ 49" using assms(1,2) by auto
  have v: "rank n ?l = of_int ?k / 4" using rank_exact [OF assms(3-5), of ?l] l by simp
  have "\<lfloor>(of_int ?k :: rat) / of_int 4\<rfloor> = ?k div 4" by (rule floor_divide_of_int_eq)
  then have fl: "\<lfloor>rank n ?l\<rfloor> = ?k div 4" unfolding v by (simp only: of_int_numeral)
  have "?k \<le> 4 * ?l" using assms(5) by (intro mult_right_mono) simp_all
  moreover have "4 * ?l < 2 ^ 51" using l by simp
  ultimately have "?k < 2 ^ 51" by (rule le_less_trans)
  moreover have "0 \<le> ?k" using assms(4) by simp
  ultimately have k: "0 \<le> ?k" "?k < 2 ^ 51" by simp_all
  have whole: "rank n ?l = of_int \<lfloor>rank n ?l\<rfloor> \<longleftrightarrow> 4 dvd ?k"
  proof
    assume "rank n ?l = of_int \<lfloor>rank n ?l\<rfloor>"
    then have "(of_int ?k :: rat) = of_int (4 * (?k div 4))" unfolding v fl [unfolded v] by simp
    then show "4 dvd ?k" by (metis dvd_triv_left of_int_eq_iff)
  next
    assume "4 dvd ?k"
    then have "(of_int ?k :: rat) = 4 * of_int (?k div 4)"
      by (metis dvd_mult_div_cancel of_int_mult of_int_numeral)
    then show "rank n ?l = of_int \<lfloor>rank n ?l\<rfloor>" unfolding fl unfolding v by simp
  qed
  have r: "n * ?l = 25 * ?k" using assms(3) by simp
  have dvd: "100 dvd n * ?l \<longleftrightarrow> 4 dvd ?k" unfolding r using dvd_mult_cancel_left [of 25 4 ?k] by simp
  have d: "n * ?l div 100 = ?k div 4" "(2 * (n * ?l) + 100) div 200 = (?k + 2) div 4"
    unfolding r by simp_all
  have mean: "i64 (?s ! i + ?s ! j) = ?s ! i + ?s ! j" if "i < length durs" "j < length durs" for i j
    using assms(6) [of "?s ! i"] assms(6) [of "?s ! j"] that nth_mem [of i ?s] nth_mem [of j ?s]
    by (simp add: in_i64_def)
  have P: "percentile n durs =
      (if 4 dvd ?k then
         if ?k div 4 = 0 then ?s ! 0 else if ?k div 4 = ?l then ?s ! nat (?l - 1)
         else go_div (?s ! nat (?k div 4) + ?s ! nat (?k div 4 - 1)) 2
       else ?s ! nat ((?k + 2) div 4 - 1))"
    by (simp only: percentile_def Let_def length_sort dvd d)
  have n: "0 \<le> n" "n \<le> 100" using assms(3-5) by simp_all
  note R = pctlFn_rank [OF assms(1,2) n, unfolded whole, unfolded fl]
  show ?thesis
  proof (cases "4 dvd ?k")
    case False
    then have "round_half (rank n ?l) = (?k + 2) div 4"
      unfolding v using round_half_quarters [OF k] by simp
    moreover have "0 \<le> (?k + 2) div 4" using k(1) by simp
    ultimately show ?thesis unfolding R P using False by (cases "(?k + 2) div 4 = 0") simp_all
  next
    case True
    have "nat (?l - 1) = length durs - 1" by simp
    moreover have "?k div 4 \<le> ?l" using zdiv_mono1 [OF \<open>?k \<le> 4 * ?l\<close>, of 4] by simp
    ultimately show ?thesis unfolding R P
      using True k mean [of "nat (?k div 4)" "nat (?k div 4 - 1)"] by simp
  qed
qed

lemma sum_fold:
  assumes "\<And>d. d \<in> set durs \<Longrightarrow> 0 \<le> d" and "0 \<le> a" and "a + sum_list durs < 2 ^ 63"
  shows "fold (\<lambda>d sum. i64 (sum + d)) durs a = a + sum_list durs"
  using assms
proof (induction durs arbitrary: a)
  case (Cons d durs)
  have "0 \<le> d" "0 \<le> sum_list durs" using Cons.prems(1) by (auto intro!: sum_list_nonneg)
  moreover from this have "in_i64 (a + d)" using Cons.prems(2,3) by (simp add: in_i64_def)
  ultimately show ?case using Cons.IH [of "a + d"] Cons.prems by (simp add: add.assoc)
qed simp

lemma sum_list_between:
  assumes "\<And>d. d \<in> set durs \<Longrightarrow> lo \<le> d \<and> d \<le> (hi :: int)"
  shows "lo * int (length durs) \<le> sum_list durs \<and> sum_list durs \<le> hi * int (length durs)"
  using assms
proof (induction durs)
  case (Cons d durs)
  have "lo \<le> d \<and> d \<le> hi" by (rule Cons.prems) simp
  moreover have "lo * int (length durs) \<le> sum_list durs \<and> sum_list durs \<le> hi * int (length durs)"
    by (rule Cons.IH) (use Cons.prems in simp)
  ultimately show ?case by (simp add: algebra_simps)
qed simp

lemma avg_between:
  assumes "durs \<noteq> []" and "\<And>d. d \<in> set durs \<Longrightarrow> 0 \<le> d" and "sum_list durs < 2 ^ 63"
  shows "Min (set durs) \<le> avgFn durs \<and> avgFn durs \<le> Max (set durs)"
proof -
  let ?n = "int (length durs)"
  have n: "0 < ?n" using assms(1) by simp
  have s: "0 \<le> sum_list durs" using assms(2) by (auto intro!: sum_list_nonneg)
  have avg: "avgFn durs = sum_list durs div ?n"
    using assms sum_fold [of durs 0] s n by (simp add: avgFn_def go_div_nonneg)
  have b: "Min (set durs) * ?n \<le> sum_list durs" "sum_list durs \<le> Max (set durs) * ?n"
    using sum_list_between [of durs "Min (set durs)" "Max (set durs)"] assms(1) by simp_all
  have "Min (set durs) * ?n div ?n \<le> sum_list durs div ?n" "sum_list durs div ?n \<le> Max (set durs) * ?n div ?n"
    by (rule zdiv_mono1 [OF b(1) n], rule zdiv_mono1 [OF b(2) n])
  then show ?thesis unfolding avg using assms(1) by simp
qed

lemma pctlFn_between:
  assumes "durs \<noteq> []" and "length durs < 2 ^ 49" and "0 \<le> n" and "n \<le> 100"
    and "\<And>d. d \<in> set durs \<Longrightarrow> 0 \<le> d \<and> d < 2 ^ 62"
  shows "\<exists>d. pctlFn n durs = Inr d \<and> Min (set durs) \<le> d \<and> d \<le> Max (set durs)"
proof (cases "length durs = 1")
  case True
  then obtain x where "durs = [x]" by (auto simp: length_Suc_conv)
  then show ?thesis by (simp add: pctlFn_def dur_at_def)
next
  case False
  let ?s = "sort durs" and ?v = "rank n (int (length durs))"
  have len: "2 \<le> length durs" using False assms(1) by (cases durs) (auto simp: Suc_le_eq)
  have el: "Min (set durs) \<le> ?s ! i \<and> ?s ! i \<le> Max (set durs)" if "i < length durs" for i
    using nth_mem [of i ?s] that by simp
  have l: "0 < int (length durs)" "int (length durs) < 2 ^ 49" using len assms(2) by auto
  have v: "0 \<le> ?v" "?v \<le> of_int (int (length durs))"
    using rank_bounds [of n "int (length durs)"] assms(3,4) l by simp_all
  then have f: "0 \<le> \<lfloor>?v\<rfloor>" "\<lfloor>?v\<rfloor> \<le> int (length durs)" by (simp_all add: floor_le_iff)
  have mean: "\<exists>d. Inr (go_div (i64 (?s ! Suc i + ?s ! i)) 2) = (Inr d :: panic + int) \<and> Min (set durs) \<le> d \<and> d \<le> Max (set durs)"
    if "Suc i < length durs" for i
  proof -
    have "?s ! i \<le> ?s ! Suc i" using that by (intro sorted_nth_mono) simp_all
    moreover have "0 \<le> ?s ! i" "?s ! Suc i < 2 ^ 62"
      using assms(5) [of "?s ! i"] assms(5) [of "?s ! Suc i"] nth_mem [of i ?s] nth_mem [of "Suc i" ?s] that by simp_all
    ultimately show ?thesis using mean_bounds [of "?s ! i" "?s ! Suc i"] el [of i] el [of "Suc i"] that by simp
  qed
  show ?thesis
  proof (cases "?v = of_int \<lfloor>?v\<rfloor>")
    case frac: False
    with round_rank [OF v l frac] show ?thesis
      unfolding pctlFn_rank [OF len assms(2-4)] using el by (simp add: nat_less_iff)
  next
    case True
    consider "\<lfloor>?v\<rfloor> = 0" | "\<lfloor>?v\<rfloor> = int (length durs)" | i where "\<lfloor>?v\<rfloor> = int (Suc i)" "Suc i < length durs"
    proof -
      obtain k where k: "\<lfloor>?v\<rfloor> = int k" using f(1) nonneg_int_cases by blast
      then show thesis using that f(2) by (cases "k = length durs"; cases k) auto
    qed
    then show ?thesis
    proof cases
      case 3
      moreover have "nat (int (Suc i) - 1) = i" by simp
      ultimately show ?thesis
        unfolding pctlFn_rank [OF len assms(2-4)] using True mean [of i] by (simp only: nat_int) simp
    qed (use True len assms(1) el [of 0] el [of "length durs - 1"] pctlFn_rank [OF len assms(2-4)] in auto)
  qed
qed

section \<open>Properties of the statistics\<close>

text \<open>
  C35. The statistics of the report: on durations that are not negative and whose sum does not
  overflow, the percentile functions index inside of the slice whatever the rounding of the
  rank, and the average and every percentile lie between the smallest and the largest
  duration. The minimum, the maximum, the median and the other quarters are exactly those of
  the rank computed without rounding.
\<close>

theorem statistics_correct:
  assumes "durs \<noteq> []" and "length durs < 2 ^ 49" and "0 \<le> n" and "n \<le> 100"
    and "\<forall>d \<in> set durs. 0 \<le> d \<and> d < 2 ^ 62" and "sum_list durs < 2 ^ 63"
  shows "(\<exists>d. pctlFn n durs = Inr d \<and> Min (set durs) \<le> d \<and> d \<le> Max (set durs))
    \<and> (25 dvd n \<longrightarrow> 2 \<le> length durs \<longrightarrow> pctlFn n durs = Inr (percentile n durs))
    \<and> pctlFn 0 durs = Inr (Min (set durs)) \<and> pctlFn 100 durs = Inr (Max (set durs))
    \<and> Min (set durs) \<le> avgFn durs \<and> avgFn durs \<le> Max (set durs)"
proof -
  have quarters: "pctlFn n durs = Inr (percentile n durs)"
    if "25 dvd n" "2 \<le> length durs" "0 \<le> n" "n \<le> 100" for n
  proof -
    from that obtain q where "n = 25 * q" by (auto elim: dvdE)
    then show ?thesis using that assms by (intro pctlFn_quarters) auto
  qed
  have ends: "pctlFn 0 durs = Inr (Min (set durs)) \<and> pctlFn 100 durs = Inr (Max (set durs))"
  proof (cases "length durs = 1")
    case True
    then obtain x where "durs = [x]" by (auto simp: length_Suc_conv)
    then show ?thesis by (simp add: pctlFn_def dur_at_def)
  next
    case False
    let ?s = "sort durs"
    have len: "2 \<le> length durs" using False assms(1) by (cases durs) (auto simp: Suc_le_eq)
    have "?s ! 0 \<le> ?s ! i \<and> ?s ! i \<le> ?s ! (length durs - 1)" if "i < length durs" for i
      using that by (intro conjI sorted_nth_mono) auto
    then have b: "?s ! 0 \<le> d \<and> d \<le> ?s ! (length durs - 1)" if "d \<in> set durs" for d
      using that by (metis in_set_conv_nth length_sort set_sort)
    have m: "?s ! 0 \<in> set durs" "?s ! (length durs - 1) \<in> set durs"
      using nth_mem [of 0 ?s] nth_mem [of "length durs - 1" ?s] len assms(1) by auto
    have "Min (set durs) = ?s ! 0" "Max (set durs) = ?s ! (length durs - 1)"
      using b m by (auto intro!: Min_eqI Max_eqI)
    moreover have "?s \<noteq> []" using assms(1) by (metis length_0_conv length_sort)
    then have "percentile 0 durs = ?s ! 0" "percentile 100 durs = ?s ! (length durs - 1)"
      using len by (auto simp: percentile_def Let_def nat_diff_distrib)
    ultimately show ?thesis using quarters [of 0] quarters [of 100] len by simp
  qed
  show ?thesis
    using pctlFn_between [of durs n] avg_between [of durs] quarters [of n] ends assms by blast
qed

theorem statistics_correct_witness:
  "pctlFn 50 [4, 1, 3, 2] = Inr (percentile 50 [4, 1, 3, 2]) \<and> percentile 50 [4, 1, 3, 2] = 2
   \<and> pctlFn 100 [4, 1, 3, 2] = Inr 4"
proof -
  have "percentile 50 [4, 1, 3, 2] = 2" by code_simp
  then show ?thesis using statistics_correct [of "[4, 1, 3, 2]" 50] by simp
qed

section \<open>The client of a connection\<close>

text \<open>\<^verbatim>\<open>getURI\<close>; \<open>n\<close> is the random number, below the number of URIs.\<close>

definition getURI :: "string \<Rightarrow> int \<Rightarrow> int \<Rightarrow> string" where
  "getURI uri nuris n = (if 0 < nuris then uri @ ''.'' @ Itoa n else uri)"

text \<open>
  The state that \<^verbatim>\<open>runClient\<close> and its handler share: the counters of \<^verbatim>\<open>runStats\<close>, the
  wait group, the tokens in the channel \<^verbatim>\<open>next\<close>, the latencies and the start times.
\<close>

record load =
  ld_Calls :: int
  ld_Ack :: int
  ld_Nack :: int
  ld_Res :: int
  ld_Exp :: int
  ld_wg :: int
  ld_next :: nat
  ld_latencies :: "duration list"
  ld_startTimes :: "(string \<times> int) list"

datatype load_end = LoadPanic panic | LoadFatal string

definition start_load :: "duration \<Rightarrow> load" where
  "start_load rate =
     \<lparr>ld_Calls = 0, ld_Ack = 0, ld_Nack = 0, ld_Res = 0, ld_Exp = 0, ld_wg = 0,
      ld_next = (if rate < 0 then 1 else 0), ld_latencies = [], ld_startTimes = []\<rparr>"

text \<open>\<^verbatim>\<open>time.Time.Sub\<close> saturates; a start time that is not in the map is the zero time, more
  than the largest duration ago.\<close>

definition since :: "int \<Rightarrow> int option \<Rightarrow> duration" where
  "since now t =
     (case t of
        None \<Rightarrow> 2 ^ 63 - 1
      | Some t \<Rightarrow> max (- (2 ^ 63)) (min (2 ^ 63 - 1) (now - t)))"

definition wg_Done :: "load \<Rightarrow> load_end + load" where
  "wg_Done ld =
     (if ld_wg ld \<le> 0 then Inl (LoadPanic (PanicValue ''sync: negative WaitGroup counter''))
      else Inr (ld\<lparr>ld_wg := ld_wg ld - 1\<rparr>))"

definition send_next :: "duration \<Rightarrow> load \<Rightarrow> load" where
  "send_next rate ld = (if rate < 0 then ld\<lparr>ld_next := Suc (ld_next ld)\<rparr> else ld)"

definition load_handle :: "'c client_env \<Rightarrow> duration \<Rightarrow> int \<Rightarrow> client_msg \<Rightarrow> load \<Rightarrow> load_end + load" where
  "load_handle E rate now m ld =
     (case m of
        Received (Res x) \<Rightarrow>
          let t = map_of (ld_startTimes ld) (uuid_String (ce_codec E) (res_For x)) in
          wg_Done (send_next rate
            (ld\<lparr>ld_latencies := ld_latencies ld @ [since now t], ld_Res := i64 (ld_Res ld + 1)\<rparr>))
      | Expired x \<Rightarrow> wg_Done (send_next rate (ld\<lparr>ld_Exp := i64 (ld_Exp ld + 1)\<rparr>))
      | Received (Ack x) \<Rightarrow> Inr (ld\<lparr>ld_Ack := i64 (ld_Ack ld + 1)\<rparr>)
      | Received (Nack x) \<Rightarrow> wg_Done (ld\<lparr>ld_Nack := i64 (ld_Nack ld + 1)\<rparr>)
      | Received x \<Rightarrow> Inl (LoadFatal (''unexpected message type '' @ Type_String (ce_registry E) (msg_Type x))))"

text \<open>A send on the channel \<^verbatim>\<open>next\<close>, of capacity one, waits while it is full.\<close>

definition can_handle :: "duration \<Rightarrow> client_msg \<Rightarrow> load \<Rightarrow> bool" where
  "can_handle rate m ld \<longleftrightarrow>
     (case m of Received (Res x) \<Rightarrow> 0 \<le> rate \<or> ld_next ld = 0 | Expired x \<Rightarrow> 0 \<le> rate \<or> ld_next ld = 0 | _ \<Rightarrow> True)"

text \<open>One turn of the loop, up to the call and after it.\<close>

definition load_call :: "duration \<Rightarrow> load \<Rightarrow> load" where
  "load_call rate ld =
     ld\<lparr>ld_next := (if rate < 0 then ld_next ld - 1 else ld_next ld), ld_wg := ld_wg ld + 1,
       ld_Calls := i64 (ld_Calls ld + 1)\<rparr>"

definition load_started :: "string \<Rightarrow> int \<Rightarrow> load \<Rightarrow> load" where
  "load_started k now ld = ld\<lparr>ld_startTimes := AList.update k now (ld_startTimes ld)\<rparr>"

text \<open>
  The loop and the goroutines of the handler: \<open>ls_open\<close> are the keys of the calls that were
  made and not settled, \<open>ls_started\<close> is the call whose start time is not recorded yet. Each
  call is settled by one message: its result, its expiration or a NACK, which is what the
  client delivers when the answer does not overtake the registration of the call. The
  counters are the connection's share of those of \<^verbatim>\<open>runStats\<close>.
\<close>

record load_sys =
  ls_load :: load
  ls_open :: "string list"
  ls_started :: "string option"
  ls_stopped :: bool

definition start_load_sys :: "duration \<Rightarrow> load_sys" where
  "start_load_sys rate = \<lparr>ls_load = start_load rate, ls_open = [], ls_started = None, ls_stopped = False\<rparr>"

inductive load_step :: "'c client_env \<Rightarrow> duration \<Rightarrow> load_sys \<Rightarrow> load_sys \<Rightarrow> bool" for E rate where
  load_step_call:
    "\<not> ls_stopped s \<Longrightarrow> ls_started s = None \<Longrightarrow> 0 \<le> rate \<or> 0 < ld_next (ls_load s) \<Longrightarrow>
     load_step E rate s (s\<lparr>ls_load := load_call rate (ls_load s), ls_open := k # ls_open s, ls_started := Some k\<rparr>)"
| load_step_started:
    "ls_started s = Some k \<Longrightarrow>
     load_step E rate s (s\<lparr>ls_load := load_started k now (ls_load s), ls_started := None\<rparr>)"
| load_step_settled:
    "k \<in> set (ls_open s) \<Longrightarrow> outcome_of E k m \<or> nack_of E k m \<Longrightarrow> can_handle rate m (ls_load s) \<Longrightarrow>
     load_handle E rate now m (ls_load s) = Inr ld \<Longrightarrow>
     load_step E rate s (s\<lparr>ls_load := ld, ls_open := remove1 k (ls_open s)\<rparr>)"
| load_step_ack:
    "load_handle E rate now (Received (Ack a)) (ls_load s) = Inr ld \<Longrightarrow>
     load_step E rate s (s\<lparr>ls_load := ld\<rparr>)"
| load_step_stop: "load_step E rate s (s\<lparr>ls_stopped := True\<rparr>)"

inductive load_run :: "'c client_env \<Rightarrow> duration \<Rightarrow> load_sys \<Rightarrow> bool" for E rate where
  load_run_start: "load_run E rate (start_load_sys rate)"
| load_run_step: "load_run E rate s \<Longrightarrow> load_step E rate s t \<Longrightarrow> load_run E rate t"

text \<open>The wait group counts the open calls, the counters add up, and with a negative rate
  there is one token, one open call, or a NACK that took the token.\<close>

definition load_inv :: "duration \<Rightarrow> load_sys \<Rightarrow> bool" where
  "load_inv rate s \<longleftrightarrow>
     (let ld = ls_load s; n = int (length (ls_open s)) in
      ld_wg ld = n
      \<and> ld_Calls ld = i64 (ld_Res ld + ld_Exp ld + ld_Nack ld + n)
      \<and> ld_Res ld = i64 (int (length (ld_latencies ld)))
      \<and> (rate < 0 \<longrightarrow> 0 \<le> ld_Nack ld \<and> int (ld_next ld) + n + ld_Nack ld = 1)
      \<and> in_i64 (ld_Res ld) \<and> in_i64 (ld_Exp ld) \<and> in_i64 (ld_Nack ld))"

lemma handle_settled:
  assumes "outcome_of E k m \<or> nack_of E k m" and "0 < ld_wg ld"
  obtains ld' r e n where "load_handle E rate now m ld = Inr ld'" "r + e + n = (1 :: nat)"
    "ld_wg ld' = ld_wg ld - 1" "ld_Calls ld' = ld_Calls ld"
    "ld_Res ld' = (if r = 0 then ld_Res ld else i64 (ld_Res ld + 1))"
    "ld_Exp ld' = (if e = 0 then ld_Exp ld else i64 (ld_Exp ld + 1))"
    "ld_Nack ld' = (if n = 0 then ld_Nack ld else i64 (ld_Nack ld + 1))"
    "length (ld_latencies ld') = length (ld_latencies ld) + r"
    "ld_next ld' = (if rate < 0 then ld_next ld + r + e else ld_next ld)"
proof -
  consider x where "m = Received (Res x)" | x where "m = Expired x" | x where "m = Received (Nack x)"
    using assms(1) by (cases m; cases "case m of Received y \<Rightarrow> y") auto
  then show thesis
  proof cases
    case 1 then show ?thesis using assms(2)
      by (intro that [of "projr (load_handle E rate now m ld)" 1 0 0]) (auto simp: load_handle_def wg_Done_def send_next_def Let_def)
  next
    case 2 then show ?thesis using assms(2)
      by (intro that [of "projr (load_handle E rate now m ld)" 0 1 0]) (auto simp: load_handle_def wg_Done_def send_next_def Let_def)
  next
    case 3 then show ?thesis using assms(2)
      by (intro that [of "projr (load_handle E rate now m ld)" 0 0 1]) (auto simp: load_handle_def wg_Done_def send_next_def Let_def)
  qed
qed

lemma i64_carry:
  "i64 (i64 (a + 1) + b + c + (n - 1)) = i64 (a + b + c + n)"
  "i64 (a + i64 (b + 1) + c + (n - 1)) = i64 (a + b + c + n)"
  "i64 (a + b + i64 (c + 1) + (n - 1)) = i64 (a + b + c + n)"
  using i64_add [of "a + 1" "b + c + (n - 1)"] i64_add [of "b + 1" "a + c + (n - 1)"]
    i64_add [of "c + 1" "a + b + (n - 1)"]
  by (simp_all add: algebra_simps)

lemma in_i64_small: "0 \<le> x \<Longrightarrow> x \<le> 1 \<Longrightarrow> in_i64 x"
  by (simp add: in_i64_def)

lemma load_inv_start: "load_inv rate (start_load_sys rate)"
  by (simp add: load_inv_def start_load_sys_def start_load_def in_i64_def)

lemma load_inv_counts:
  assumes "load_inv rate s"
  shows "ld_wg (ls_load s) = int (length (ls_open s))"
    and "ld_Calls (ls_load s)
        = i64 (ld_Res (ls_load s) + ld_Exp (ls_load s) + ld_Nack (ls_load s) + int (length (ls_open s)))"
    and "ld_Res (ls_load s) = i64 (int (length (ld_latencies (ls_load s))))"
  using assms unfolding load_inv_def Let_def by blast+

lemma load_inv_range:
  "load_inv rate s \<Longrightarrow>
     in_i64 (ld_Res (ls_load s)) \<and> in_i64 (ld_Exp (ls_load s)) \<and> in_i64 (ld_Nack (ls_load s))"
  unfolding load_inv_def Let_def by blast

lemma load_inv_tokens:
  assumes "load_inv rate s" and "rate < 0"
  shows "0 \<le> ld_Nack (ls_load s) \<and> int (ld_next (ls_load s)) + int (length (ls_open s)) + ld_Nack (ls_load s) = 1"
  using assms unfolding load_inv_def Let_def by blast

lemma load_inv_settled:
  assumes inv: "load_inv rate s" and k: "k \<in> set (ls_open s)"
    and m: "outcome_of E k m \<or> nack_of E k m"
    and run: "load_handle E rate now m (ls_load s) = Inr ld"
  shows "load_inv rate (s\<lparr>ls_load := ld, ls_open := remove1 k (ls_open s)\<rparr>)"
proof -
  let ?l = "ls_load s" and ?n = "int (length (ls_open s))"
  have n: "0 < ?n" "int (length (remove1 k (ls_open s))) = ?n - 1"
    using k length_pos_if_in_set [OF k] by (simp_all add: length_remove1 of_nat_diff Suc_le_eq)
  note wg = load_inv_counts(1) [OF inv] and calls = load_inv_counts(2) [OF inv]
    and res = load_inv_counts(3) [OF inv] and tokens = load_inv_tokens [OF inv]
    and range = load_inv_range [OF inv]
  have pos: "0 < ld_wg ?l" using wg n(1) by simp
  obtain ld' r e c where ld': "load_handle E rate now m ?l = Inr ld'" and sum: "r + e + c = (1 :: nat)"
    and f: "ld_wg ld' = ld_wg ?l - 1" "ld_Calls ld' = ld_Calls ?l"
    "ld_Res ld' = (if r = 0 then ld_Res ?l else i64 (ld_Res ?l + 1))"
    "ld_Exp ld' = (if e = 0 then ld_Exp ?l else i64 (ld_Exp ?l + 1))"
    "ld_Nack ld' = (if c = 0 then ld_Nack ?l else i64 (ld_Nack ?l + 1))"
    "length (ld_latencies ld') = length (ld_latencies ?l) + r"
    "ld_next ld' = (if rate < 0 then ld_next ?l + r + e else ld_next ?l)"
    by (rule handle_settled [OF m pos, of rate now])
  have ld: "ld' = ld" using ld' run by simp
  consider "r = 1" "e = 0" "c = 0" | "r = 0" "e = 1" "c = 0" | "r = 0" "e = 0" "c = 1" using sum by linarith
  then have "ld_Calls ld = i64 (ld_Res ld + ld_Exp ld + ld_Nack ld + (?n - 1))"
    by cases (simp_all only: calls f [unfolded ld] i64_carry if_True if_False one_neq_zero simp_thms)
  moreover have "ld_Res ld = i64 (int (length (ld_latencies ld)))"
  proof (cases "r = 0")
    case False
    then have "r = 1" using sum by simp
    then show ?thesis by (simp add: f [unfolded ld] res add.commute)
  qed (simp add: f [unfolded ld] res)
  moreover have "0 \<le> ld_Nack ld \<and> int (ld_next ld) + (?n - 1) + ld_Nack ld = 1" if rate: "rate < 0"
  proof -
    have "i64 (ld_Nack ?l + 1) = ld_Nack ?l + 1"
      using tokens [OF rate] n(1) by (intro i64_id in_i64_small) linarith+
    then show ?thesis using tokens [OF rate] sum rate n(1) f(5,7) unfolding ld by (cases "c = 0") auto
  qed
  moreover have "in_i64 (ld_Res ld) \<and> in_i64 (ld_Exp ld) \<and> in_i64 (ld_Nack ld)"
    using range by (simp add: f [unfolded ld])
  ultimately show ?thesis
    unfolding load_inv_def Let_def using f(1) wg n(2) ld by simp
qed

lemma load_inv_step:
  assumes "load_step E rate s t" and inv: "load_inv rate s"
  shows "load_inv rate t"
  using assms(1)
proof cases
  case (load_step_call k)
  have "i64 (ld_Calls (ls_load s) + 1)
      = i64 (ld_Res (ls_load s) + ld_Exp (ls_load s) + ld_Nack (ls_load s) + (1 + int (length (ls_open s))))"
    using inv by (simp add: load_inv_def Let_def algebra_simps)
  with load_step_call inv show ?thesis
    by (auto simp: load_inv_def Let_def load_call_def of_nat_diff)
next
  case (load_step_started k now)
  then show ?thesis using inv by (simp add: load_inv_def Let_def load_started_def)
next
  case (load_step_settled k m now ld)
  then show ?thesis using load_inv_settled [OF inv] by blast
next
  case (load_step_ack now a ld)
  then show ?thesis using inv by (auto simp: load_inv_def Let_def load_handle_def)
next
  case load_step_stop
  then show ?thesis using inv by (simp add: load_inv_def Let_def)
qed

lemma load_run_inv: "load_run E rate s \<Longrightarrow> load_inv rate s"
  by (induction rule: load_run.induct) (auto intro: load_inv_start load_inv_step)


definition example_load_nack :: nack where
  "example_load_nack =
     \<lparr>nack_Meta = NewMeta NackMsg example_uuid, nack_For = example_uuid, nack_ForType = CallMsg,
      nack_URI = ''test.echo'', nack_Channel = '''', nack_Code = 500, nack_Message = '''', nack_Err = None\<rparr>"


end
