(* ===== verification/Load_Report.thy ===== *)
theory Load_Report
  imports Load
begin

text \<open>
  The report of the load generator (\<^verbatim>\<open>cmd/juggler-load\<close>): the variables that the server
  publishes and their decoding, the end of a client, \<^verbatim>\<open>main\<close>, and the template with the
  printing of durations and sizes. The parsing of the address and the HTTP client are
  parameters.
\<close>

section \<open>Printing: time.Duration and fmt\<close>

definition Microsecond :: duration where "Microsecond = 1000"

text \<open>The fraction \<open>v / 10 ^ prec\<close>: the digits after the point, without the zeros at the end, and
  the point itself only when there are digits.\<close>

fun frac_digits :: "nat \<Rightarrow> int \<Rightarrow> bool \<Rightarrow> string" where
  "frac_digits 0 v print = []"
| "frac_digits (Suc n) v print =
     (let print = (print \<or> v mod 10 \<noteq> 0) in
      frac_digits n (v div 10) print @ (if print then Itoa (v mod 10) else []))"

definition fmtFrac :: "nat \<Rightarrow> int \<Rightarrow> string \<times> int" where
  "fmtFrac prec v =
     (let ds = frac_digits prec v False in ((if ds = [] then [] else CHR ''.'' # ds), v div 10 ^ prec))"

definition micro_sign :: string where
  "micro_sign = [char_of (194 :: nat), char_of (181 :: nat)]"

definition Duration_String :: "duration \<Rightarrow> string" where
  "Duration_String d =
     (let u = \<bar>d\<bar>;
          text =
            (if u = 0 then ''0s''
             else if u < Microsecond then Itoa u @ ''ns''
             else if u < Millisecond then (case fmtFrac 3 u of (f, v) \<Rightarrow> Itoa v @ f @ micro_sign @ ''s'')
             else if u < Second then (case fmtFrac 6 u of (f, v) \<Rightarrow> Itoa v @ f @ ''ms'')
             else
               (case fmtFrac 9 u of (f, s) \<Rightarrow>
                  let m = s div 60; h = m div 60 in
                  (if 0 < h then Itoa h @ ''h'' else []) @ (if 0 < m then Itoa (m mod 60) @ ''m'' else [])
                  @ Itoa (s mod 60) @ f @ ''s'')) in
      (if d < 0 then CHR ''-'' # text else text))"

lemma frac_digits_numeral [simp]:
  "frac_digits (numeral k) v print =
     (let print = (print \<or> v mod 10 \<noteq> 0) in
      frac_digits (pred_numeral k) (v div 10) print @ (if print then Itoa (v mod 10) else []))"
  by (simp add: numeral_eq_Suc)

lemma Duration_examples:
  "Duration_String (1500 * Millisecond) = ''1.5s''" "Duration_String (100 * Millisecond) = ''100ms''"
  "Duration_String (- (61 * Minute + 50 * Millisecond)) = ''-1h1m0.05s''" "Duration_String 0 = ''0s''"
  by (simp_all add: Duration_String_def fmtFrac_def Microsecond_def Millisecond_def Second_def Minute_def
      Itoa_def show_nat.simps digit_char_def Let_def) code_simp+

text \<open>The verbs \<^verbatim>\<open>%-15v\<close> and \<^verbatim>\<open>%-15d\<close> pad to 15 runes on the right.\<close>

fun rune_count :: "string \<Rightarrow> nat" where
  "rune_count [] = 0"
| "rune_count (a # s) =
     (case rune_len (a # s) of 0 \<Rightarrow> Suc (rune_count s) | Suc n \<Rightarrow> Suc (rune_count (drop n s)))"

definition pad15 :: "string \<Rightarrow> string" where
  "pad15 s = s @ replicate (15 - rune_count s) (CHR '' '')"

section \<open>Sizes\<close>

text \<open>\<^verbatim>\<open>byteSize\<close> is a \<^verbatim>\<open>float64\<close>; the constants \<^verbatim>\<open>kb\<close> to \<^verbatim>\<open>yb\<close> with the suffix
  that \<^verbatim>\<open>String\<close> prints, from the largest.\<close>

definition byte_units :: "(rat \<times> string) list" where
  "byte_units =
     [(2 ^ 80, ''YB''), (2 ^ 70, ''ZB''), (2 ^ 60, ''EB''), (2 ^ 50, ''PB''), (2 ^ 40, ''TB''), (2 ^ 30, ''GB''),
      (2 ^ 20, ''MB''), (2 ^ 10, ''KB'')]"

text \<open>The verb \<^verbatim>\<open>%.2f\<close>, which rounds the exact value to the nearest, ties to even.\<close>

definition fixed2 :: "rat \<Rightarrow> string" where
  "fixed2 x =
     (let n = rne (\<bar>x\<bar> * 100) in
      (if x < 0 then ''-'' else []) @ Itoa (n div 100) @ ''.'' @ Itoa (n mod 100 div 10) @ Itoa (n mod 10))"

fun byte_unit :: "(rat \<times> string) list \<Rightarrow> rat \<Rightarrow> rat \<times> string" where
  "byte_unit [] cmp = (1, ''B'')"
| "byte_unit (u # us) cmp = (if fst u \<le> cmp then u else byte_unit us cmp)"

text \<open>The divisors are powers of two, so that the division is exact.\<close>

definition byteSize_String :: "rat \<Rightarrow> string" where
  "byteSize_String b =
     (let cmp = (if b < 0 then - b else b); u = byte_unit byte_units cmp in fixed2 (b / fst u) @ snd u)"

definition subfFn :: "rat \<Rightarrow> rat \<Rightarrow> rat" where
  "subfFn a b = fl64 (a - b)"

text \<open>The number printed with a unit below the largest one is less than 1024 and, above bytes,
  not less than 1.\<close>

lemma byte_unit_range:
  assumes "0 \<le> x" and "x < 2 ^ 90"
  shows "x / fst (byte_unit byte_units x) < 1024"
    and "snd (byte_unit byte_units x) \<noteq> ''B'' \<Longrightarrow> 1 \<le> x / fst (byte_unit byte_units x)"
  using assms by (simp_all add: byte_units_def divide_less_eq le_divide_eq split: if_splits)

lemma byteSize_examples:
  "byteSize_String 0 = ''0.00B''" "byteSize_String (- 1536) = ''-1.50KB''" "byteSize_String 1023 = ''1023.00B''"
  by code_simp+

section \<open>The variables of the server\<close>

record juggler_vars =
  jv_ActiveConnGoros :: int
  jv_ActiveConns :: int
  jv_MsgsCALL :: int
  jv_MsgsNACK :: int
  jv_Msgs :: int
  jv_MsgsACK :: int
  jv_MsgsRead :: int
  jv_RecoveredPanics :: int
  jv_MsgsRES :: int
  jv_SlowProcessMsg :: int
  jv_SlowProcessMsgCALL :: int
  jv_SlowProcessMsgNACK :: int
  jv_SlowProcessMsgACK :: int
  jv_SlowProcessMsgRES :: int
  jv_TotalConnGoros :: int
  jv_TotalConns :: int
  jv_MsgsWrite :: int

record memstats =
  ms_Alloc :: rat
  ms_TotalAlloc :: rat
  ms_Mallocs :: int
  ms_Frees :: int
  ms_HeapAlloc :: rat
  ms_HeapInuse :: rat
  ms_HeapObjects :: int
  ms_StackInuse :: rat
  ms_NumGC :: int
  ms_PauseTotalNs :: duration

record expVars =
  ev_Juggler :: juggler_vars
  ev_Memstats :: memstats

definition zero_expVars :: expVars where
  "zero_expVars =
     \<lparr>ev_Juggler =
        \<lparr>jv_ActiveConnGoros = 0, jv_ActiveConns = 0, jv_MsgsCALL = 0, jv_MsgsNACK = 0, jv_Msgs = 0, jv_MsgsACK = 0,
         jv_MsgsRead = 0, jv_RecoveredPanics = 0, jv_MsgsRES = 0, jv_SlowProcessMsg = 0, jv_SlowProcessMsgCALL = 0,
         jv_SlowProcessMsgNACK = 0, jv_SlowProcessMsgACK = 0, jv_SlowProcessMsgRES = 0, jv_TotalConnGoros = 0,
         jv_TotalConns = 0, jv_MsgsWrite = 0\<rparr>,
      ev_Memstats =
        \<lparr>ms_Alloc = 0, ms_TotalAlloc = 0, ms_Mallocs = 0, ms_Frees = 0, ms_HeapAlloc = 0, ms_HeapInuse = 0,
         ms_HeapObjects = 0, ms_StackInuse = 0, ms_NumGC = 0, ms_PauseTotalNs = 0\<rparr>\<rparr>"

text \<open>
  Decoding a number into a \<^verbatim>\<open>float64\<close>: the lexeme of a JSON number as a rational, rounded to
  the nearest \<^verbatim>\<open>float64\<close>, which is subnormal for small numbers and an error when it is out of
  range.
\<close>

definition digits_of :: "string \<Rightarrow> string \<times> string" where
  "digits_of s = (takeWhile (\<lambda>c. digit_val c \<noteq> None) s, dropWhile (\<lambda>c. digit_val c \<noteq> None) s)"

definition read_exponent :: "string \<Rightarrow> int option" where
  "read_exponent s =
     (case s of
        [] \<Rightarrow> Some 0
      | c # cs \<Rightarrow>
          if c \<noteq> CHR ''e'' \<and> c \<noteq> CHR ''E'' then None
          else case cs of
            [] \<Rightarrow> None
          | d # ds \<Rightarrow>
              if d = CHR ''-'' then map_option (\<lambda>n. - int n) (read_nat ds)
              else if d = CHR ''+'' then map_option int (read_nat ds)
              else map_option int (read_nat cs))"

definition read_decimal :: "string \<Rightarrow> rat option" where
  "read_decimal s =
     (case digits_of s of (whole, rest) \<Rightarrow>
        case (if rest \<noteq> [] \<and> hd rest = CHR ''.'' then digits_of (tl rest) else ([], rest)) of (decs, rest) \<Rightarrow>
          case (read_nat whole, read_nat (whole @ decs), read_exponent rest) of
            (Some _, Some n, Some e) \<Rightarrow> Some (of_nat n * 10 powi (e - int (length decs)))
          | _ \<Rightarrow> None)"

definition to_float64 :: "rat \<Rightarrow> rat option" where
  "to_float64 x =
     (let y = (if \<bar>x\<bar> < 2 powi (- 1022) then of_int (rne (x * 2 powi 1074)) * 2 powi (- 1074) else fl64 x) in
      if \<bar>y\<bar> < 2 powi 1024 then Some y else None)"

definition ParseFloat :: "string \<Rightarrow> rat option" where
  "ParseFloat s =
     (case (case s of [] \<Rightarrow> None
            | c # cs \<Rightarrow> if c = CHR ''-'' then map_option uminus (read_decimal cs) else read_decimal s) of
        None \<Rightarrow> None
      | Some x \<Rightarrow> to_float64 x)"

fun decode_float :: "rat \<Rightarrow> json \<Rightarrow> rat option" where
  "decode_float old JNull = Some old"
| "decode_float old (JNum lexeme) = ParseFloat lexeme"
| "decode_float old _ = None"

definition juggler_fields :: "juggler_vars field list" where
  "juggler_fields =
     [field ''ActiveConnGoros'' jv_ActiveConnGoros jv_ActiveConnGoros_update decode_int,
      field ''ActiveConns'' jv_ActiveConns jv_ActiveConns_update decode_int,
      field ''MsgsCALL'' jv_MsgsCALL jv_MsgsCALL_update decode_int,
      field ''MsgsNACK'' jv_MsgsNACK jv_MsgsNACK_update decode_int,
      field ''Msgs'' jv_Msgs jv_Msgs_update decode_int,
      field ''MsgsACK'' jv_MsgsACK jv_MsgsACK_update decode_int,
      field ''MsgsRead'' jv_MsgsRead jv_MsgsRead_update decode_int,
      field ''RecoveredPanics'' jv_RecoveredPanics jv_RecoveredPanics_update decode_int,
      field ''MsgsRES'' jv_MsgsRES jv_MsgsRES_update decode_int,
      field ''SlowProcessMsg'' jv_SlowProcessMsg jv_SlowProcessMsg_update decode_int,
      field ''SlowProcessMsgCALL'' jv_SlowProcessMsgCALL jv_SlowProcessMsgCALL_update decode_int,
      field ''SlowProcessMsgNACK'' jv_SlowProcessMsgNACK jv_SlowProcessMsgNACK_update decode_int,
      field ''SlowProcessMsgACK'' jv_SlowProcessMsgACK jv_SlowProcessMsgACK_update decode_int,
      field ''SlowProcessMsgRES'' jv_SlowProcessMsgRES jv_SlowProcessMsgRES_update decode_int,
      field ''TotalConnGoros'' jv_TotalConnGoros jv_TotalConnGoros_update decode_int,
      field ''TotalConns'' jv_TotalConns jv_TotalConns_update decode_int,
      field ''MsgsWrite'' jv_MsgsWrite jv_MsgsWrite_update decode_int]"

definition memstats_fields :: "memstats field list" where
  "memstats_fields =
     [field ''Alloc'' ms_Alloc ms_Alloc_update decode_float,
      field ''TotalAlloc'' ms_TotalAlloc ms_TotalAlloc_update decode_float,
      field ''Mallocs'' ms_Mallocs ms_Mallocs_update decode_int,
      field ''Frees'' ms_Frees ms_Frees_update decode_int,
      field ''HeapAlloc'' ms_HeapAlloc ms_HeapAlloc_update decode_float,
      field ''HeapInuse'' ms_HeapInuse ms_HeapInuse_update decode_float,
      field ''HeapObjects'' ms_HeapObjects ms_HeapObjects_update decode_int,
      field ''StackInuse'' ms_StackInuse ms_StackInuse_update decode_float,
      field ''NumGC'' ms_NumGC ms_NumGC_update decode_int,
      field ''PauseTotalNs'' ms_PauseTotalNs ms_PauseTotalNs_update decode_int]"

definition expVars_fields :: "expVars field list" where
  "expVars_fields =
     [field ''Juggler'' ev_Juggler ev_Juggler_update (\<lambda>old j. decode_struct juggler_fields j old),
      field ''Memstats'' ev_Memstats ev_Memstats_update (\<lambda>old j. decode_struct memstats_fields j old)]"

text \<open>The outcome of the request: an error, or the status code, its text and the body.\<close>

type_synonym http_response = "(int \<times> string \<times> wire) result"

definition getExpVars :: "http_response \<Rightarrow> expVars result" where
  "getExpVars res =
     (case res of
        Inl e \<Rightarrow> Inl (ErrWrap ''failed to fetch /debug/vars'' e)
      | Inr (code, status, body) \<Rightarrow>
          if 300 \<le> code then Inl (ErrText (''failed to fetch /debug/vars: '' @ Itoa code @ '' '' @ status))
          else case body of
            None \<Rightarrow> Inl (ErrWrap ''failed to decode expvars'' ErrJSON)
          | Some j \<Rightarrow>
              (case decode_struct expVars_fields j zero_expVars of
                 None \<Rightarrow> Inl (ErrWrap ''failed to decode expvars'' ErrJSON)
               | Some ev \<Rightarrow> Inr ev))"

section \<open>The ends of a connection\<close>

text \<open>\<^verbatim>\<open>runClient\<close> before its loop and after it. \<open>dialed\<close> is the outcome of the dialer; \<open>ended\<close> is
  what the read loop of the client does until it ends, which \<^verbatim>\<open>Close\<close> waits for. The end
  is reached when the loop is left and the wait group is zero.\<close>

definition load_dial :: "'c result \<Rightarrow> 'c Client result" where
  "load_dial dialed =
     (case Dial dialed [SetHandler True] of Inl e \<Rightarrow> Inl (ErrWrap ''Dial failed'' e) | Inr c \<Rightarrow> Inr c)"

definition load_finish ::
  "'c client_env \<Rightarrow> ('c Client \<Rightarrow> 'c Client) \<Rightarrow> 'c Client \<Rightarrow> load_sys \<Rightarrow> load result option" where
  "load_finish E ended c s =
     (if ls_stopped s \<and> ls_started s = None \<and> ld_wg (ls_load s) = 0
      then Some (case Close_begin E c of (es, c) \<Rightarrow>
             (case Close_end es (ended c) of
                (Some e, c) \<Rightarrow> Inl (ErrWrap ''Close failed'' e)
              | (None, c) \<Rightarrow> Inr (ls_load s)))
      else None)"

section \<open>The main function\<close>

record load_flags =
  lf_addr :: string
  lf_conn :: int
  lf_duration :: duration
  lf_delay :: duration
  lf_help :: bool
  lf_numURIs :: int
  lf_payload :: string
  lf_subproto :: string
  lf_callRate :: duration
  lf_callTimeout :: duration
  lf_uri :: string
  lf_noDebugVars :: bool
  lf_wait :: duration

definition default_load_flags :: load_flags where
  "default_load_flags =
     \<lparr>lf_addr = ''ws://localhost:9000/ws'', lf_conn = 100, lf_duration = 10 * Second, lf_delay = 0,
      lf_help = False, lf_numURIs = 0, lf_payload = ''100'', lf_subproto = ''juggler.0'',
      lf_callRate = 100 * Millisecond, lf_callTimeout = Second, lf_uri = ''test.delay'',
      lf_noDebugVars = False, lf_wait = 5 * Second\<rparr>"

record runStats =
  rs_Addr :: string
  rs_Protocol :: string
  rs_URI :: string
  rs_NURIs :: int
  rs_Payload :: string
  rs_Conns :: int
  rs_Rate :: duration
  rs_Timeout :: duration
  rs_Duration :: duration
  rs_ActualDuration :: duration
  rs_Calls :: int
  rs_Ack :: int
  rs_Nack :: int
  rs_Res :: int
  rs_Exp :: int

record templateStats =
  ts_Run :: runStats
  ts_Before :: expVars
  ts_After :: expVars
  ts_Latencies :: "duration list"

definition load_stats :: "load_flags \<Rightarrow> runStats" where
  "load_stats F =
     \<lparr>rs_Addr = lf_addr F, rs_Protocol = lf_subproto F, rs_URI = lf_uri F, rs_NURIs = lf_numURIs F,
      rs_Payload = lf_payload F, rs_Conns = lf_conn F, rs_Rate = lf_callRate F, rs_Timeout = lf_callTimeout F,
      rs_Duration = lf_duration F, rs_ActualDuration = 0, rs_Calls = 0, rs_Ack = 0, rs_Nack = 0, rs_Res = 0,
      rs_Exp = 0\<rparr>"

text \<open>The counters of \<^verbatim>\<open>runStats\<close> are shared by the connections, which add to them: their
  value is the sum of the shares of the connections.\<close>

definition total :: "(load \<Rightarrow> int) \<Rightarrow> load list \<Rightarrow> int" where
  "total share lds = i64 (\<Sum>ld\<leftarrow>lds. share ld)"

definition counted_stats :: "load list \<Rightarrow> runStats \<Rightarrow> runStats" where
  "counted_stats lds rs =
     rs\<lparr>rs_Calls := total ld_Calls lds, rs_Ack := total ld_Ack lds, rs_Nack := total ld_Nack lds,
       rs_Res := total ld_Res lds, rs_Exp := total ld_Exp lds\<rparr>"

text \<open>
  What \<^verbatim>\<open>main\<close> depends on: the outcome of parsing the address, those of the two requests for
  the variables, the outcomes of dialing, in the order in which the connections start, the
  outcomes of the connections, in the order in which they end, as many as end within the
  time to wait, and the times of the start and of the end.
\<close>

record load_world =
  lw_parsed :: "unit result"
  lw_before :: http_response
  lw_after :: http_response
  lw_starts :: "unit result list"
  lw_ends :: "load result list"
  lw_start :: int
  lw_end :: int

datatype load_main_end = LoadUsage | LoadExit err | LoadWaits | LoadReport "string list" templateStats

text \<open>The first \<open>n\<close> values that a channel gives; a goroutine that fails ends the program. The
  result is None when there are not that many values.\<close>

fun receive_all :: "nat \<Rightarrow> 'a result list \<Rightarrow> 'a list result option" where
  "receive_all 0 rs = Some (Inr [])"
| "receive_all (Suc n) [] = None"
| "receive_all (Suc n) (Inl e # rs) = Some (Inl e)"
| "receive_all (Suc n) (Inr x # rs) = map_option (map_sum id (Cons x)) (receive_all n rs)"

definition fetch_vars :: "load_flags \<Rightarrow> http_response \<Rightarrow> expVars result" where
  "fetch_vars F res = (if lf_noDebugVars F then Inr zero_expVars else getExpVars res)"

definition load_log :: "runStats \<Rightarrow> string list" where
  "load_log rs =
     [Itoa (rs_Conns rs) @ '' connections started at rate '' @ Duration_String (rs_Rate rs) @ ''...'',
      ''stopping...'', ''stopped.'']"

definition load_main :: "load_world \<Rightarrow> load_flags \<Rightarrow> load_main_end" where
  "load_main W F =
     (if lf_help F then LoadUsage
      else if lf_conn F \<le> 0 then LoadExit (ErrText ''invalid -c value, must be greater than 0'')
      else
        let stats = load_stats F in
        case lw_parsed W of
          Inl e \<Rightarrow> LoadExit (ErrWrap ''failed to parse --addr'' e)
        | Inr _ \<Rightarrow>
            (case fetch_vars F (lw_before W) of
               Inl e \<Rightarrow> LoadExit e
             | Inr before \<Rightarrow>
                 (case receive_all (nat (rs_Conns stats)) (lw_starts W) of
                    None \<Rightarrow> LoadWaits
                  | Some (Inl e) \<Rightarrow> LoadExit e
                  | Some (Inr _) \<Rightarrow>
                      (case receive_all (nat (rs_Conns stats)) (lw_ends W) of
                         None \<Rightarrow> LoadExit (ErrText ''failed to stop clients'')
                       | Some (Inl e) \<Rightarrow> LoadExit e
                       | Some (Inr lds) \<Rightarrow>
                           let stats = (counted_stats lds stats)
                                 \<lparr>rs_ActualDuration := since (lw_end W) (Some (lw_start W))\<rparr> in
                           case fetch_vars F (lw_after W) of
                             Inl e \<Rightarrow> LoadExit e
                           | Inr after \<Rightarrow>
                               LoadReport (load_log stats)
                                 \<lparr>ts_Run = stats, ts_Before = before, ts_After = after,
                                  ts_Latencies = concat (map ld_latencies lds)\<rparr>))))"

section \<open>The template\<close>

definition label :: "nat \<Rightarrow> string \<Rightarrow> string" where
  "label w name = name @ CHR '':'' # replicate (w - Suc (length name)) (CHR '' '')"

definition config_lines :: "runStats \<Rightarrow> string list" where
  "config_lines rs =
     [''--- CONFIGURATION'',
      '''',
      label 12 ''Address'' @ rs_Addr rs,
      label 12 ''Protocol'' @ rs_Protocol rs,
      label 12 ''URI'' @ rs_URI rs @ '' x '' @ Itoa (rs_NURIs rs),
      label 12 ''Payload'' @ rs_Payload rs,
      '''',
      label 13 ''Connections'' @ Itoa (rs_Conns rs),
      label 13 ''Rate'' @ Duration_String (rs_Rate rs),
      label 13 ''Timeout'' @ Duration_String (rs_Timeout rs),
      label 13 ''Duration'' @ Duration_String (rs_Duration rs),
      '''',
      ''--- CLIENT STATISTICS'',
      '''',
      label 17 ''Actual Duration'' @ Duration_String (rs_ActualDuration rs),
      label 17 ''Calls'' @ Itoa (rs_Calls rs),
      label 17 ''Acks'' @ Itoa (rs_Ack rs),
      label 17 ''Nacks'' @ Itoa (rs_Nack rs),
      label 17 ''Results'' @ Itoa (rs_Res rs),
      label 17 ''Expired'' @ Itoa (rs_Exp rs),
      '''']"

definition pctl_line :: "string \<Rightarrow> int \<Rightarrow> duration list \<Rightarrow> panic + string" where
  "pctl_line name n durs = map_sum id (\<lambda>d. label 17 name @ Duration_String d) (pctlFn n durs)"

text \<open>The functions of a template are called in the order of the text; a panic of one ends the
  program.\<close>

fun sequence :: "(panic + 'a) list \<Rightarrow> panic + 'a list" where
  "sequence [] = Inr []"
| "sequence (Inl p # xs) = Inl p"
| "sequence (Inr x # xs) = map_sum id (Cons x) (sequence xs)"

definition latency_lines :: "duration list \<Rightarrow> panic + string list" where
  "latency_lines durs =
     sequence
       [Inr ''--- CLIENT LATENCIES'',
        Inr '''',
        pctl_line ''Minimum'' 0 durs,
        pctl_line ''Maximum'' 100 durs,
        Inr (label 17 ''Average'' @ Duration_String (avgFn durs)),
        pctl_line ''Median'' 50 durs,
        pctl_line ''75th Percentile'' 75 durs,
        pctl_line ''90th Percentile'' 90 durs,
        pctl_line ''99th Percentile'' 99 durs,
        Inr '''']"

text \<open>A row of a table: the value before, the value after and the difference.\<close>

definition row :: "nat \<Rightarrow> ('a \<Rightarrow> string) \<Rightarrow> ('a \<Rightarrow> 'a \<Rightarrow> 'a) \<Rightarrow> string \<Rightarrow> 'a \<Rightarrow> 'a \<Rightarrow> string" where
  "row w print sub name before after =
     label w name @ pad15 (print before) @ '' '' @ pad15 (print after) @ '' '' @ print (sub after before)"

definition memory_lines :: "memstats \<Rightarrow> memstats \<Rightarrow> string list" where
  "memory_lines b a =
     (let size = row 16 byteSize_String subfFn; count = row 16 Itoa subiFn; time = row 16 Duration_String subdFn in
      [''--- SERVER STATISTICS'',
       '''',
       ''Memory          Before          After           Diff.'',
       ''---------------------------------------------------------------'',
       size ''Alloc'' (ms_Alloc b) (ms_Alloc a),
       size ''TotalAlloc'' (ms_TotalAlloc b) (ms_TotalAlloc a),
       count ''Mallocs'' (ms_Mallocs b) (ms_Mallocs a),
       count ''Frees'' (ms_Frees b) (ms_Frees a),
       size ''HeapAlloc'' (ms_HeapAlloc b) (ms_HeapAlloc a),
       size ''HeapInuse'' (ms_HeapInuse b) (ms_HeapInuse a),
       count ''HeapObjects'' (ms_HeapObjects b) (ms_HeapObjects a),
       size ''StackInuse'' (ms_StackInuse b) (ms_StackInuse a),
       count ''NumGC'' (ms_NumGC b) (ms_NumGC a),
       time ''PauseTotalNs'' (ms_PauseTotalNs b) (ms_PauseTotalNs a),
       ''''])"

definition counter_lines :: "juggler_vars \<Rightarrow> juggler_vars \<Rightarrow> string list" where
  "counter_lines b a =
     (let count = row 20 Itoa subiFn in
      [''Counter             Before          After           Diff.'',
       ''----------------------------------------------------------------'',
       count ''ActiveConnGoros'' (jv_ActiveConnGoros b) (jv_ActiveConnGoros a),
       count ''ActiveConns'' (jv_ActiveConns b) (jv_ActiveConns a),
       count ''MsgsRead'' (jv_MsgsRead b) (jv_MsgsRead a),
       count ''MsgsWrite'' (jv_MsgsWrite b) (jv_MsgsWrite a),
       count ''MsgsCALL'' (jv_MsgsCALL b) (jv_MsgsCALL a),
       count ''MsgsACK'' (jv_MsgsACK b) (jv_MsgsACK a),
       count ''MsgsNACK'' (jv_MsgsNACK b) (jv_MsgsNACK a),
       count ''Msgs'' (jv_Msgs b) (jv_Msgs a),
       count ''MsgsRES'' (jv_MsgsRES b) (jv_MsgsRES a),
       count ''RecoveredPanics'' (jv_RecoveredPanics b) (jv_RecoveredPanics a),
       count ''SlowProcessMsg'' (jv_SlowProcessMsg b) (jv_SlowProcessMsg a),
       count ''SlowProcessMsgCALL'' (jv_SlowProcessMsgCALL b) (jv_SlowProcessMsgCALL a),
       count ''SlowProcessMsgACK'' (jv_SlowProcessMsgACK b) (jv_SlowProcessMsgACK a),
       count ''SlowProcessMsgNACK'' (jv_SlowProcessMsgNACK b) (jv_SlowProcessMsgNACK a),
       count ''SlowProcessMsgRES'' (jv_SlowProcessMsgRES b) (jv_SlowProcessMsgRES a),
       count ''TotalConnGoros'' (jv_TotalConnGoros b) (jv_TotalConnGoros a),
       count ''TotalConns'' (jv_TotalConns b) (jv_TotalConns a),
       '''',
       ''''])"

definition report_lines :: "templateStats \<Rightarrow> panic + string list" where
  "report_lines ts =
     map_sum id
       (\<lambda>ls. config_lines (ts_Run ts) @ ls
          @ memory_lines (ev_Memstats (ts_Before ts)) (ev_Memstats (ts_After ts))
          @ counter_lines (ev_Juggler (ts_Before ts)) (ev_Juggler (ts_After ts)))
       (latency_lines (ts_Latencies ts))"

text \<open>The text begins with a line break and each line after it.\<close>

definition report_text :: "templateStats \<Rightarrow> panic + string" where
  "report_text ts = map_sum id (\<lambda>ls. concat (map (\<lambda>l. CHR 0x0A # l) ls)) (report_lines ts)"

section \<open>Lemmas on the report\<close>

definition counters :: "(string \<times> (juggler_vars \<Rightarrow> int)) list" where
  "counters =
     [(''ActiveConnGoros'', jv_ActiveConnGoros), (''ActiveConns'', jv_ActiveConns), (''MsgsCALL'', jv_MsgsCALL),
      (''MsgsNACK'', jv_MsgsNACK), (''Msgs'', jv_Msgs), (''MsgsACK'', jv_MsgsACK), (''MsgsRead'', jv_MsgsRead),
      (''RecoveredPanics'', jv_RecoveredPanics), (''MsgsRES'', jv_MsgsRES), (''SlowProcessMsg'', jv_SlowProcessMsg),
      (''SlowProcessMsgCALL'', jv_SlowProcessMsgCALL), (''SlowProcessMsgNACK'', jv_SlowProcessMsgNACK),
      (''SlowProcessMsgACK'', jv_SlowProcessMsgACK), (''SlowProcessMsgRES'', jv_SlowProcessMsgRES),
      (''TotalConnGoros'', jv_TotalConnGoros), (''TotalConns'', jv_TotalConns), (''MsgsWrite'', jv_MsgsWrite)]"

text \<open>A key that is the name of a field sets this field and no other.\<close>

lemma find_field_named:
  assumes "distinct (map fst fs)" and "g \<in> set fs"
  shows "find_field fs (fst g) = Some (snd g)"
proof -
  from assms(2) obtain xs ys where fs: "fs = xs @ g # ys" by (auto simp: in_set_conv_decomp)
  have "fst g \<notin> fst ` set xs" using assms(1) unfolding fs by simp
  then have "fst f \<noteq> fst g" if "f \<in> set xs" for f using that by (metis imageI)
  then have "filter (\<lambda>f. fst f = fst g) xs = []" by (simp add: filter_empty_conv)
  with fs show ?thesis by (simp add: find_field_def)
qed

lemma counters_distinct: "distinct (map fst counters)"
  by (simp add: counters_def)

lemma counter_names: "map fst juggler_fields = map fst counters"
  by (simp add: counters_def juggler_fields_def fst_field)

lemma counter_set:
  assumes "g \<in> set juggler_fields" and "in_i64 x"
  shows "\<exists>s'. snd g (encode_int x) s = Some s'
    \<and> (\<forall>c \<in> set counters. snd c s' = (if fst c = fst g then x else snd c s))"
  using assms(1) unfolding juggler_fields_def set_simps insert_iff empty_iff
  by (elim disjE) (simp_all add: snd_field fst_field decode_int_encode_int [OF assms(2)] counters_def)

text \<open>A key that is not the name of a field, up to case, is skipped.\<close>

lemma counter_skipped:
  assumes "\<And>n. n \<in> fst ` set counters \<Longrightarrow> fold_key n \<noteq> fold_key k"
  shows "find_field juggler_fields k = None"
proof -
  have none: "fold_key (fst g) \<noteq> fold_key k" if "g \<in> set juggler_fields" for g
    by (rule assms) (metis counter_names imageI list.set_map that)
  have "filter (\<lambda>g. fst g = k) juggler_fields = []" using none by (auto simp only: filter_empty_conv)
  moreover have "filter (\<lambda>g. fold_key (fst g) = fold_key k) juggler_fields = []"
    using none by (auto simp only: filter_empty_conv)
  ultimately show ?thesis by (simp add: find_field_def)
qed

text \<open>
  The document that \<^verbatim>\<open>/debug/vars\<close> serves: the variables of the process, and the map
  \<^verbatim>\<open>juggler\<close> with the counters \<open>f\<close> for the keys \<open>ks\<close>. A counter that was never added to is not
  in the map; the other keys of the map are not the name of a field up to case.
\<close>

definition counters_json :: "string list \<Rightarrow> (string \<Rightarrow> int) \<Rightarrow> json" where
  "counters_json ks f = JObj (map (\<lambda>k. (k, encode_int (f k))) ks)"

definition debug_vars :: "json \<Rightarrow> json \<Rightarrow> string list \<Rightarrow> (string \<Rightarrow> int) \<Rightarrow> json" where
  "debug_vars cmdline mem ks f =
     JObj [(''cmdline'', cmdline), (''juggler'', counters_json ks f), (''memstats'', mem)]"

definition wf_counters :: "string list \<Rightarrow> (string \<Rightarrow> int) \<Rightarrow> bool" where
  "wf_counters ks f \<longleftrightarrow>
     (\<forall>k \<in> set ks. in_i64 (f k) \<and> (\<forall>n \<in> fst ` set counters. fold_key n = fold_key k \<longrightarrow> n = k))
     \<and> (\<forall>n \<in> fst ` set counters. n \<notin> set ks \<longrightarrow> f n = 0)"

lemma decode_counters:
  assumes "\<And>k. k \<in> set ks \<Longrightarrow> in_i64 (f k)"
    and "\<And>k n. k \<in> set ks \<Longrightarrow> n \<in> fst ` set counters \<Longrightarrow> fold_key n = fold_key k \<Longrightarrow> n = k"
  obtains s' where "decode_fields juggler_fields (map (\<lambda>k. (k, encode_int (f k))) ks) s = Some s'"
    and "\<forall>c \<in> set counters. snd c s' = (if fst c \<in> set ks then f (fst c) else snd c s)"
  using assms
proof (induction ks arbitrary: s thesis)
  case (Cons k ks)
  have prems: "\<And>k. k \<in> set ks \<Longrightarrow> in_i64 (f k)"
    "\<And>k n. k \<in> set ks \<Longrightarrow> n \<in> fst ` set counters \<Longrightarrow> fold_key n = fold_key k \<Longrightarrow> n = k"
    using Cons.prems(2,3) by simp_all
  show ?case
  proof (cases "k \<in> fst ` set counters")
    case True
    then obtain g where g: "g \<in> set juggler_fields" "k = fst g"
      by (metis counter_names imageE list.set_map)
    then obtain s1 where s1: "snd g (encode_int (f k)) s = Some s1"
        "\<forall>c \<in> set counters. snd c s1 = (if fst c = k then f k else snd c s)"
      using counter_set [OF g(1), of "f k" s] Cons.prems(2) [of k] by auto
    obtain s' where s': "decode_fields juggler_fields (map (\<lambda>k. (k, encode_int (f k))) ks) s1 = Some s'"
        "\<forall>c \<in> set counters. snd c s' = (if fst c \<in> set ks then f (fst c) else snd c s1)"
      by (rule Cons.IH [where s = s1, OF _ prems])
    have "find_field juggler_fields k = Some (snd g)"
      using find_field_named [OF _ g(1)] counters_distinct g(2) by (simp add: counter_names)
    then show ?thesis using s'(1) s1(1) by (intro Cons.prems(1) [of s']) (simp_all add: s'(2) s1(2))
  next
    case False
    obtain s' where s': "decode_fields juggler_fields (map (\<lambda>k. (k, encode_int (f k))) ks) s = Some s'"
        "\<forall>c \<in> set counters. snd c s' = (if fst c \<in> set ks then f (fst c) else snd c s)"
      by (rule Cons.IH [where s = s, OF _ prems])
    have "fst c \<noteq> k" if "c \<in> set counters" for c using False that by (metis imageI)
    moreover have "find_field juggler_fields k = None"
      by (rule counter_skipped) (use Cons.prems(3) [of k] False in auto)
    ultimately show ?thesis using s'(1) by (intro Cons.prems(1) [of s']) (simp_all add: s'(2))
  qed
qed simp

lemma decode_debug_vars:
  assumes "wf_counters ks f" and "decode_struct memstats_fields mem (ev_Memstats zero_expVars) = Some m"
  obtains ev where "getExpVars (Inr (200, status, Some (debug_vars cmdline mem ks f))) = Inr ev"
    and "\<forall>c \<in> set counters. snd c (ev_Juggler ev) = f (fst c)"
proof -
  have "in_i64 (f k)" if "k \<in> set ks" for k using assms(1) that by (simp add: wf_counters_def)
  moreover have "n = k" if "k \<in> set ks" "n \<in> fst ` set counters" "fold_key n = fold_key k" for k n
    using assms(1) that unfolding wf_counters_def by metis
  ultimately obtain j where j:
      "decode_fields juggler_fields (map (\<lambda>k. (k, encode_int (f k))) ks) (ev_Juggler zero_expVars) = Some j"
      "\<forall>c \<in> set counters. snd c j = (if fst c \<in> set ks then f (fst c) else snd c (ev_Juggler zero_expVars))"
    by (rule decode_counters [where s = "ev_Juggler zero_expVars"])
  have fields: "find_field expVars_fields ''cmdline'' = None"
    "find_field expVars_fields ''juggler'' = Some (snd (expVars_fields ! 0))"
    "find_field expVars_fields ''memstats'' = Some (snd (expVars_fields ! 1))"
    by (simp_all add: expVars_fields_def find_field_def fst_field) code_simp+
  have zero: "\<forall>c \<in> set counters. snd c (ev_Juggler zero_expVars) = 0" by (simp add: counters_def zero_expVars_def)
  have "decode_struct expVars_fields (debug_vars cmdline mem ks f) zero_expVars
      = Some (zero_expVars\<lparr>ev_Juggler := j, ev_Memstats := m\<rparr>)"
    using fields j(1) assms(2)
    by (simp add: debug_vars_def counters_json_def expVars_fields_def snd_field)
  then have "getExpVars (Inr (200, status, Some (debug_vars cmdline mem ks f)))
      = Inr (zero_expVars\<lparr>ev_Juggler := j, ev_Memstats := m\<rparr>)" by (simp add: getExpVars_def)
  moreover have "\<forall>c \<in> set counters. snd c j = f (fst c)"
    using j(2) zero assms(1) unfolding wf_counters_def by (metis imageI)
  ultimately show ?thesis by (rule that [of "zero_expVars\<lparr>ev_Juggler := j, ev_Memstats := m\<rparr>", simplified])
qed

lemma receive_all_Inr: "receive_all (length xs) (map Inr xs) = Some (Inr xs)"
  by (induction xs) simp_all

text \<open>No percentile of the report panics.\<close>

lemma pctl_line_total:
  assumes "length durs < 2 ^ 49" and "\<forall>d \<in> set durs. 0 \<le> d \<and> d < 2 ^ 62" and "0 \<le> n" and "n \<le> 100"
  shows "\<exists>l. pctl_line name n durs = Inr l"
proof (cases "durs = []")
  case False
  then show ?thesis using pctlFn_between [OF False assms(1,3,4)] assms(2) by (auto simp: pctl_line_def)
qed (simp add: pctl_line_def pctlFn_def)

lemma sequence_total: "\<forall>x \<in> set xs. \<exists>y. x = Inr y \<Longrightarrow> \<exists>ys. sequence xs = Inr ys"
  by (induction xs) auto

lemma latency_lines_total:
  assumes "length durs < 2 ^ 49" and "\<forall>d \<in> set durs. 0 \<le> d \<and> d < 2 ^ 62"
  shows "\<exists>ls. latency_lines durs = Inr ls"
  unfolding latency_lines_def
  by (rule sequence_total) (use pctl_line_total [OF assms] in simp)

lemma counter_lines_rows:
  assumes "c \<in> set counters"
  shows "row 20 Itoa subiFn (fst c) (snd c b) (snd c a) \<in> set (counter_lines b a)"
  using assms unfolding counters_def set_simps insert_iff empty_iff
  by (elim disjE) (simp_all only: counter_lines_def Let_def fst_conv snd_conv list.set insert_iff simp_thms)

text \<open>A connection that reached its end has settled its calls.\<close>

lemma finished_balanced:
  assumes "load_run E rate s" and "load_finish E ended c s = Some (Inr ld)"
  shows "ld_Calls ld = i64 (ld_Res ld + ld_Exp ld + ld_Nack ld)" and "ld_Res ld = i64 (int (length (ld_latencies ld)))"
proof -
  have ld: "ld = ls_load s" "ld_wg (ls_load s) = 0"
    using assms(2) by (auto simp: load_finish_def split: if_splits prod.splits option.splits)
  note inv = load_inv_counts [OF load_run_inv [OF assms(1)]]
  show "ld_Calls ld = i64 (ld_Res ld + ld_Exp ld + ld_Nack ld)" using inv(1,2) ld by simp
  show "ld_Res ld = i64 (int (length (ld_latencies ld)))" using inv(3) ld by simp
qed

lemma i64_sum_list: "i64 (\<Sum>x\<leftarrow>xs. i64 (g x)) = i64 (\<Sum>x\<leftarrow>xs. g x)"
proof (induction xs)
  case (Cons x xs)
  have "i64 (\<Sum>x\<leftarrow>x # xs. i64 (g x)) = i64 (g x + i64 (\<Sum>x\<leftarrow>xs. i64 (g x)))" by simp
  also have "\<dots> = i64 (\<Sum>x\<leftarrow>x # xs. g x)" unfolding Cons.IH by simp
  finally show ?case .
qed simp

lemma i64_add3: "i64 (i64 a + i64 b + i64 c) = i64 (a + b + c)"
  by (metis i64_add i64_add')

lemma total_balanced:
  assumes "\<And>ld. ld \<in> set lds \<Longrightarrow> ld_Calls ld = i64 (ld_Res ld + ld_Exp ld + ld_Nack ld)"
    and "\<And>ld. ld \<in> set lds \<Longrightarrow> ld_Res ld = i64 (int (length (ld_latencies ld)))"
  shows "total ld_Calls lds = i64 (total ld_Res lds + total ld_Exp lds + total ld_Nack lds)"
    and "total ld_Res lds = i64 (int (length (concat (map ld_latencies lds))))"
proof -
  have "total ld_Calls lds = i64 (\<Sum>ld\<leftarrow>lds. i64 (ld_Res ld + ld_Exp ld + ld_Nack ld))"
    unfolding total_def using assms(1) by (metis (mono_tags, lifting) map_eq_conv)
  also have "\<dots> = i64 (\<Sum>ld\<leftarrow>lds. ld_Res ld + ld_Exp ld + ld_Nack ld)" by (rule i64_sum_list)
  also have "\<dots> = i64 (total ld_Res lds + total ld_Exp lds + total ld_Nack lds)"
    unfolding total_def sum_list_addf by (rule i64_add3 [symmetric])
  finally show "total ld_Calls lds = i64 (total ld_Res lds + total ld_Exp lds + total ld_Nack lds)" .
  have "total ld_Res lds = i64 (\<Sum>ld\<leftarrow>lds. i64 (int (length (ld_latencies ld))))"
    unfolding total_def using assms(2) by (metis (mono_tags, lifting) map_eq_conv)
  also have "\<dots> = i64 (\<Sum>ld\<leftarrow>lds. int (length (ld_latencies ld)))" by (rule i64_sum_list)
  also have "(\<Sum>ld\<leftarrow>lds. int (length (ld_latencies ld))) = int (length (concat (map ld_latencies lds)))"
    by (induction lds) simp_all
  finally show "total ld_Res lds = i64 (int (length (concat (map ld_latencies lds))))" .
qed


text \<open>The sizes that the server prints are decoded exactly.\<close>

lemma digits_of_show_nat: "digits_of (show_nat n) = (show_nat n, [])"
proof -
  have "\<forall>c \<in> set (show_nat n). digit_val c \<noteq> None" using show_nat_digits [of n] by auto
  then show ?thesis by (simp add: digits_of_def dropWhile_eq_Nil_conv takeWhile_eq_all_conv)
qed

lemma ParseFloat_Itoa:
  assumes "0 \<le> i" and "i < 2 ^ 50"
  shows "ParseFloat (Itoa i) = Some (of_int i)"
proof -
  obtain c cs where s: "show_nat (nat i) = c # cs" by (cases "show_nat (nat i)") auto
  have "read_decimal (show_nat (nat i)) = Some (of_int i)"
    using assms(1) by (simp add: read_decimal_def digits_of_show_nat read_exponent_def)
  then have "ParseFloat (Itoa i) = to_float64 (of_int i)"
    using show_nat_no_sign [OF s] assms(1) s by (simp add: ParseFloat_def Itoa_def)
  moreover have "(of_int i :: rat) < 2 powi 1024"
  proof -
    have "(of_int i :: rat) < 2 powi 50" using assms(2) unfolding powi_of_nat [of 50, simplified] of_int_less_iff by simp
    also have "\<dots> \<le> 2 powi 1024" by (rule powi_mono) simp
    finally show ?thesis .
  qed
  moreover have "\<not> \<bar>of_int i :: rat\<bar> < 2 powi (- 1022)" if "i \<noteq> 0"
  proof -
    have "(2 :: rat) powi (- 1022) \<le> 2 powi 0" by (rule powi_mono) simp
    also have "\<dots> \<le> of_int i" using that assms(1) by simp
    finally show ?thesis by simp
  qed
  ultimately show ?thesis using assms fl64_int [OF assms] rne_of_int [of 0]
    by (cases "i = 0") (simp_all add: to_float64_def Let_def)
qed

definition example_mem :: json where
  "example_mem = JObj [(''Alloc'', encode_int 1536), (''Mallocs'', encode_int 12)]"

definition example_load_flags :: load_flags where
  "example_load_flags = default_load_flags\<lparr>lf_conn := 1\<rparr>"

definition example_load :: load where
  "example_load =
     \<lparr>ld_Calls = 1, ld_Ack = 0, ld_Nack = 0, ld_Res = 1, ld_Exp = 0, ld_wg = 0, ld_next = 0, ld_latencies = [5],
      ld_startTimes = [(uuid_String example_codec example_uuid, 0)]\<rparr>"

definition example_before :: "string \<Rightarrow> int" where
  "example_before = (\<lambda>_. 0)(''MsgsCALL'' := 3)"

definition example_after :: "string \<Rightarrow> int" where
  "example_after = (\<lambda>_. 0)(''Msgs'' := 1, ''MsgsCALL'' := 4, ''MsgsPUB'' := 7)"

definition example_world :: load_world where
  "example_world =
     \<lparr>lw_parsed = Inr (),
      lw_before = Inr (200, ''200 OK'', Some (debug_vars JNull example_mem [''MsgsCALL''] example_before)),
      lw_after = Inr (200, ''200 OK'', Some (debug_vars JNull example_mem [''Msgs'', ''MsgsCALL'', ''MsgsPUB''] example_after)),
      lw_starts = [Inr ()], lw_ends = [Inr example_load], lw_start = 0, lw_end = 10\<rparr>"

lemma example_finished:
  "\<exists>s ended c. load_run example_env (lf_callRate example_load_flags) s
     \<and> load_finish example_env ended c s = Some (Inr example_load)"
proof -
  let ?r = "lf_callRate example_load_flags" and ?k = "uuid_String example_codec example_uuid"
  let ?m = "Received (Res example_res)"
  let ?s0 = "start_load_sys ?r"
  let ?s1 = "?s0\<lparr>ls_load := load_call ?r (ls_load ?s0), ls_open := [?k], ls_started := Some ?k\<rparr>"
  let ?s2 = "?s1\<lparr>ls_load := load_started ?k 0 (ls_load ?s1), ls_started := None\<rparr>"
  let ?s3 = "?s2\<lparr>ls_load := example_load, ls_open := []\<rparr>"
  let ?s4 = "?s3\<lparr>ls_stopped := True\<rparr>"
  have r: "\<not> ?r < 0" by (simp add: example_load_flags_def default_load_flags_def Millisecond_def)
  have "load_run example_env ?r ?s1"
    using load_step_call [of ?s0 ?r example_env ?k] r
    by (intro load_run_step [OF load_run_start]) (simp add: start_load_sys_def)
  then have run2: "load_run example_env ?r ?s2"
    by (rule load_run_step) (use load_step_started [of ?s1 ?k example_env ?r 0] in simp)
  have "load_handle example_env ?r 5 ?m (ls_load ?s2) = Inr example_load"
    using r by (simp add: load_handle_def wg_Done_def start_load_sys_def start_load_def load_call_def load_started_def
        send_next_def example_env_def example_res_def example_load_def in_i64_def since_def)
  then have "load_step example_env ?r ?s2 ?s3"
    using load_step_settled [of ?k ?s2 example_env ?m ?r 5 example_load] r
    by (simp add: example_res_def example_env_def can_handle_def)
  then have "load_run example_env ?r ?s3" by (rule load_run_step [OF run2])
  then have "load_run example_env ?r ?s4" by (rule load_run_step) (rule load_step_stop)
  moreover have "load_finish example_env id example_client ?s4 = Some (Inr example_load)"
    by (simp add: load_finish_def Close_begin_def Close_end_def example_env_def example_client_def New_def
        SetHandler_def example_load_def)
  ultimately show ?thesis by blast
qed

lemma example_mem_decodes: "\<exists>m. decode_struct memstats_fields example_mem (ev_Memstats zero_expVars) = Some m"
proof -
  have "find_field memstats_fields ''Alloc'' = Some (snd (memstats_fields ! 0))"
    "find_field memstats_fields ''Mallocs'' = Some (snd (memstats_fields ! 2))"
    by (simp_all add: memstats_fields_def find_field_def fst_field)
  then show ?thesis
    by (simp add: example_mem_def memstats_fields_def snd_field encode_int_def ParseFloat_Itoa in_i64_def)
qed

lemma example_wf_before: "wf_counters [''MsgsCALL''] example_before"
  by code_simp

lemma example_wf_after: "wf_counters [''Msgs'', ''MsgsCALL'', ''MsgsPUB''] example_after"
  by code_simp


end
