(* ===== verification/Direct_Call.thy ===== *)
theory Direct_Call
  imports Broker_Conns Server_Config Load_Report
begin

text \<open>
  \<^verbatim>\<open>cmd/juggler-direct-call/main.go\<close>: a loop of calls through the broker, without a server
  and a client, and the goroutines that count the results received.
\<close>

section \<open>The caller\<close>

record caller_flags =
  df_duration :: duration
  df_redisAddr :: string
  df_timeout :: duration

definition default_caller_flags :: caller_flags where
  "default_caller_flags = \<lparr>df_duration = 10 * Second, df_redisAddr = '':6379'', df_timeout = Second\<rparr>"

definition caller_newRedisPool :: "string \<Rightarrow> redis_pool" where
  "caller_newRedisPool addr = \<lparr>rp_Addr = addr, rp_MaxIdle = 100, rp_MaxActive = 0, rp_IdleTimeout = 0\<rparr>"

definition caller_newBroker :: Broker where
  "caller_newBroker = \<lparr>BlockingTimeout = 0, CallCap = 0, ResultCap = 0, Broker_Vars = None\<rparr>"

definition caller_payload :: "uuid \<Rightarrow> uuid \<Rightarrow> callPayload" where
  "caller_payload connUUID u =
     \<lparr>cp_ConnUUID = connUUID, cp_MsgUUID = u, cp_URI = ''test.delay'', cp_Args = Some (JStr ''0''),
      cp_TTLAfterRead = 0, cp_ReadTimestamp = 0\<rparr>"

text \<open>The turns of the loop until its time is up, each with the fault of its command and its
  new UUID; a failed call ends the process.\<close>

fun caller_loop ::
  "codec \<Rightarrow> 'r rconn \<Rightarrow> uuid \<Rightarrow> duration \<Rightarrow> (fault \<times> uuid) list \<Rightarrow> int \<times> 'r \<Rightarrow> err + int \<times> 'r" where
  "caller_loop C pool connUUID timeout [] st = Inr st"
| "caller_loop C pool connUUID timeout ((f, u) # ts) (calls, r) =
     (case Broker_Call C pool caller_newBroker f (caller_payload connUUID u) timeout r of
        (Some e, _) \<Rightarrow> Inl (ErrWrap ''Call failed'' e)
      | (None, r) \<Rightarrow> caller_loop C pool connUUID timeout ts (i64 (calls + 1), r))"

text \<open>
  The loop with the goroutines that count: the results connection, the state of redis, the
  two counters, and the goroutines, of which there are 100, that have received a result and
  not counted it yet. The label of a step is that of the results connection; a call is a
  step that is not one of the connection.
\<close>

definition result_goros :: nat where "result_goros = 100"

record 'r caller =
  ca_conn :: resultsConn
  ca_redis :: 'r
  ca_looping :: bool
  ca_calls :: int
  ca_results :: int
  ca_counting :: nat

definition start_caller :: "err option \<Rightarrow> uuid \<Rightarrow> 'r \<Rightarrow> 'r caller result" where
  "start_caller dial_err connUUID r =
     (case NewResultsConn caller_newBroker dial_err connUUID of
        Inl e \<Rightarrow> Inl (ErrWrap ''NewResultsConn failed'' e)
      | Inr c \<Rightarrow> Inr \<lparr>ca_conn = c, ca_redis = r, ca_looping = True, ca_calls = 0, ca_results = 0, ca_counting = 0\<rparr>)"

inductive caller_step ::
  "codec \<Rightarrow> 'r rconn \<Rightarrow> 'r rconn \<Rightarrow> duration \<Rightarrow> 'r caller \<Rightarrow> (wire, resPayload) slabel \<Rightarrow> 'r caller \<Rightarrow> bool"
  for C conn pool timeout where
  caller_turn: "ca_looping s
    \<Longrightarrow> caller_loop C pool (rsc_connUUID (ca_conn s)) timeout [(f, u)] (ca_calls s, ca_redis s) = Inr (calls, r)
    \<Longrightarrow> caller_step C conn pool timeout s Quiet (s\<lparr>ca_calls := calls, ca_redis := r\<rparr>)"
| caller_done: "caller_step C conn pool timeout s Quiet (s\<lparr>ca_looping := False\<rparr>)"
| caller_conn: "results_step C conn pool (ca_conn s, ca_redis s) l (c, r) \<Longrightarrow> received l = []
    \<Longrightarrow> caller_step C conn pool timeout s l (s\<lparr>ca_conn := c, ca_redis := r\<rparr>)"
| caller_result: "ca_counting s < result_goros
    \<Longrightarrow> results_step C conn pool (ca_conn s, ca_redis s) (Recv rp) (c, r)
    \<Longrightarrow> caller_step C conn pool timeout s (Recv rp)
          (s\<lparr>ca_conn := c, ca_redis := r, ca_counting := Suc (ca_counting s)\<rparr>)"
| caller_count: "ca_counting s = Suc n
    \<Longrightarrow> caller_step C conn pool timeout s Quiet
          (s\<lparr>ca_counting := n, ca_results := i64 (ca_results s + 1)\<rparr>)"

definition caller_summary :: "caller_flags \<Rightarrow> 'r caller \<Rightarrow> string" where
  "caller_summary F s =
     ''calls: '' @ Itoa (ca_calls s) @ '', results: '' @ Itoa (ca_results s) @ '', timeout: ''
     @ Duration_String (df_timeout F) @ [CHR 0x0A]"

section \<open>Lemmas\<close>

text \<open>The calls counted are those in the queue of the callee, in order.\<close>

lemma caller_loop_calls:
  assumes "caller_loop C pool connUUID timeout ts (calls, r) = Inr (calls', r')"
    and "broker_invar slot pool R r"
  shows "i64 calls' = i64 (calls + int (length ts))
    \<and> call_queue R r' ''test.delay''
        = call_queue R r ''test.delay'' @ map (\<lambda>(f, u). Some (encode_callPayload C (caller_payload connUUID u))) ts"
  using assms
proof (induction ts arbitrary: calls r)
  case (Cons t ts)
  obtain f u where t: "t = (f, u)" by (cases t)
  obtain r1 where call: "Broker_Call C pool caller_newBroker f (caller_payload connUUID u) timeout r = (None, r1)"
    and rest: "caller_loop C pool connUUID timeout ts (i64 (calls + 1), r1) = Inr (calls', r')"
    using Cons.prems(1) t by (auto split: prod.splits option.splits)
  have ok: "keys_ok pool (cp_URI (caller_payload connUUID u))"
    by (simp add: keys_ok_def caller_payload_def tags_def)
  have "call_queue R r1 ''test.delay'' =
      call_queue R r ''test.delay'' @ [Some (encode_callPayload C (caller_payload connUUID u))]"
    using Call_effect(3) [OF Cons.prems(2) ok call]
    by (auto simp: registered_def call_queue_def caller_payload_def)
  then show ?case
    using Cons.IH [OF rest Call_effect(1) [OF Cons.prems(2) ok call]] t by (simp add: algebra_simps)
qed simp

text \<open>A run of the caller is one of its results connection, with the same labels: the calls
  are the rest of the world.\<close>

lemma caller_step_conn:
  assumes "caller_step C conn pool timeout s l s'"
  shows "results_step C conn pool (ca_conn s, ca_redis s) l (ca_conn s', ca_redis s')"
  using assms by cases (auto intro: results_step.results_world)

lemma caller_steps_conn:
  "steps (caller_step C conn pool timeout) s ls s' \<Longrightarrow>
   steps (results_step C conn pool) (ca_conn s, ca_redis s) ls (ca_conn s', ca_redis s')"
  by (induction s ls s' rule: steps.induct) (auto intro: steps.intros caller_step_conn)

text \<open>The results counted, with those that a goroutine holds, are those received.\<close>

lemma caller_step_counts:
  assumes "caller_step C conn pool timeout s l s'"
  shows "i64 (ca_results s' + int (ca_counting s')) = i64 (ca_results s + int (ca_counting s) + int (length (received l)))"
    and "ca_counting s \<le> result_goros \<longrightarrow> ca_counting s' \<le> result_goros"
  using assms by (cases; simp add: algebra_simps)+

lemma caller_steps_counts:
  assumes "steps (caller_step C conn pool timeout) s ls s'" and "ca_counting s \<le> result_goros"
  shows "i64 (ca_results s' + int (ca_counting s')) = i64 (ca_results s + int (ca_counting s) + int (size (all_of received ls)))
    \<and> ca_counting s' \<le> result_goros"
  using assms
proof (induction s ls s' rule: steps.induct)
  case (steps_snoc s ls s' l s'')
  then have IH: "i64 (ca_results s' + int (ca_counting s'))
      = i64 (ca_results s + int (ca_counting s) + int (size (all_of received ls)))" "ca_counting s' \<le> result_goros"
    by simp_all
  note step = caller_step_counts [OF steps_snoc.hyps(2)]
  have "i64 (ca_results s'' + int (ca_counting s''))
      = i64 (i64 (ca_results s' + int (ca_counting s')) + int (length (received l)))" using step(1) by simp
  also have "\<dots> = i64 (ca_results s + int (ca_counting s) + int (size (all_of received ls)) + int (length (received l)))"
    unfolding IH(1) by simp
  finally show ?case using step(2) IH(2) by (simp add: algebra_simps)
qed simp

text \<open>From its start, the caller counts only results that its connection took from redis and
  decoded, each once: those counted, those a goroutine holds and those not received yet are
  the payloads made of the values taken.\<close>

lemma caller_counts_results:
  assumes "start_caller dial_err connUUID r = Inr s" and "steps (caller_step C conn pool timeout) s ls s'"
  shows "i64 (ca_results s' + int (ca_counting s') + int (length (rsc_ready (ca_conn s')))) = i64 (int (size (all_of readied ls)))
    \<and> size (all_of readied ls) \<le> size (all_of popped ls) \<and> SendOnClosed \<notin> set ls"
proof -
  have init: "results_init caller_newBroker connUUID (ca_conn s, ca_redis s)" "ca_counting s = 0" "ca_results s = 0"
    using assms(1) by (auto simp: start_caller_def results_init_def NewResultsConn_def split: option.splits)
  note inv = results_conn.conserved [OF init(1) caller_steps_conn [OF assms(2)]]
  have "size (all_of readied ls) = size (all_of received ls) + length (rsc_ready (ca_conn s'))"
    using arg_cong [OF conjunct1 [OF conjunct2 [OF inv]], of size] by (simp add: results_view_def)
  moreover have "size (all_of readied ls) \<le> size (all_of popped ls)"
    using arg_cong [OF conjunct1 [OF inv], of size] by simp
  moreover have "i64 (ca_results s' + int (ca_counting s')) = i64 (int (size (all_of received ls)))"
    using caller_steps_counts [OF assms(2)] init(2,3) by simp
  then have "i64 (i64 (ca_results s' + int (ca_counting s')) + int (length (rsc_ready (ca_conn s'))))
      = i64 (int (size (all_of received ls)) + int (length (rsc_ready (ca_conn s'))))" by simp
  ultimately show ?thesis using inv by simp
qed

end
