(* ===== verification/Test_Support.thy ===== *)
theory Test_Support
  imports Juggler_Prelude "HOL-Library.Sublist"
begin

text \<open>
  The helpers of the tests (\<^verbatim>\<open>internal/jugglertest\<close>, \<^verbatim>\<open>internal/wstest\<close>): the logger that
  counts its calls and the websocket servers. The upgrader, the dialer and the connections
  are parameters.
\<close>

section \<open>The logger\<close>

text \<open>The lines it passes on to \<^verbatim>\<open>log.Printf\<close>, already formatted.\<close>

record DebugLog =
  dl_n :: int
  dl_logged :: "string list"

definition DebugLog_Printf :: "bool \<Rightarrow> string \<Rightarrow> DebugLog \<Rightarrow> DebugLog" where
  "DebugLog_Printf verbose line d =
     (let d = d\<lparr>dl_n := i64 (dl_n d + 1)\<rparr> in if verbose then d\<lparr>dl_logged := dl_logged d @ [line]\<rparr> else d)"

definition DebugLog_Calls :: "DebugLog \<Rightarrow> int" where
  "DebugLog_Calls d = dl_n d"

section \<open>Servers\<close>

text \<open>\<^verbatim>\<open>strings.Replace\<close> with the limit 1, of a text that is not empty.\<close>

fun replace_first :: "string \<Rightarrow> string \<Rightarrow> string \<Rightarrow> string" where
  "replace_first old new [] = []"
| "replace_first old new (c # s) =
     (if prefix old (c # s) then new @ drop (length old) (c # s) else c # replace_first old new s)"

definition ws_url :: "string \<Rightarrow> string" where
  "ws_url url = replace_first ''http:'' ''ws:'' url"

text \<open>The handler of \<^verbatim>\<open>StartServer\<close>: the state of the connection at its end and what is sent on
  the channel \<^verbatim>\<open>done\<close>. The deferred function runs also when \<^verbatim>\<open>fn\<close> panics.\<close>

definition StartServer_handler ::
  "'c result \<Rightarrow> ('c \<Rightarrow> 'c) \<Rightarrow> ('c \<Rightarrow> panic option \<times> 'c) \<Rightarrow> (panic option \<times> 'c) option \<times> bool list" where
  "StartServer_handler upgraded closed fn =
     (case upgraded of
        Inl e \<Rightarrow> (None, [])
      | Inr wsConn \<Rightarrow> (case fn wsConn of (p, wsConn) \<Rightarrow> (Some (p, closed wsConn), [True])))"

definition StartServer_URL :: "string \<Rightarrow> string" where
  "StartServer_URL url = ws_url url"

text \<open>The function of \<^verbatim>\<open>StartRecordingServer\<close>, over the messages that arrive, each with what is
  copied of it and the error of the copy: what it writes and whether the test has failed. It
  ends when there is no next message.\<close>

fun record_messages :: "(string \<times> err option) list \<Rightarrow> string \<times> bool" where
  "record_messages [] = ([], False)"
| "record_messages ((text, err) # ms) =
     (if err \<noteq> None then (text, True)
      else case record_messages ms of (w, failed) \<Rightarrow> (text @ w, failed))"

text \<open>\<^verbatim>\<open>Dial\<close>: an error of the dialer stops the test, another status than 101 fails it.\<close>

datatype 'c dial_end = DialStop err | Dialed 'c bool

definition wstest_Dial :: "(string \<Rightarrow> ('c \<times> int) result) \<Rightarrow> string \<Rightarrow> 'c dial_end" where
  "wstest_Dial dialer urlStr =
     (case dialer (ws_url urlStr) of
        Inl e \<Rightarrow> DialStop e
      | Inr (c, status) \<Rightarrow> Dialed c (status \<noteq> 101))"

section \<open>Lemmas\<close>

lemma DebugLog_counts:
  "DebugLog_Calls (fold (DebugLog_Printf verbose) lines d) = (if lines = [] then dl_n d else i64 (dl_n d + int (length lines)))
   \<and> dl_logged (fold (DebugLog_Printf verbose) lines d) = dl_logged d @ (if verbose then lines else [])"
proof (induction lines arbitrary: d)
  case (Cons l ls)
  then show ?case by (cases "ls = []") (simp_all add: DebugLog_Printf_def DebugLog_Calls_def Let_def algebra_simps)
qed (simp add: DebugLog_Calls_def)

lemma ws_url_http: "ws_url (''http:'' @ rest) = ''ws:'' @ rest"
  by (simp add: ws_url_def prefix_def)

lemma replace_first_absent: "\<not> sublist old s \<Longrightarrow> replace_first old new s = s"
proof (induction s)
  case (Cons c s)
  then show ?case by (simp add: sublist_Cons_right)
qed simp

lemma StartServer_done:
  "upgraded = Inr c \<Longrightarrow> snd (StartServer_handler upgraded closed fn) = [True]
     \<and> fst (StartServer_handler upgraded closed fn) = Some (fst (fn c), closed (snd (fn c)))"
  by (simp add: StartServer_handler_def split: prod.splits)

lemma record_messages_all:
  "\<forall>m \<in> set ms. snd m = None \<Longrightarrow> record_messages ms = (concat (map fst ms), False)"
  by (induction ms rule: record_messages.induct) auto

end
