(* ===== verification/Spec2Isabelle.thy ===== *)
theory Spec2Isabelle
  imports Metrics Pubsub Callee_Command Client_Command Redis_Direct Direct_Call Test_Support
begin

text \<open>
  \<^bold>\<open>Juggler.\<close> Juggler serves remote procedure calls and publish-subscribe over websockets. A
  client writes CALL, SUB, UNSB and PUB messages to a server; the server registers calls in
  redis and acknowledges each request with an ACK or a NACK; callees poll redis for the calls of
  their URIs, run them and store the results in redis; the server polls the results of each
  connection and writes them, and the events of its subscriptions, to the client. This library
  models the packages under \<^verbatim>\<open>src/\<close> and the commands built on them, and proves what each
  promises. Code outside of the repository is a parameter: redis and its cluster client, the
  websocket library, UUIDs, YAML and the terminal. What is relied on of them is a named
  hypothesis that states documented behaviour (\<open>redis_laws\<close>, \<open>pubsub_laws\<close>, \<open>law_slot\<close>,
  \<open>serves\<close>, \<open>uuid_roundtrips\<close>), and witnesses instantiate it, redis by the database
  \<open>mem_redis\<close> and its channels by \<open>mem_pubsub\<close>.

  \<^bold>\<open>Language and standard library.\<close> \<open>Juggler_Prelude\<close> has \<^verbatim>\<open>int64\<close> with its wrap-around
  (\<open>i64\<close>), truncating division, errors and panics as values, decimal numbers, UTF-8, trimming
  and splitting, and \<^verbatim>\<open>expvar\<close> counters. \<open>Float64\<close> has the rounding of \<^verbatim>\<open>float64\<close> as a
  function on rationals. JSON is modelled at the level of values (\<open>Json_Codec\<close>): a text that is
  not JSON is \<open>None\<close>, structs are decoded field by field with the case folding of
  \<^verbatim>\<open>encoding/json\<close>.

  \<^bold>\<open>Components.\<close>
  \<^item> \<open>Message\<close> (\<^verbatim>\<open>message/message.go\<close>) and \<open>Payload\<close> (\<^verbatim>\<open>message/payload.go\<close>): types and
    their registry, the eight messages as records, their constructors, encoding and decoding.
    Round trips, soundness of the decoding of requests, and the origin that NACKs name.
  \<^item> \<open>Wswriter\<close> (\<^verbatim>\<open>internal/wswriter\<close>): the limited and the exclusive writer. Several writers
    on one connection are a step relation, under which messages are never mixed and the lock
    always returns.
  \<^item> \<open>Redis\<close>, \<open>Capped_Queue\<close>, \<open>Redis_Broker\<close> (\<^verbatim>\<open>broker/redisbroker/broker.go\<close>): the commands
    of redis and their laws, the abstract queue with a capacity as a locale, and the keys, Lua
    scripts and registrations of the broker. The two kinds of queues interpret the locale, which
    gives order and capacity under every interleaving.
  \<^item> \<open>Stream_Spec\<close>, \<open>Broker_Conns\<close> (\<^verbatim>\<open>calls.go\<close>, \<^verbatim>\<open>results.go\<close>, \<^verbatim>\<open>pubsub.go\<close>): the channel
    contract of a connection as a locale, and the three connections, with their loops and
    goroutines as step relations, that interpret it. What is delivered and when it expires.
  \<^item> \<open>Pubsub\<close> (the interfaces \<^verbatim>\<open>PubSubBroker\<close> and \<^verbatim>\<open>PubSubConn\<close> of \<^verbatim>\<open>broker/broker.go\<close>): what
    subscriptions and publications promise of the events of each connection, as an abstract
    specification on sequences of operations that the broker over redis refines; and the
    handling of SUB and PUB by the server and of EVNT by the client.
  \<^item> \<open>Server_Handler\<close> (\<^verbatim>\<open>handler.go\<close>, part of \<^verbatim>\<open>conn.go\<close>), \<open>Server\<close> (\<^verbatim>\<open>server.go\<close>, the
    loops of \<^verbatim>\<open>conn.go\<close>), \<open>Srvhandler\<close> (\<^verbatim>\<open>internal/srvhandler\<close>): processing of messages,
    sessions as a step relation, the wrappers of handlers. The contract of handlers is the locale
    \<open>lawful_server\<close>, interpreted for the standard and for the command's handler. \<open>Metrics\<close> has
    the connections of one server, which share its counters, and the meaning of the counters;
    its locale \<open>counting_server\<close> extends \<open>lawful_server\<close> and is interpreted for both handlers.
  \<^item> \<open>Callee\<close> (\<^verbatim>\<open>callee/callee.go\<close>): running a call, storing its result, listening.
  \<^item> \<open>Client\<close> (\<^verbatim>\<open>client/client.go\<close>): requests, pending calls, expiration and closing, each
    critical section a step. A call is settled at most once.
  \<^item> \<open>Server_Config\<close>, \<open>Callee_Command\<close>, \<open>Client_Command\<close>, \<open>Load\<close>, \<open>Load_Report\<close>, \<open>Redis_Direct\<close>,
    \<open>Direct_Call\<close> (\<^verbatim>\<open>cmd/\<close>): the commands. Configuration and start of the server; the test
    callee, its workers and thunks; the interactive client; the load generator with its
    statistics, its accounting, the variables it fetches from the server and the text of its
    report; the load tests on redis, whose scenarios share the locale \<open>counted_scenario\<close>, and on
    the broker.
  \<^item> \<open>Test_Support\<close> (\<^verbatim>\<open>internal/jugglertest\<close>, \<^verbatim>\<open>internal/wstest\<close>): the helpers of the tests.
  \<^item> \<open>Rpc\<close> joins client, server, broker and callee, and this theory states the round trip of a
    call through all of them and that of an event from its publisher to its subscriber.

  \<^bold>\<open>State and concurrency.\<close> Sequential code is a function on a record of its state. Goroutines
  are steps of an \<open>inductive\<close> relation, as large as the code's critical sections, and claims hold
  for all runs. Outcomes that the code does not determine (which case of a \<^verbatim>\<open>select\<close>, random
  UUIDs, durations, faults of a connection) are arguments.

  \<^bold>\<open>Fuel.\<close> Only \<open>Send\<close>, in which a handler may send and so call itself, takes fuel: two units
  suffice for a request with the standard processing or with the command's handler and one for a
  message to the client, and running out is a value of its own, excluded by the theorems. Every
  other function is total.

  \<^bold>\<open>Not modelled.\<close> The terminal and the time stamps of the interactive client; the HTTP endpoints
  for debugging; accessors that return a field; the log wrapper of the callee's thunks, which is
  not used; the texts of the errors of \<^verbatim>\<open>encoding/json\<close> other than for the thunks; the bytes of
  JSON texts. The sign of a zero and the infinities of \<^verbatim>\<open>float64\<close> do not occur in the rationals
  of \<open>Float64\<close>. \<^verbatim>\<open>doc.go\<close> has no code, and \<^verbatim>\<open>internal/poctest\<close> is an empty package with tests.
\<close>

section \<open>A call from the client to the callee and back\<close>

text \<open>
  C1. The round trip of a call through the whole system: with redis as documented, queues that
  are empty for the URI and for the connection, a websocket that takes the writes and a callee
  that answers while the timeout of the call runs, a call that the client wrote is decoded by
  the server, registered, acknowledged, read and run by the callee, and its result is read by
  the server and written. The handler of the client is given the ACK and then the result, both
  for the call it made and the result with the callee's value for its arguments, and the call
  is no longer pending. Two units of fuel are enough for the request and one for the result.
\<close>

theorem call_round_trip:
  assumes plat: "rpc_platform C E P srv pool b"
    and db: "broker_invar slot pool R (c_brokers c)" "keys_ok pool uri" "keys_ok pool (uuid_String C (c_UUID c))"
    and idle: "call_queue R (c_brokers c) uri = []" "res_queue R (c_brokers c) (uuid_String C (c_UUID c)) = []"
    and wf: "wf_uuid u" "wf_uuid (c_UUID c)" "valid_utf8 uri" "in_i64 t" "0 < t"
    and allowed: "CallMsg \<in> set (c_allowedMsgs c) \<or> c_allowedMsgs c = []"
    and call: "Client_Call E acq u uri (Some v) t cl = Inr (Inr u', cl1, timer)" "cl_handler cl"
    and callee: "answers_in fn f e" "0 \<le> e"
    and times: "0 \<le> d1" "e + Millisecond \<le> (timeout_ms t - d1) * Millisecond"
      "0 \<le> d2" "d2 < ((timeout_ms t - d1) * Millisecond - e) div Millisecond"
  shows "\<exists>m c1 a r rp r' c2 x cl2 cl3.
    Call_msg u uri (Some v) t cl = Inr (Call m, t)
    \<and> UnmarshalRequest C (pf_registry P) (encode_msg C (Call m)) (c_allowedMsgs c) = Inr (Call m)
    \<and> Send P srv 2 (Call m) c = Done c1 \<and> c_sent c1 = c_sent c @ [Ack a]
    \<and> callee_once C pool R b' now fn uri (rd_elapse R d1 (c_brokers c1)) = (Some None, r)
    \<and> results_once C pool R (c_UUID c) (rd_elapse R d2 r) = (Some rp, r')
    \<and> send_result P srv 1 rp (c1\<lparr>c_brokers := r'\<rparr>) = Done c2 \<and> c_sent c2 = c_sent c1 @ [Res x]
    \<and> handleMessage E (encode_msg C (Ack a)) cl1 = Inr cl2
    \<and> handleMessage E (encode_msg C (Res x)) cl2 = Inr cl3
    \<and> cl_handled cl3 = cl_handled cl @ [Received (Ack a), Received (Res x)]
    \<and> ack_For a = u \<and> res_For x = u \<and> res_URI x = uri \<and> res_Args x = Some (f (Some v))
    \<and> uuid_String C u \<notin> cl_results cl3"
proof -
  let ?m = "sent_call u uri v t"
  let ?rp = "result_payload (server_payload (c_UUID c) ?m) (f (Some v))"
  have C: "uuid_roundtrips C" "ce_codec E = C" and uuids: "\<And>n. wf_uuid (dr_uuid (pf_draws P) n)"
    using plat by (simp_all add: rpc_platform_def writes_through_def)
  note called = client_called [OF call(1) wf(5)]
  have m: "wf_msg (Call ?m)" "call_Args ?m = Some v" "call_URI ?m = uri" "call_Timeout ?m = t"
    using wf by (simp_all add: sent_call_def wf_meta_def NewMeta_def)
  have rp: "rp_MsgUUID ?rp = u" "rp_URI ?rp = uri" "rp_Args ?rp = Some (f (Some v))"
    by (simp_all add: result_payload_def server_payload_def sent_call_def NewMeta_def)
  obtain c1 k r r' where c1: "Send P srv 2 (Call ?m) c = Done c1"
    "c_sent c1 = c_sent c @ [Ack (NewAck (dr_uuid (pf_draws P) k) (Call ?m))]"
    "callee_once C pool R b' now fn uri (rd_elapse R d1 (c_brokers c1)) = (Some None, r)"
    "results_once C pool R (c_UUID c) (rd_elapse R d2 r) = (Some ?rp, r')"
    using served_by_callee [OF plat db(1), of ?m fn f e d1 d2 b' now] db idle wf m callee times by metis
  obtain c2 k2 where c2: "send_result P srv 1 ?rp (c1\<lparr>c_brokers := r'\<rparr>) = Done c2"
    "c_sent c2 = c_sent c1 @ [Res (NewRes (dr_uuid (pf_draws P) k2) ?rp)]"
    using server_sends [OF plat rp(3), of "c1\<lparr>c_brokers := r'\<rparr>"] by auto
  let ?a = "NewAck (dr_uuid (pf_draws P) k) (Call ?m)" and ?x = "NewRes (dr_uuid (pf_draws P) k2) ?rp"
  have a: "wf_msg (Ack ?a)" "ack_For ?a = u"
    using wf uuids by (simp_all add: NewAck_def sent_call_def NewMeta_def wf_meta_def msg_UUID_def msg_Type_def valid_utf8_def)
  have x: "wf_msg (Res ?x)" "res_For ?x = u" "res_URI ?x = uri" "res_Args ?x = Some (f (Some v))"
    using wf uuids rp by (simp_all add: NewRes_def NewMeta_def wf_meta_def)
  let ?cl2 = "cl1\<lparr>cl_handled := cl_handled cl1 @ [Received (Ack ?a)]\<rparr>"
  have ack: "handleMessage E (encode_msg C (Ack ?a)) cl1 = Inr ?cl2"
    using handle_ack [of E ?a cl1] a(1) C called(5) call(2) by simp
  obtain cl3 where res: "handleMessage E (encode_msg C (Res ?x)) ?cl2 = Inr cl3"
    "cl_handled cl3 = cl_handled cl @ [Received (Ack ?a), Received (Res ?x)]" "uuid_String C u \<notin> cl_results cl3"
    using handle_res [of E ?x "f (Some v)" ?cl2] x C called(3-5) call(2) by simp
  have "UnmarshalRequest C (pf_registry P) (encode_msg C (Call ?m)) (c_allowedMsgs c) = Inr (Call ?m)"
    by (rule server_decodes [OF C(1) m(1,2) allowed])
  with called(1) c1 c2 ack res a(2) x(2-4) show ?thesis by blast
qed

definition example_rpc_platform :: "(string list, memdb) platform" where
  "example_rpc_platform =
     \<lparr>pf_codec = example_codec, pf_text = (\<lambda>_. ''text''), pf_ws = example_websocket,
      pf_brokers =
        \<lparr>bk_Call = Broker_Call example_codec example_pool example_broker NoFault, bk_Publish = (\<lambda>_ _ r. (None, r)),
         bk_NewResultsConn = (\<lambda>_ r. (None, r)), bk_NewPubSubConn = (\<lambda>r. (None, r)),
         bk_Subscribe = (\<lambda>_ _ r. (None, r)), bk_Unsubscribe = (\<lambda>_ _ r. (None, r)),
         bk_ClosePubSub = (\<lambda>r. r), bk_CloseResults = (\<lambda>r. r)\<rparr>,
      pf_draws = \<lparr>dr_uuid = (\<lambda>_. example_uuid), dr_acquired = (\<lambda>_. True), dr_duration = (\<lambda>_. 0)\<rparr>,
      pf_registry = init_registry, pf_threshold = 0\<rparr>"

definition example_rpc_server :: "(string list, memdb) Server" where
  "example_rpc_server =
     \<lparr>srv_ReadLimit = 0, srv_ReadTimeout = 0, srv_WriteLimit = 0, srv_WriteTimeout = 0,
      srv_AcquireWriteLockTimeout = 0, srv_ConnState = False, srv_Handler = None\<rparr>"

definition example_rpc_conn :: "(string list, memdb) Conn" where
  "example_rpc_conn = newConn example_uuid [] (\<lambda>_. None) None [CallMsg]"

definition echo_args :: "raw \<Rightarrow> json" where
  "echo_args a = (case a of None \<Rightarrow> JNull | Some j \<Rightarrow> j)"

definition echo_thunk :: Thunk where
  "echo_thunk cp = \<lparr>tr_value = Some (echo_args (cp_Args cp)), tr_err = None, tr_elapsed = Millisecond\<rparr>"

lemma example_writes_through:
  assumes "pf_codec P = example_codec" "pf_ws P = example_websocket"
    "pf_draws P = \<lparr>dr_uuid = (\<lambda>_. example_uuid), dr_acquired = (\<lambda>_. True), dr_duration = (\<lambda>_. 0)\<rparr>"
    "srv_Handler srv = None" "srv_WriteLimit srv = 0" "srv_WriteTimeout srv = 0" "srv_AcquireWriteLockTimeout srv = 0"
  shows "writes_through example_codec P srv"
proof -
  have "\<exists>lk. writeMsg P srv m c = Inr (None, lk)" if "encode_msg example_codec m \<noteq> None" for m c
    using that assms
    by (auto simp: writeMsg_def writeText_def encoder_Write_def
        exclusiveWriter_Write_def inner_Write_def exclusiveWriter_Close_def Exclusive_def example_websocket_def Let_def)
  then show ?thesis using assms by (simp add: writes_through_def wf_uuid_def example_uuid_def)
qed

lemma example_rpc_plat:
  "rpc_platform example_codec example_env example_rpc_platform example_rpc_server example_pool example_broker"
  using example_writes_through [of example_rpc_platform example_rpc_server]
  by (simp add: rpc_platform_def example_env_def example_rpc_platform_def example_rpc_server_def)

theorem call_round_trip_witness:
  "\<exists>cl1 c1 a r rp r' c2 x cl2 cl3.
     Client_Call example_env True example_uuid ''test.echo'' (Some (JStr ''hi'')) Second example_client
       = Inr (Inr example_uuid, cl1, Some (example_call, Second))
     \<and> Send example_rpc_platform example_rpc_server 2 (Call example_call) example_rpc_conn = Done c1
     \<and> callee_once example_codec example_pool mem_redis example_broker 0 echo_thunk ''test.echo''
         (rd_elapse mem_redis 10 (c_brokers c1)) = (Some None, r)
     \<and> results_once example_codec example_pool mem_redis example_uuid (rd_elapse mem_redis 10 r) = (Some rp, r')
     \<and> send_result example_rpc_platform example_rpc_server 1 rp (c1\<lparr>c_brokers := r'\<rparr>) = Done c2
     \<and> c_sent c2 = [Ack a, Res x]
     \<and> handleMessage example_env (encode_msg example_codec (Ack a)) cl1 = Inr cl2
     \<and> handleMessage example_env (encode_msg example_codec (Res x)) cl2 = Inr cl3
     \<and> cl_handled cl3 = [Received (Ack a), Received (Res x)] \<and> res_Args x = Some (JStr ''hi'')"
proof -
  obtain cl where w: "client_doWrite example_env True (Call example_call) example_client = Inr (None, cl)"
    using example_write by blast
  have msg: "Call_msg example_uuid ''test.echo'' (Some (JStr ''hi'')) Second example_client = Inr (Call example_call, Second)"
    by (simp add: Call_msg_def example_client_def New_def SetHandler_def NewCall_def example_call_def
        Second_def Millisecond_def Let_def)
  obtain cl1 where call: "Client_Call example_env True example_uuid ''test.echo'' (Some (JStr ''hi'')) Second example_client
      = Inr (Inr example_uuid, cl1, Some (example_call, Second))"
    using w msg by (simp add: Client_Call_def request_def after_write_def msg_UUID_def example_call_def NewMeta_def
        expire_wait_def Second_def Millisecond_def)
  have ok: "call_queue mem_redis (c_brokers example_rpc_conn) ''test.echo'' = []"
    "res_queue mem_redis (c_brokers example_rpc_conn) (uuid_String example_codec (c_UUID example_rpc_conn)) = []"
    "broker_invar (\<lambda>_. 0) example_pool mem_redis (c_brokers example_rpc_conn)"
    using example_broker_invar by (simp_all add: example_rpc_conn_def newConn_def)
  have facts: "wf_uuid example_uuid" "wf_uuid (c_UUID example_rpc_conn)" "valid_utf8 ''test.echo''" "in_i64 Second" "0 < Second"
    "CallMsg \<in> set (c_allowedMsgs example_rpc_conn) \<or> c_allowedMsgs example_rpc_conn = []" "cl_handler example_client"
    "answers_in echo_thunk echo_args Millisecond" "0 \<le> Millisecond"
    by (simp_all add: wf_uuid_def example_uuid_def example_rpc_conn_def newConn_def valid_utf8_def to_valid_utf8_ascii
        in_i64_def Second_def Millisecond_def example_client_def New_def SetHandler_def answers_in_def echo_thunk_def)
  have times: "Millisecond + Millisecond \<le> (timeout_ms Second - 10) * Millisecond"
    "10 < ((timeout_ms Second - 10) * Millisecond - Millisecond) div Millisecond" by code_simp+
  note trip = call_round_trip [OF example_rpc_plat ok(3) example_keys_ok example_keys_ok ok(1,2) facts(1-6) call facts(7-9) _ times(1) _ times(2),
      of example_broker 0]
  have sent: "c_sent example_rpc_conn = []" "c_UUID example_rpc_conn = example_uuid" "cl_handled example_client = []"
    by (simp_all add: example_rpc_conn_def newConn_def example_client_def New_def SetHandler_def)
  from trip obtain m c1 a r rp r' c2 x cl2 cl3 where t:
    "Call_msg example_uuid ''test.echo'' (Some (JStr ''hi'')) Second example_client = Inr (Call m, Second)"
    "Send example_rpc_platform example_rpc_server 2 (Call m) example_rpc_conn = Done c1"
    "c_sent c1 = c_sent example_rpc_conn @ [Ack a]"
    "callee_once example_codec example_pool mem_redis example_broker 0 echo_thunk ''test.echo''
         (rd_elapse mem_redis 10 (c_brokers c1)) = (Some None, r)"
    "results_once example_codec example_pool mem_redis (c_UUID example_rpc_conn) (rd_elapse mem_redis 10 r) = (Some rp, r')"
    "send_result example_rpc_platform example_rpc_server 1 rp (c1\<lparr>c_brokers := r'\<rparr>) = Done c2"
    "c_sent c2 = c_sent c1 @ [Res x]"
    "handleMessage example_env (encode_msg example_codec (Ack a)) cl1 = Inr cl2"
    "handleMessage example_env (encode_msg example_codec (Res x)) cl2 = Inr cl3"
    "cl_handled cl3 = cl_handled example_client @ [Received (Ack a), Received (Res x)]"
    "res_Args x = Some (echo_args (Some (JStr ''hi'')))"
    by auto
  have "m = example_call" using t(1) msg by simp
  then show ?thesis
    using call t(2,4-6,8,9) t(3,7,10,11) sent
    by (intro exI [of _ cl1] exI [of _ c1] exI [of _ a] exI [of _ r] exI [of _ rp] exI [of _ r'] exI [of _ c2] exI [of _ x]
        exI [of _ cl2] exI [of _ cl3]) (simp add: echo_args_def)
qed

section \<open>A publication from one client to another\<close>

text \<open>
  C2. The round trip of a publication through the whole system: with redis as documented and
  websockets that take the writes, a subscription that a client wrote is decoded by its server,
  made and acknowledged; after whatever subscriptions, publications and unsubscriptions of
  others and of its own, this one apart, a publication that another client wrote to a channel
  that the subscription takes is decoded by the server of that client, published and
  acknowledged. Redis then sends the first server a notification that becomes an event, which
  the server writes, and the handler of the first client is given it, with the UUID and
  arguments of the publication, its channel and the pattern of the subscription.
\<close>

theorem publish_round_trip:
  assumes laws: "pubsub_laws X"
    and plat: "pubsub_platform C P1 srv1 pool X i" "pubsub_platform C P2 srv2 pool X j" "ce_codec E1 = C"
    and sub: "Client_Sub E1 acq1 u1 sub pat cl0 = Inr (Inr u1', cl, g1)" "cl_handler cl0"
    and pub: "Client_Pub E2 acq2 u2 ch (Some v) cl2 = Inr (Inr u2', cl2', g2)"
    and wf: "wf_uuid u1" "wf_uuid u2" "valid_utf8 sub" "valid_utf8 ch"
    and allowed: "SubMsg \<in> set (c_allowedMsgs c1) \<or> c_allowedMsgs c1 = []" "c_psc c1"
      "PubMsg \<in> set (c_allowedMsgs c2) \<or> c_allowedMsgs c2 = []"
    and others: "list_all wf_psop ops" "UnsbOp i pat sub \<notin> set ops" and taken: "takes (px_matches X) pat sub ch"
  shows "\<exists>s m c1' a1 q c2' a2 n w ep c3 x cl'.
    Sub_msg u1 sub pat cl0 = Inr (Sub s, 0)
    \<and> UnmarshalRequest C (pf_registry P1) (encode_msg C (Sub s)) (c_allowedMsgs c1) = Inr (Sub s)
    \<and> Send P1 srv1 2 (Sub s) c1 = Done c1' \<and> c_sent c1' = c_sent c1 @ [Ack a1] \<and> ack_For a1 = u1
    \<and> q = ps_run C pool X ops (c_brokers c1')
    \<and> Pub_msg u2 ch (Some v) cl2 = Inr (Pub m, 0)
    \<and> UnmarshalRequest C (pf_registry P2) (encode_msg C (Pub m)) (c_allowedMsgs c2) = Inr (Pub m)
    \<and> Send P2 srv2 2 (Pub m) (c2\<lparr>c_brokers := q\<rparr>) = Done c2' \<and> c_sent c2' = c_sent c2 @ [Ack a2] \<and> ack_For a2 = u2
    \<and> n \<in> set (drop (length (px_inbox X i q)) (px_inbox X i (c_brokers c2')))
    \<and> event_value n = Some w \<and> sendEvent C w vars = (Some ep, vars)
    \<and> send_event P1 srv1 1 ep (c1'\<lparr>c_brokers := c_brokers c2'\<rparr>) = Done c3 \<and> c_sent c3 = c_sent c1' @ [Evnt x]
    \<and> handleMessage E1 (encode_msg C (Evnt x)) cl = Inr cl'
    \<and> cl_handled cl' = cl_handled cl @ [Received (Evnt x)]
    \<and> evnt_For x = u2 \<and> evnt_Channel x = ch \<and> evnt_Pattern x = (if pat then sub else '''') \<and> evnt_Args x = Some v"
proof -
  let ?s = "NewSub u1 sub pat" and ?m = "sent_pub u2 ch v" and ?pp = "\<lparr>pp_MsgUUID = u2, pp_Args = Some v\<rparr>"
  note subscribed = client_subscribed [OF sub(1)] and published = client_published [OF pub]
  obtain c1' a1 where c1: "UnmarshalRequest C (pf_registry P1) (encode_msg C (Sub ?s)) (c_allowedMsgs c1) = Inr (Sub ?s)"
    "Send P1 srv1 2 (Sub ?s) c1 = Done c1'" "c_sent c1' = c_sent c1 @ [Ack a1]" "ack_For a1 = u1"
    "(i, pat, sub) \<in> subs_of X (c_brokers c1')"
    using server_subscribes [OF plat(1) laws wf(1,3) allowed(1,2)] by blast
  define q where "q = ps_run C pool X ops (c_brokers c1')"
  have q: "(i, pat, sub) \<in> subs_of X q"
    using ps_run_refines [OF laws pubsub_platformD(2) [OF plat(1)] others(1), of pool "c_brokers c1'"]
      subscription_kept [OF c1(5)] others(2) by (simp add: q_def)
  obtain c2' a2 where c2: "UnmarshalRequest C (pf_registry P2) (encode_msg C (Pub ?m)) (c_allowedMsgs c2) = Inr (Pub ?m)"
    "Send P2 srv2 2 (Pub ?m) (c2\<lparr>c_brokers := q\<rparr>) = Done c2'" "c_sent c2' = c_sent c2 @ [Ack a2]" "ack_For a2 = u2"
    and inbox: "\<exists>l. px_inbox X i (c_brokers c2') = px_inbox X i q @ map (note_of ch (Some (encode_pubPayload C ?pp))) l
      \<and> set l = {(pat, sub). (i, pat, sub) \<in> subs_of X q \<and> takes (px_matches X) pat sub ch}"
    using server_publishes [OF plat(2) laws wf(2,4) allowed(3), of "pf_registry P2" v "c2\<lparr>c_brokers := q\<rparr>"] by auto
  let ?n = "note_of ch (Some (encode_pubPayload C ?pp)) (pat, sub)" and ?ep = "spec_event ch ?pp (pat, sub)"
  have n: "?n \<in> set (drop (length (px_inbox X i q)) (px_inbox X i (c_brokers c2')))"
    using inbox q taken by (auto intro!: image_eqI)
  obtain w where w: "event_value ?n = Some w" "sendEvent C w vars = (Some ?ep, vars)"
    using note_event [OF pubsub_platformD(2) [OF plat(1)], of ?pp ch "(pat, sub)"] wf(2) by auto
  obtain c3 x cl' where "send_event P1 srv1 1 ?ep (c1'\<lparr>c_brokers := c_brokers c2'\<rparr>) = Done c3"
    "c_sent c3 = c_sent c1' @ [Evnt x]" "handleMessage E1 (encode_msg C (Evnt x)) cl = Inr cl'"
    "cl_handled cl' = cl_handled cl @ [Received (Evnt x)]"
    "evnt_For x = u2 \<and> evnt_Channel x = ch \<and> evnt_Pattern x = (if pat then sub else '''') \<and> evnt_Args x = Some v"
    using event_handled [OF plat(1,3) _ wf(2,4,3) refl, where cl = cl and c = "c1'\<lparr>c_brokers := c_brokers c2'\<rparr>" and v = v and pat = pat]
      subscribed(2) sub(2) by auto
  with subscribed(1) published c1(1-4) c2 n w q_def show ?thesis
    by (intro exI [of _ ?s] exI [of _ ?m] exI [of _ c1'] exI [of _ a1] exI [of _ q] exI [of _ c2'] exI [of _ a2]
        exI [of _ ?n] exI [of _ w] exI [of _ ?ep] exI [of _ c3] exI [of _ x] exI [of _ cl']) simp
qed

definition example_ps_platform :: "nat \<Rightarrow> (string list, mem_ps) platform" where
  "example_ps_platform i =
     \<lparr>pf_codec = example_codec, pf_text = (\<lambda>_. ''text''), pf_ws = example_websocket,
      pf_brokers =
        \<lparr>bk_Call = (\<lambda>_ _ q. (None, q)),
         bk_Publish = Broker_Publish example_codec example_pool (\<lambda>_. px_PUBLISH mem_pubsub) NoFault,
         bk_NewResultsConn = (\<lambda>_ q. (None, q)), bk_NewPubSubConn = (\<lambda>q. (None, q)),
         bk_Subscribe = pubSubConn_Subscribe (px_conn mem_pubsub i),
         bk_Unsubscribe = pubSubConn_Unsubscribe (px_conn mem_pubsub i),
         bk_ClosePubSub = (\<lambda>q. q), bk_CloseResults = (\<lambda>q. q)\<rparr>,
      pf_draws = \<lparr>dr_uuid = (\<lambda>_. example_uuid), dr_acquired = (\<lambda>_. True), dr_duration = (\<lambda>_. 0)\<rparr>,
      pf_registry = init_registry, pf_threshold = 0\<rparr>"

definition example_ps_server :: "(string list, mem_ps) Server" where
  "example_ps_server =
     \<lparr>srv_ReadLimit = 0, srv_ReadTimeout = 0, srv_WriteLimit = 0, srv_WriteTimeout = 0,
      srv_AcquireWriteLockTimeout = 0, srv_ConnState = False, srv_Handler = None\<rparr>"

definition example_ps_conn :: "(string list, mem_ps) Conn" where
  "example_ps_conn = (newConn example_uuid [] ([], \<lambda>_. []) None [])\<lparr>c_psc := True\<rparr>"

lemma example_ps_plat:
  "pubsub_platform example_codec (example_ps_platform i) example_ps_server example_pool mem_pubsub i"
  using example_writes_through [of "example_ps_platform i" example_ps_server]
  by (simp add: pubsub_platform_def example_ps_platform_def example_ps_server_def)

lemma example_ps_client:
  "\<exists>cl g. Client_Sub example_env True example_uuid ''news.*'' True example_client = Inr (Inr example_uuid, cl, g)"
  "\<exists>cl g. Client_Pub example_env True example_uuid ''news.go'' (Some (JStr ''hi'')) example_client
     = Inr (Inr example_uuid, cl, g)"
proof -
  let ?s = "Sub (NewSub example_uuid ''news.*'' True)" and ?p = "Pub (sent_pub example_uuid ''news.go'' (JStr ''hi''))"
  have enc: "encode_msg example_codec ?s \<noteq> None" "encode_msg example_codec ?p \<noteq> None"
    by (simp_all add: encode_msg_def encode_payload_def encode_raw_def sent_pub_def)
  have err: "cl_err example_client = None" by (simp add: example_client_def New_def SetHandler_def)
  show "\<exists>cl g. Client_Sub example_env True example_uuid ''news.*'' True example_client = Inr (Inr example_uuid, cl, g)"
    using example_writes [OF enc(1)] err
    by (auto simp: Client_Sub_def Sub_msg_def request_def after_write_def msg_UUID_def) (simp add: NewSub_def NewMeta_def)
  show "\<exists>cl g. Client_Pub example_env True example_uuid ''news.go'' (Some (JStr ''hi'')) example_client
     = Inr (Inr example_uuid, cl, g)"
    using example_writes [OF enc(2)] err
    by (auto simp: Client_Pub_def Pub_msg_def NewPub_def sent_pub_def request_def after_write_def msg_UUID_def NewMeta_def)
qed

theorem publish_round_trip_witness:
  "\<exists>c1' q m c2' ep c3 x cl cl'.
     Send (example_ps_platform 1) example_ps_server 2 (Sub (NewSub example_uuid ''news.*'' True)) example_ps_conn = Done c1'
     \<and> q = ps_run example_codec example_pool mem_pubsub [SubOp 2 False ''other''] (c_brokers c1')
     \<and> Send (example_ps_platform 2) example_ps_server 2 (Pub m) (example_ps_conn\<lparr>c_brokers := q\<rparr>) = Done c2'
     \<and> send_event (example_ps_platform 1) example_ps_server 1 ep (c1'\<lparr>c_brokers := c_brokers c2'\<rparr>) = Done c3
     \<and> handleMessage example_env (encode_msg example_codec (Evnt x)) cl = Inr cl'
     \<and> evnt_Channel x = ''news.go'' \<and> evnt_Pattern x = ''news.*'' \<and> evnt_Args x = Some (JStr ''hi'')"
proof -
  obtain cl g where sub: "Client_Sub example_env True example_uuid ''news.*'' True example_client = Inr (Inr example_uuid, cl, g)"
    using example_ps_client(1) by blast
  obtain cl2 g2 where pub: "Client_Pub example_env True example_uuid ''news.go'' (Some (JStr ''hi'')) example_client
     = Inr (Inr example_uuid, cl2, g2)"
    using example_ps_client(2) by blast
  have facts: "ce_codec example_env = example_codec" "cl_handler example_client" "wf_uuid example_uuid"
    "valid_utf8 ''news.*''" "valid_utf8 ''news.go''"
    "SubMsg \<in> set (c_allowedMsgs example_ps_conn) \<or> c_allowedMsgs example_ps_conn = []" "c_psc example_ps_conn"
    "PubMsg \<in> set (c_allowedMsgs example_ps_conn) \<or> c_allowedMsgs example_ps_conn = []"
    "list_all wf_psop [SubOp 2 False ''other'']" "UnsbOp 1 True ''news.*'' \<notin> set [SubOp 2 False ''other'']"
    by (simp_all add: example_env_def example_client_def New_def SetHandler_def wf_uuid_def example_uuid_def
        valid_utf8_def to_valid_utf8_ascii example_ps_conn_def newConn_def)
  have "glob ''news.*'' ''news.go''" by code_simp
  then have taken: "takes (px_matches mem_pubsub) True ''news.*'' ''news.go''" by (simp add: takes_def mem_pubsub_def)
  note trip = publish_round_trip [OF pubsub_laws_mem example_ps_plat example_ps_plat facts(1) sub facts(2) pub facts(3,3-10) taken,
      of 2 None]
  from trip [unfolded if_True] obtain s m c1' q c2' ep c3 x cl' where t: "Sub_msg example_uuid ''news.*'' True example_client = Inr (Sub s, 0)"
    "Send (example_ps_platform 1) example_ps_server 2 (Sub s) example_ps_conn = Done c1'"
    "q = ps_run example_codec example_pool mem_pubsub [SubOp 2 False ''other''] (c_brokers c1')"
    "Send (example_ps_platform 2) example_ps_server 2 (Pub m) (example_ps_conn\<lparr>c_brokers := q\<rparr>) = Done c2'"
    "send_event (example_ps_platform 1) example_ps_server 1 ep (c1'\<lparr>c_brokers := c_brokers c2'\<rparr>) = Done c3"
    "handleMessage example_env (encode_msg example_codec (Evnt x)) cl = Inr cl'"
    "evnt_Channel x = ''news.go''" "evnt_Pattern x = ''news.*''" "evnt_Args x = Some (JStr ''hi'')"
    by (elim exE conjE) (rule that)
  have "s = NewSub example_uuid ''news.*'' True"
    using t(1) client_subscribed(1) [OF sub] by simp
  with t(2-9) show ?thesis by blast
qed

end
